(* ===== verification/P2P_Prelude.thy ===== *)
theory P2P_Prelude
  imports Main "HOL-Library.Word" "HOL-Library.AList" "HOL-Library.Multiset"
begin

unbundle bit_operations_syntax

section \<open>Prelude: Go values, errors, time and randomness\<close>

text \<open>
  What every component of the development shares.

  \<^item> Go's byte slices are lists of 8-bit words; Go's strings are byte sequences and are modelled by
    \<open>string\<close>, whose characters are exactly the 256 byte values.
  \<^item> A Go function that returns \<open>(T, error)\<close> returns a \<open>'a result\<close>: \<open>Inl e\<close> for the error,
    \<open>Inr v\<close> for a nil error. Each group of components has a datatype of its errors, and \<open>error\<close>
    is their union.
  \<^item> A \<open>time.Time\<close> is the number of nanoseconds since Go's zero time, so \<open>time.Time{}\<close> is 0; a
    \<open>time.Duration\<close> is a number of nanoseconds. Operations that call \<open>time.Now()\<close> take the clock's
    reading as an argument.
  \<^item> Randomness (\<open>math/rand\<close> and the order in which Go enumerates a map) is an explicit supply of
    draws. Every theorem holds for every supply.
\<close>

named_theorems go_defs \<open>definitions of the Go runtime operations, to be unfolded\<close>
named_theorems frame_simps \<open>what an operation leaves unchanged\<close>

type_synonym byte = "8 word"
type_synonym bytes = "byte list"
type_synonym time = int
type_synonym duration = int

subsection \<open>Errors\<close>

text \<open>The errors of the generated protobuf code (\<open>protocolV11.pb.go\<close>).\<close>

datatype pb_error =
    ErrInvalidLength | ErrIntOverflow | ErrUnexpectedEndOfGroup | ErrUnexpectedEOF
  | ErrEndGroup | ErrIllegalTag | ErrWrongWireType | ErrIllegalWireType

text \<open>The errors of parcels, handshakes and the three protocols.\<close>

datatype wire_error =
    ErrNilParcel | ErrUnknownParcelType | ErrZeroLengthPayload
  | ErrInvalidVersion | ErrLengthMismatch | ErrInvalidChecksum | ErrNullPayload
  | ErrInvalidSignature | ErrTooLarge | ErrShortWrite | ErrNoOwnHandshake

datatype handshake_error =
    ErrVersionBelowMinimum | ErrWrongNetwork | ErrBadPort | ErrPortOutOfRange
  | ErrInvalidAlternatives | ErrUnsupportedVersion | ErrLoopback | ErrConnectionRejected

text \<open>The errors of \<open>Configuration.Check\<close>, in the order of its tests.\<close>

datatype conf_error =
    ErrListenPortEmpty | ErrListenPortNumber | ErrPeerShareAmount | ErrRoundTime
  | ErrTargetPeers | ErrFanout | ErrHandshakeTimeout | ErrDialTimeout
  | ErrReadDeadline | ErrWriteDeadline | ErrProtocolVersion | ErrProtocolVersionMinimum
  | ErrChannelCapacity | ErrPeerShareTimeout | ErrSpecial

text \<open>The errors of endpoints, connections and the peer store.\<close>

datatype conn_error =
    ErrInvalidEndpoint | ErrAddress | ErrParsePort | ErrPortRange
  | ErrAddNil | ErrPeerExists | ErrNegativeLimit | ErrRateLimit | ErrDialTooSoon
  | ErrBanned | ErrMaxedOut | ErrIPLimit | ErrRejecting | ErrTimeout
  | ErrRestart | ErrAlreadyStopped

text \<open>Failures of the operating system and of library calls.\<close>

datatype sys_error =
    ErrEOF | ErrIO | ErrGob | ErrJson | ErrListen | ErrAccept | ErrDial | ErrResolve
  | ErrLookupHost | ErrHttp | ErrHttpStatus | ErrFile

datatype error =
    Pb pb_error | Wire wire_error | Hs handshake_error | Conf conf_error
  | Conn conn_error | Sys sys_error

type_synonym 'a result = "error + 'a"

text \<open>Sequencing of fallible steps: Go's \<open>if err != nil { return err }\<close>.\<close>

definition bindR :: "'e + 'a \<Rightarrow> ('a \<Rightarrow> 'e + 'b) \<Rightarrow> 'e + 'b" where
  "bindR r f = (case r of Inl e \<Rightarrow> Inl e | Inr v \<Rightarrow> f v)"

lemma bindR_simps [simp]:
  "bindR (Inl e) f = Inl e"
  "bindR (Inr v) f = f v"
  by (simp_all add: bindR_def)

lemma bindR_Inr_iff: "bindR r f = Inr y \<longleftrightarrow> (\<exists>x. r = Inr x \<and> f x = Inr y)"
  by (cases r) auto

lemma bindR_Inl_iff: "bindR r f = Inl e \<longleftrightarrow> r = Inl e \<or> (\<exists>x. r = Inr x \<and> f x = Inl e)"
  by (cases r) auto

lemma bindR_cong [fundef_cong]:
  assumes "r = r'" and "\<And>v. r' = Inr v \<Longrightarrow> f v = f' v"
  shows "bindR r f = bindR r' f'"
  using assms by (cases r') auto

definition is_ok :: "'e + 'a \<Rightarrow> bool" where
  "is_ok r = (case r of Inl _ \<Rightarrow> False | Inr _ \<Rightarrow> True)"

lemma is_ok_simps [simp]: "is_ok (Inr v)" "\<not> is_ok (Inl e)"
  by (simp_all add: is_ok_def)

lemma is_ok_iff: "is_ok r \<longleftrightarrow> (\<exists>v. r = Inr v)"
  by (cases r) auto

text \<open>A chain of checks: the error of the first guard that fires, as in a sequence of
  \<open>if cond { return err }\<close> statements.\<close>

primrec first_error :: "(bool \<times> 'e) list \<Rightarrow> 'e + unit" where
  "first_error [] = Inr ()"
| "first_error (c # cs) = (if fst c then Inl (snd c) else first_error cs)"

lemma first_error_ok_iff: "first_error cs = Inr () \<longleftrightarrow> (\<forall>c \<in> set cs. \<not> fst c)"
  by (induction cs) auto

subsection \<open>Bytes and strings\<close>

definition string_bytes :: "string \<Rightarrow> bytes" where
  "string_bytes s = map (\<lambda>c. word_of_nat (of_char c)) s"

definition bytes_string :: "bytes \<Rightarrow> string" where
  "bytes_string bs = map (\<lambda>b. char_of (unat b)) bs"

lemma of_char_less_256: "(of_char c :: nat) < 256"
  using of_char_mod_256 [of c] by (metis mod_less_divisor zero_less_numeral)

lemma length_string_bytes [simp]: "length (string_bytes s) = length s"
  by (simp add: string_bytes_def)

lemma length_bytes_string [simp]: "length (bytes_string bs) = length bs"
  by (simp add: bytes_string_def)

lemma string_bytes_Nil_iff [simp]: "string_bytes s = [] \<longleftrightarrow> s = []"
  by (simp add: string_bytes_def)

lemma string_bytes_append [simp]: "string_bytes (s @ t) = string_bytes s @ string_bytes t"
  by (simp add: string_bytes_def)

lemma bytes_string_string_bytes [simp]: "bytes_string (string_bytes s) = s"
proof -
  have "char_of (unat (word_of_nat (of_char c) :: byte)) = c" for c
    using of_char_less_256 [of c] by (simp add: unat_of_nat)
  then show ?thesis by (induction s) (simp_all add: string_bytes_def bytes_string_def)
qed

lemma string_bytes_bytes_string [simp]: "string_bytes (bytes_string bs) = bs"
proof -
  have "word_of_nat (of_char (char_of (unat b))) = b" for b :: byte
  proof -
    have "unat b < 2 ^ LENGTH(8)" by (rule unsigned_less)
    then have "unat b mod 256 = unat b" by simp
    then show ?thesis by simp
  qed
  then show ?thesis by (induction bs) (simp_all add: string_bytes_def bytes_string_def)
qed

subsection \<open>Machine integers\<close>

text \<open>\<open>int\<close> is 64 bits wide on the platforms the program targets: two's complement wrap-around.\<close>

definition go_int :: "int \<Rightarrow> int" where
  "go_int x = (x + 2 ^ 63) mod 2 ^ 64 - 2 ^ 63"

lemma go_int_id: "- (2 ^ 63) \<le> x \<Longrightarrow> x < 2 ^ 63 \<Longrightarrow> go_int x = x"
  by (simp add: go_int_def)

lemma go_int_range: "- (2 ^ 63) \<le> go_int x \<and> go_int x < 2 ^ 63"
  by (simp add: go_int_def)

lemma ucast_32_64 [simp]: "(ucast (ucast (x :: 32 word) :: 64 word) :: 32 word) = x"
  by (simp add: ucast_up_ucast_id is_up)

subsection \<open>Time\<close>

definition max_duration :: duration where "max_duration = 2 ^ 63 - 1"
definition min_duration :: duration where "min_duration = - (2 ^ 63)"

text \<open>\<open>Time.Sub\<close> saturates at the least and greatest duration; \<open>time.Since(t)\<close> is
  \<open>time.Now().Sub(t)\<close>.\<close>

definition Since :: "time \<Rightarrow> time \<Rightarrow> duration" where
  "Since now t = max min_duration (min max_duration (now - t))"

lemma Since_ge_iff:
  assumes "min_duration < d" and "d \<le> max_duration"
  shows "d \<le> Since now t \<longleftrightarrow> t + d \<le> now"
  using assms by (auto simp: Since_def min_def max_def)

lemma Since_mono: "now \<le> now' \<Longrightarrow> Since now t \<le> Since now' t"
  by (auto simp: Since_def)

lemma Since_less_iff:
  assumes "min_duration < d" and "d \<le> max_duration"
  shows "Since now t < d \<longleftrightarrow> now < t + d"
  using Since_ge_iff [OF assms, of now t] by linarith

definition Microsecond :: duration where "Microsecond = 1000"
definition Second :: duration where "Second = 1000000000"
definition Minute :: duration where "Minute = 60 * Second"
definition Hour :: duration where "Hour = 60 * Minute"

lemmas duration_defs [go_defs] = Second_def Minute_def Hour_def

subsection \<open>Random draws\<close>

text \<open>A supply of draws: \<open>r i\<close> is the \<open>i\<close>-th draw not yet consumed.\<close>

type_synonym rng = "nat \<Rightarrow> nat"

definition rng_next :: "rng \<Rightarrow> nat \<times> rng" where
  "rng_next r = (r 0, \<lambda>i. r (Suc i))"

text \<open>\<open>Intn(n)\<close> for positive \<open>n\<close>: some number below \<open>n\<close>.\<close>

definition Intn :: "rng \<Rightarrow> nat \<Rightarrow> nat \<times> rng" where
  "Intn r n = (fst (rng_next r) mod n, snd (rng_next r))"

lemma Intn_less: "0 < n \<Longrightarrow> fst (Intn r n) < n"
  by (simp add: Intn_def)

definition swap :: "'a list \<Rightarrow> nat \<Rightarrow> nat \<Rightarrow> 'a list" where
  "swap xs i j = xs[i := xs ! j, j := xs ! i]"

lemma length_swap [simp]: "length (swap xs i j) = length xs"
  by (simp add: swap_def)

lemma mset_swap_idx [simp]: "i < length xs \<Longrightarrow> j < length xs \<Longrightarrow> mset (swap xs i j) = mset xs"
  by (simp add: swap_def mset_swap)

text \<open>\<open>rand.Shuffle\<close>: for \<open>i\<close> from \<open>n - 1\<close> down to 1, swap position \<open>i\<close> with a random
  position not above \<open>i\<close>.\<close>

fun shuffle_from :: "nat \<Rightarrow> rng \<Rightarrow> 'a list \<Rightarrow> 'a list \<times> rng" where
  "shuffle_from 0 r xs = (xs, r)"
| "shuffle_from (Suc i) r xs =
     (let (j, r') = Intn r (Suc (Suc i)) in shuffle_from i r' (swap xs (Suc i) j))"

definition Shuffle :: "rng \<Rightarrow> 'a list \<Rightarrow> 'a list \<times> rng" where
  "Shuffle r xs = shuffle_from (length xs - 1) r xs"

lemma mset_shuffle_from: "i < length xs \<Longrightarrow> mset (fst (shuffle_from i r xs)) = mset xs"
proof (induction i arbitrary: r xs)
  case 0
  then show ?case by simp
next
  case (Suc i)
  obtain j r' where jr: "Intn r (Suc (Suc i)) = (j, r')" by fastforce
  with Intn_less [of "Suc (Suc i)" r] have "j < Suc (Suc i)" by simp
  with Suc.prems have "mset (swap xs (Suc i) j) = mset xs" by simp
  with Suc jr show ?case by simp
qed

lemma mset_Shuffle [simp]: "mset (fst (Shuffle r xs)) = mset xs"
  by (cases xs) (simp_all add: Shuffle_def mset_shuffle_from)

lemma Shuffle_mset: "Shuffle r xs = (ys, r') \<Longrightarrow> mset ys = mset xs"
  using mset_Shuffle [of r xs] by simp

lemma set_Shuffle [simp]: "set (fst (Shuffle r xs)) = set xs"
  using mset_eq_setD [OF mset_Shuffle] .

lemma length_Shuffle [simp]: "length (fst (Shuffle r xs)) = length xs"
  using mset_eq_length [OF mset_Shuffle] .

lemma distinct_Shuffle [simp]: "distinct (fst (Shuffle r xs)) = distinct xs"
  using mset_eq_imp_distinct_iff [OF mset_Shuffle] .

lemma Shuffle_Nil [simp]: "Shuffle r [] = ([], r)"
  by (simp add: Shuffle_def)

text \<open>\<open>rand.Perm(n)\<close>: the inside-out shuffle \<open>m[i] = m[j]; m[j] = i\<close>.\<close>

fun perm_from :: "nat \<Rightarrow> nat \<Rightarrow> rng \<Rightarrow> nat list \<Rightarrow> nat list \<times> rng" where
  "perm_from 0 i r m = (m, r)"
| "perm_from (Suc k) i r m =
     (let (j, r') = Intn r (Suc i) in perm_from k (Suc i) r' ((m @ [(m @ [i]) ! j])[j := i]))"

definition Perm :: "rng \<Rightarrow> nat \<Rightarrow> nat list \<times> rng" where
  "Perm r n = perm_from n 0 r []"

lemma perm_step_mset:
  assumes "j \<le> length m"
  shows "mset ((m @ [(m @ [x]) ! j])[j := x]) = add_mset x (mset m)"
proof (cases "j = length m")
  case True
  then show ?thesis by (simp add: list_update_append)
next
  case False
  with assms have "(m @ [(m @ [x]) ! j])[j := x] = swap (m @ [x]) (length m) j"
    by (simp add: swap_def list_update_append nth_append)
  with False assms show ?thesis by (simp add: mset_swap_idx)
qed

lemma mset_perm_from:
  "length m = i \<Longrightarrow> mset m = mset [0..<i] \<Longrightarrow> mset (fst (perm_from k i r m)) = mset [0..<i + k]"
proof (induction k arbitrary: i r m)
  case 0
  then show ?case by simp
next
  case (Suc k)
  obtain j r' where jr: "Intn r (Suc i) = (j, r')" by fastforce
  with Intn_less [of "Suc i" r] have "j \<le> length m" using Suc.prems by simp
  with Suc.prems have "mset ((m @ [(m @ [i]) ! j])[j := i]) = mset [0..<Suc i]"
    by (simp add: perm_step_mset)
  from Suc.IH [OF _ this] Suc.prems jr show ?case by simp
qed

lemma mset_Perm: "mset (fst (Perm r n)) = mset [0..<n]"
  using mset_perm_from [of "[]" 0] by (simp add: Perm_def)

lemma set_Perm [simp]: "set (fst (Perm r n)) = {..<n}"
  using mset_eq_setD [OF mset_Perm] by (simp add: atLeast0LessThan)

lemma distinct_Perm [simp]: "distinct (fst (Perm r n))"
  using mset_eq_imp_distinct_iff [OF mset_Perm] by simp

lemma length_Perm [simp]: "length (fst (Perm r n)) = n"
  using mset_eq_length [OF mset_Perm] by simp

lemma Perm_lookup_mset: "mset (map ((!) xs) (fst (Perm r (length xs)))) = mset xs"
proof -
  have "mset (map ((!) xs) (fst (Perm r (length xs))))
      = image_mset ((!) xs) (mset (fst (Perm r (length xs))))"
    by (simp only: mset_map)
  also have "\<dots> = image_mset ((!) xs) (mset [0..<length xs])"
    by (simp only: mset_Perm)
  also have "\<dots> = mset (map ((!) xs) [0..<length xs])"
    by (simp only: mset_map)
  also have "\<dots> = mset xs"
    by (simp only: map_nth)
  finally show ?thesis .
qed

end
