(* ===== verification/GoLib.thy ===== *)
theory GoLib
  imports P2P_Prelude
begin

unbundle bit_operations_syntax

section \<open>What the program uses of Go's standard library\<close>

text \<open>
  Executable models of the library functions the package calls on strings, addresses and bytes:
  \<open>strconv.Atoi\<close>, \<open>strings.Split\<close>, \<open>strings.TrimSpace\<close>, \<open>net.SplitHostPort\<close>,
  \<open>net.ParseIP\<close>, the verbs \<open>%d\<close> and \<open>%x\<close> of \<open>fmt\<close>, \<open>encoding/binary\<close> and
  \<open>hash/crc32\<close>. They follow the sources of the Go release the module names (1.13) branch by branch.
\<close>

subsection \<open>Digits and numbers\<close>

definition is_digit :: "char \<Rightarrow> bool" where
  "is_digit c \<longleftrightarrow> 48 \<le> (of_char c :: nat) \<and> (of_char c :: nat) \<le> 57"

definition digit_val :: "char \<Rightarrow> nat" where
  "digit_val c = of_char c - 48"

definition digits_val :: "string \<Rightarrow> nat" where
  "digits_val ds = fold (\<lambda>c n. n * 10 + digit_val c) ds 0"

text \<open>\<open>strconv.Atoi\<close>: an optional sign and at least one decimal digit, within 64 bits; \<open>None\<close> stands
  for both of its errors (syntax and range).\<close>

definition Atoi :: "string \<Rightarrow> int option" where
  "Atoi s =
     (let neg = (s \<noteq> [] \<and> hd s = CHR ''-'');
          ds = (if s \<noteq> [] \<and> (hd s = CHR ''-'' \<or> hd s = CHR ''+'') then tl s else s);
          n = int (digits_val ds)
      in if ds = [] \<or> \<not> list_all is_digit ds then None
         else if neg then (if n \<le> 2 ^ 63 then Some (- n) else None)
         else (if n < 2 ^ 63 then Some n else None))"

text \<open>\<open>%d\<close> and \<open>%x\<close> of unsigned numbers.\<close>

definition hex_digit :: "nat \<Rightarrow> char" where
  "hex_digit n = char_of (if n < 10 then 48 + n else 87 + n)"

function show_base :: "nat \<Rightarrow> nat \<Rightarrow> string" where
  "show_base b n =
     (if n < b \<or> b < 2 then [hex_digit n] else show_base b (n div b) @ [hex_digit (n mod b)])"
  by pat_completeness auto
termination
  by (relation "measure (\<lambda>(b, n). n)") (auto intro: div_less_dividend)

declare show_base.simps [simp del]

definition show_dec :: "nat \<Rightarrow> string" where "show_dec = show_base 10"
definition show_hex :: "nat \<Rightarrow> string" where "show_hex = show_base 16"

text \<open>\<open>%08x\<close>: padded with zeros to eight characters.\<close>

definition show_hex8 :: "nat \<Rightarrow> string" where
  "show_hex8 n = replicate (8 - length (show_hex n)) CHR ''0'' @ show_hex n"

subsection \<open>strings\<close>

text \<open>\<open>strings.Split(s, ",")\<close> for a one-byte separator: at least one piece.\<close>

fun Split :: "char \<Rightarrow> string \<Rightarrow> string list" where
  "Split sep [] = [[]]"
| "Split sep (c # cs) =
     (if c = sep then [] # Split sep cs
      else case Split sep cs of [] \<Rightarrow> [[c]] | p # ps \<Rightarrow> (c # p) # ps)"

text \<open>The UTF-8 encodings of the runes for which \<open>unicode.IsSpace\<close> holds.\<close>

definition space_runes :: "string list" where
  "space_runes = map (map char_of)
     ([[9], [10], [11], [12], [13], [32], [0xC2, 0x85], [0xC2, 0xA0], [0xE1, 0x9A, 0x80]]
      @ map (\<lambda>k. [0xE2, 0x80, 0x80 + k]) [0..<11]
      @ [[0xE2, 0x80, 0xA8], [0xE2, 0x80, 0xA9], [0xE2, 0x80, 0xAF], [0xE2, 0x81, 0x9F],
         [0xE3, 0x80, 0x80 :: nat]])"

definition leading_space :: "string list \<Rightarrow> string \<Rightarrow> nat" where
  "leading_space runes s = (case find (\<lambda>r. take (length r) s = r) runes of None \<Rightarrow> 0 | Some r \<Rightarrow> length r)"

function trim_left :: "string list \<Rightarrow> string \<Rightarrow> string" where
  "trim_left runes s =
     (let k = leading_space runes s in if k = 0 \<or> s = [] then s else trim_left runes (drop k s))"
  by pat_completeness auto
termination
  by (relation "measure (\<lambda>(_, s). length s)") auto

declare trim_left.simps [simp del]

definition TrimSpace :: "string \<Rightarrow> string" where
  "TrimSpace s = rev (trim_left (map rev space_runes) (rev (trim_left space_runes s)))"

subsection \<open>net.SplitHostPort\<close>

text \<open>\<open>IndexByte\<close> and \<open>last\<close>: the position of the first and of the last occurrence.\<close>

fun index_of :: "char \<Rightarrow> string \<Rightarrow> nat option" where
  "index_of c [] = None"
| "index_of c (x # xs) = (if x = c then Some 0 else map_option Suc (index_of c xs))"

fun last_index_of :: "char \<Rightarrow> string \<Rightarrow> nat option" where
  "last_index_of c [] = None"
| "last_index_of c (x # xs) =
     (case last_index_of c xs of Some i \<Rightarrow> Some (Suc i) | None \<Rightarrow> if x = c then Some 0 else None)"

definition SplitHostPort :: "string \<Rightarrow> (string \<times> string) option" where
  "SplitHostPort hostport =
     (case last_index_of CHR '':'' hostport of
        None \<Rightarrow> None
      | Some i \<Rightarrow>
          let rest = (\<lambda>host j k.
                if CHR ''['' \<in> set (drop j hostport) then None
                else if CHR '']'' \<in> set (drop k hostport) then None
                else Some (host, drop (i + 1) hostport))
          in if hostport \<noteq> [] \<and> hd hostport = CHR ''['' then
               (case index_of CHR '']'' hostport of
                  None \<Rightarrow> None
                | Some e \<Rightarrow>
                    if e + 1 = length hostport then None
                    else if e + 1 = i then rest (take (e - 1) (drop 1 hostport)) 1 (e + 1)
                    else None)
             else if CHR '':'' \<in> set (take i hostport) then None
             else rest (take i hostport) 0 0)"

subsection \<open>net.ParseIP\<close>

definition hex_val :: "char \<Rightarrow> nat option" where
  "hex_val c = (let n = of_char c in
     if 48 \<le> n \<and> n \<le> 57 then Some (n - 48)
     else if 97 \<le> n \<and> n \<le> 102 then Some (n - 87)
     else if 65 \<le> n \<and> n \<le> 70 then Some (n - 55) else None)"

definition dec_val :: "char \<Rightarrow> nat option" where
  "dec_val c = (if is_digit c then Some (digit_val c) else None)"

text \<open>\<open>dtoi\<close> and \<open>xtoi\<close>: the number at the start of a string and how many characters it takes; no
  number, or one that reaches \<open>big = 0xFFFFFF\<close>, is \<open>None\<close>.\<close>

fun scan_num :: "(char \<Rightarrow> nat option) \<Rightarrow> nat \<Rightarrow> nat \<Rightarrow> nat \<Rightarrow> string \<Rightarrow> (nat \<times> nat) option" where
  "scan_num f base n i [] = (if i = 0 then None else Some (n, i))"
| "scan_num f base n i (c # cs) =
     (case f c of
        None \<Rightarrow> if i = 0 then None else Some (n, i)
      | Some v \<Rightarrow> if 0xFFFFFF \<le> n * base + v then None else scan_num f base (n * base + v) (Suc i) cs)"

definition dtoi :: "string \<Rightarrow> (nat \<times> nat) option" where "dtoi = scan_num dec_val 10 0 0"
definition xtoi :: "string \<Rightarrow> (nat \<times> nat) option" where "xtoi = scan_num hex_val 16 0 0"

fun parse_octets :: "nat \<Rightarrow> bool \<Rightarrow> string \<Rightarrow> bytes option" where
  "parse_octets 0 first s = (if s = [] then Some [] else None)"
| "parse_octets (Suc n) first s =
     (if s = [] then None
      else if \<not> first \<and> hd s \<noteq> CHR ''.'' then None
      else let s' = (if first then s else tl s) in
           case dtoi s' of
             None \<Rightarrow> None
           | Some (v, c) \<Rightarrow>
               if 255 < v then None
               else map_option ((#) (word_of_nat v)) (parse_octets n False (drop c s')))"

definition parseIPv4 :: "string \<Rightarrow> bytes option" where
  "parseIPv4 s = parse_octets 4 True s"

definition v4InV6Prefix :: bytes where
  "v4InV6Prefix = replicate 10 0 @ [0xff, 0xff]"

text \<open>The loop of \<open>parseIPv6\<close>: the bytes parsed so far, the position of the ellipsis if there was
  one, and the rest of the string. The result is the state in which the loop is left.\<close>

function parse_groups :: "bytes \<Rightarrow> nat option \<Rightarrow> string \<Rightarrow> (bytes \<times> nat option \<times> string) option" where
  "parse_groups ip el s =
     (if 16 \<le> length ip then Some (ip, el, s)
      else case xtoi s of
        None \<Rightarrow> None
      | Some (n, c) \<Rightarrow>
          if 0xFFFF < n then None
          else if c < length s \<and> s ! c = CHR ''.'' then
            (if el = None \<and> length ip \<noteq> 12 then None
             else if 16 < length ip + 4 then None
             else case parseIPv4 s of None \<Rightarrow> None | Some ip4 \<Rightarrow> Some (ip @ ip4, el, []))
          else
            let ip' = ip @ [word_of_nat (n div 256), word_of_nat n]; s1 = drop c s
            in if s1 = [] then Some (ip', el, [])
               else if hd s1 \<noteq> CHR '':'' \<or> length s1 = 1 then None
               else let s2 = tl s1 in
                 if hd s2 = CHR '':'' then
                   (if el \<noteq> None then None
                    else let s3 = tl s2 in
                         if s3 = [] then Some (ip', Some (length ip'), [])
                         else parse_groups ip' (Some (length ip')) s3)
                 else parse_groups ip' el s2)"
  by pat_completeness auto
termination
  by (relation "measure (\<lambda>(ip, _, _). 16 - length ip)") auto

declare parse_groups.simps [simp del]

definition parseIPv6 :: "string \<Rightarrow> bytes option" where
  "parseIPv6 s =
     (let lead = (take 2 s = ''::''); s0 = (if lead then drop 2 s else s); el0 = (if lead then Some 0 else None)
      in if lead \<and> s0 = [] then Some (replicate 16 0)
         else case parse_groups [] el0 s0 of
           None \<Rightarrow> None
         | Some (ip, el, rest) \<Rightarrow>
             if rest \<noteq> [] then None
             else if length ip < 16 then
               (case el of
                  None \<Rightarrow> None
                | Some e \<Rightarrow> Some (take e ip @ replicate (16 - length ip) 0 @ drop e ip))
             else if el \<noteq> None then None else Some ip)"

text \<open>\<open>ParseIP\<close> decides by the first dot or colon; an IPv4 address is returned in its 16-byte
  form.\<close>

definition ParseIP :: "string \<Rightarrow> bytes option" where
  "ParseIP s =
     (case find (\<lambda>c. c = CHR ''.'' \<or> c = CHR '':'') s of
        None \<Rightarrow> None
      | Some c \<Rightarrow> if c = CHR ''.'' then map_option ((@) v4InV6Prefix) (parseIPv4 s) else parseIPv6 s)"

subsection \<open>encoding/binary and hash/crc32\<close>

definition BigEndian_Uint32 :: "bytes \<Rightarrow> 32 word" where
  "BigEndian_Uint32 bs =
     push_bit 24 (ucast (bs ! 0)) OR push_bit 16 (ucast (bs ! 1)) OR push_bit 8 (ucast (bs ! 2))
     OR ucast (bs ! 3)"

definition BigEndian_PutUint32 :: "32 word \<Rightarrow> bytes" where
  "BigEndian_PutUint32 v = [ucast (drop_bit 24 v), ucast (drop_bit 16 v), ucast (drop_bit 8 v), ucast v]"

definition LittleEndian_PutUint64 :: "64 word \<Rightarrow> bytes" where
  "LittleEndian_PutUint64 v = map (\<lambda>k. ucast (drop_bit (8 * k) v)) [0..<8]"

definition LittleEndian_Uint64 :: "bytes \<Rightarrow> 64 word" where
  "LittleEndian_Uint64 bs = foldr (\<lambda>b acc. push_bit 8 acc OR ucast b) bs 0"

lemma length_PutUint32 [simp]: "length (BigEndian_PutUint32 v) = 4"
  by (simp add: BigEndian_PutUint32_def)

lemma length_PutUint64 [simp]: "length (LittleEndian_PutUint64 v) = 8"
  by (simp add: LittleEndian_PutUint64_def)

text \<open>\<open>crc32.MakeTable(crc32.Koopman)\<close> and \<open>crc32.Checksum\<close>; the polynomial is the reversed Koopman
  polynomial.\<close>

definition Koopman :: "32 word" where "Koopman = 0xeb31d82e"

definition crc_bit :: "32 word \<Rightarrow> 32 word" where
  "crc_bit crc = (if crc AND 1 = 1 then drop_bit 1 crc XOR Koopman else drop_bit 1 crc)"

definition crc_entry :: "byte \<Rightarrow> 32 word" where
  "crc_entry i = (crc_bit ^^ 8) (ucast i)"

definition crc_update :: "32 word \<Rightarrow> byte \<Rightarrow> 32 word" where
  "crc_update crc v = crc_entry (ucast crc XOR v) XOR drop_bit 8 crc"

definition Checksum :: "bytes \<Rightarrow> 32 word" where
  "Checksum bs = NOT (fold (\<lambda>v crc. crc_update crc v) bs (NOT 0))"

subsection \<open>Facts\<close>

lemma BigEndian_roundtrip: "BigEndian_Uint32 (BigEndian_PutUint32 v) = v"
proof (rule bit_word_eqI)
  fix n
  assume "n < LENGTH(32)"
  then show "bit (BigEndian_Uint32 (BigEndian_PutUint32 v)) n = bit v n"
    by (cases "24 \<le> n"; cases "16 \<le> n"; cases "8 \<le> n")
      (auto simp: BigEndian_Uint32_def BigEndian_PutUint32_def bit_simps)
qed

lemma LittleEndian_fold:
  "foldr (\<lambda>b acc. push_bit 8 acc OR ucast b) (map (\<lambda>k. ucast (drop_bit (8 * k) v) :: byte) [i..<i + n]) 0
    = take_bit (8 * n) (drop_bit (8 * i) (v :: 64 word))"
proof (induction n arbitrary: i)
  case 0
  then show ?case by simp
next
  case (Suc n)
  have "[i..<i + Suc n] = i # [Suc i..<Suc i + n]" by (simp add: upt_conv_Cons del: upt_Suc)
  then have "foldr (\<lambda>b acc. push_bit 8 acc OR ucast b)
      (map (\<lambda>k. ucast (drop_bit (8 * k) v) :: byte) [i..<i + Suc n]) 0
    = push_bit 8 (take_bit (8 * n) (drop_bit (8 * Suc i) v)) OR ucast (ucast (drop_bit (8 * i) v) :: byte)"
    by (simp only: list.map foldr.simps comp_apply Suc [of "Suc i"])
  also have "\<dots> = take_bit (8 * Suc n) (drop_bit (8 * i) v)"
  proof (rule bit_word_eqI)
    fix m
    show "bit (push_bit 8 (take_bit (8 * n) (drop_bit (8 * Suc i) v))
        OR ucast (ucast (drop_bit (8 * i) v) :: byte)) m = bit (take_bit (8 * Suc n) (drop_bit (8 * i) v)) m"
      by (cases "8 \<le> m") (auto simp: bit_simps dest: bit_imp_le_length)
  qed
  finally show ?case .
qed

lemma LittleEndian_roundtrip: "LittleEndian_Uint64 (LittleEndian_PutUint64 v) = v"
  using LittleEndian_fold [of v 0 8] by (simp add: LittleEndian_Uint64_def LittleEndian_PutUint64_def take_bit_word_eq_self)

end
