(* ===== verification/Parcels.thy ===== *)
theory Parcels
  imports GoLib
begin

unbundle bit_operations_syntax

section \<open>Parcels, parcel types and network ids\<close>

text \<open>
  \<open>parcelType.go\<close>, \<open>parcel.go\<close>, \<open>networkId.go\<close> and the hashing and location helpers of \<open>util.go\<close>.
  A \<open>*Parcel\<close> that may be nil is an option. SHA-256 and the host lookup are arguments of the
  functions that use them.
\<close>

subsection \<open>Parcel types\<close>

type_synonym ParcelType = "16 word"

definition TypeHeartbeat :: ParcelType where "TypeHeartbeat = 0"
definition TypePing :: ParcelType where "TypePing = 1"
definition TypePong :: ParcelType where "TypePong = 2"
definition TypePeerRequest :: ParcelType where "TypePeerRequest = 3"
definition TypePeerResponse :: ParcelType where "TypePeerResponse = 4"
definition TypeAlert :: ParcelType where "TypeAlert = 5"
definition TypeMessage :: ParcelType where "TypeMessage = 6"
definition TypeMessagePart :: ParcelType where "TypeMessagePart = 7"
definition TypeHandshake :: ParcelType where "TypeHandshake = 8"
definition TypeRejectAlternative :: ParcelType where "TypeRejectAlternative = 9"

lemmas ParcelType_defs = TypeHeartbeat_def TypePing_def TypePong_def TypePeerRequest_def
  TypePeerResponse_def TypeAlert_def TypeMessage_def TypeMessagePart_def TypeHandshake_def
  TypeRejectAlternative_def

definition typeStrings :: "(ParcelType \<times> string) list" where
  "typeStrings =
     [(TypeHeartbeat, ''Heartbeat''), (TypePing, ''Ping''), (TypePong, ''Pong''),
      (TypePeerRequest, ''Peer-Request''), (TypePeerResponse, ''Peer-Response''),
      (TypeAlert, ''Alert''), (TypeMessage, ''Message''), (TypeMessagePart, ''MessagePart''),
      (TypeHandshake, ''Handshake''), (TypeRejectAlternative, ''Rejection-Alternative'')]"

definition ParcelType_String :: "ParcelType \<Rightarrow> string" where
  "ParcelType_String t = (case map_of typeStrings t of None \<Rightarrow> [] | Some s \<Rightarrow> s)"

subsection \<open>Parcels\<close>

record Parcel =
  ptype :: ParcelType
  Address :: string
  Payload :: bytes

definition IsApplicationMessage :: "Parcel \<Rightarrow> bool" where
  "IsApplicationMessage p \<longleftrightarrow> ptype p = TypeMessage \<or> ptype p = TypeMessagePart"

definition Parcel_String :: "Parcel \<Rightarrow> string" where
  "Parcel_String p = ''['' @ ParcelType_String (ptype p) @ ''] '' @ show_dec (length (Payload p)) @ ''B''"

definition newParcel :: "ParcelType \<Rightarrow> bytes \<Rightarrow> Parcel" where
  "newParcel command payload = \<lparr>ptype = command, Address = [], Payload = payload\<rparr>"

definition NewParcel :: "string \<Rightarrow> bytes \<Rightarrow> Parcel" where
  "NewParcel target payload = (newParcel TypeMessage payload)\<lparr>Address := target\<rparr>"

definition Parcel_Valid :: "Parcel option \<Rightarrow> wire_error + unit" where
  "Parcel_Valid mp =
     (case mp of
        None \<Rightarrow> Inl ErrNilParcel
      | Some p \<Rightarrow>
          first_error
            [(of_nat (length typeStrings) \<le> ptype p, ErrUnknownParcelType),
             (length (Payload p) = 0, ErrZeroLengthPayload)])"

subsection \<open>Network ids and hashing helpers\<close>

type_synonym NetworkID = "32 word"

definition MainNet :: NetworkID where "MainNet = 0xfeedbeef"
definition TestNet :: NetworkID where "TestNet = 0xdeadbeef"
definition LocalNet :: NetworkID where "LocalNet = 0xbeaded"

definition StringToUint32 :: "(bytes \<Rightarrow> bytes) \<Rightarrow> string \<Rightarrow> 32 word" where
  "StringToUint32 sha256 input = BigEndian_Uint32 (take 4 (sha256 (string_bytes input)))"

definition NewNetworkID :: "(bytes \<Rightarrow> bytes) \<Rightarrow> string \<Rightarrow> NetworkID" where
  "NewNetworkID sha256 name = StringToUint32 sha256 name"

definition NetworkID_String :: "NetworkID \<Rightarrow> string" where
  "NetworkID_String n =
     (if n = MainNet then ''MainNet''
      else if n = TestNet then ''TestNet''
      else if n = LocalNet then ''LocalNet''
      else ''CustomNet ID: '' @ show_hex (unat n))"

definition last4 :: "bytes \<Rightarrow> bytes" where
  "last4 ip = (if length ip = 16 then drop 12 ip else ip)"

definition IP2LocationQuick :: "string \<Rightarrow> 32 word" where
  "IP2LocationQuick addr =
     (case ParseIP addr of None \<Rightarrow> 0 | Some ip \<Rightarrow> BigEndian_Uint32 (last4 ip))"

text \<open>\<open>LookupHost\<close> gives the addresses of a host or fails. Reading a uint32 from a nil address panics:
  \<open>Inr None\<close>.\<close>

definition IP2Location :: "(string \<Rightarrow> string list option) \<Rightarrow> string \<Rightarrow> sys_error + 32 word option" where
  "IP2Location LookupHost addr =
     (case ParseIP addr of
        Some ip \<Rightarrow> Inr (Some (BigEndian_Uint32 (last4 ip)))
      | None \<Rightarrow>
          (case LookupHost addr of
             None \<Rightarrow> Inl ErrLookupHost
           | Some [] \<Rightarrow> Inr None
           | Some (a # _) \<Rightarrow>
               (case ParseIP a of None \<Rightarrow> Inr None | Some ip \<Rightarrow> Inr (Some (BigEndian_Uint32 (last4 ip))))))"

subsection \<open>Facts\<close>

lemma word16_less_10: "t < (10 :: 16 word) \<longleftrightarrow> t \<in> {0, 1, 2, 3, 4, 5, 6, 7, 8, 9}"
proof
  assume "t < 10"
  then have "unat t < 10" by (simp add: word_less_nat_alt)
  then have "unat t \<in> {0, 1, 2, 3, 4, 5, 6, 7, 8, 9}" by force
  moreover have "word_of_nat n \<in> {0, 1, 2, 3, 4, 5, 6, 7, 8, 9 :: 16 word}"
    if "n \<in> {0, 1, 2, 3, 4, 5, 6, 7, 8, 9}" for n :: nat
    using that by (elim insertE emptyE) simp_all
  ultimately have "word_of_nat (unat t) \<in> {0, 1, 2, 3, 4, 5, 6, 7, 8, 9 :: 16 word}" by blast
  then show "t \<in> {0, 1, 2, 3, 4, 5, 6, 7, 8, 9}" by (simp only: of_nat_unat ucast_id)
next
  assume "t \<in> {0, 1, 2, 3, 4, 5, 6, 7, 8, 9}"
  then show "t < 10" by (elim insertE emptyE) simp_all
qed

lemma dom_typeStrings: "dom (map_of typeStrings) = {t. t < 10}"
  by (auto simp: dom_map_of_conv_image_fst typeStrings_def ParcelType_defs word16_less_10)

lemma length_typeStrings [simp]: "length typeStrings = 10"
  by (simp add: typeStrings_def)

end
