(* ===== verification/Connections.thy ===== *)
theory Connections
  imports Parcels
begin

section \<open>Connections, and what every protocol owes its peer\<close>

text \<open>
  A connection seen by one side: the elements still to be read (what the remote side has sent and this
  side has not read yet), the elements written so far, and how the operating system answers a write.
  An element of the stream is a byte, as version 11 reads and writes them, or a whole gob message
  (\<open>Gob\<close>), the unit in which the \<open>encoding/gob\<close> package that versions 9 and 10 use reads and writes.

  The \<open>Protocol\<close> interface of \<open>protocol.go\<close> is the locale \<open>parcel_protocol\<close>: sending appends a frame
  to the output, and a receiver in step with the sender that finds this frame at the front of its input
  receives the parcel, is left with the rest and stays in step. What follows for whole sequences of
  parcels is proved once, inside the locale.
\<close>

datatype 'g item = Byte byte | Gob 'g

text \<open>The bytes of a part of the stream that consists of bytes only.\<close>

fun items_bytes :: "'g item list \<Rightarrow> bytes option" where
  "items_bytes [] = Some []"
| "items_bytes (Byte b # xs) = map_option ((#) b) (items_bytes xs)"
| "items_bytes (Gob g # xs) = None"

lemma items_bytes_map [simp]: "items_bytes (map Byte bs) = Some bs"
  by (induction bs) simp_all

lemma items_bytes_Some_iff: "items_bytes xs = Some bs \<longleftrightarrow> xs = map Byte bs"
  by (induction xs arbitrary: bs rule: items_bytes.induct) (auto simp: Cons_eq_map_conv)

record 'a RW =
  rw_in :: "'a list"
  rw_out :: "'a list"
  rw_write :: "'a list \<Rightarrow> 'a list \<Rightarrow> nat \<times> bool"

text \<open>\<open>Write(data)\<close>: how many elements were taken and whether there was an error.\<close>

definition Write :: "'a list \<Rightarrow> 'a RW \<Rightarrow> nat \<times> bool \<times> 'a RW" where
  "Write data rw =
     (let (n, failed) = rw_write rw (rw_out rw) data; k = min n (length data)
      in (k, failed, rw\<lparr>rw_out := rw_out rw @ take k data\<rparr>))"

text \<open>\<open>io.ReadFull\<close>: exactly \<open>n\<close> elements, or an error at the end of the stream.\<close>

definition ReadFull :: "nat \<Rightarrow> 'a RW \<Rightarrow> sys_error + ('a list \<times> 'a RW)" where
  "ReadFull n rw =
     (if length (rw_in rw) < n then Inl ErrEOF
      else Inr (take n (rw_in rw), rw\<lparr>rw_in := drop n (rw_in rw)\<rparr>))"

lemma ReadFull_append [simp]:
  "rw_in r = x @ rest \<Longrightarrow> length x = n \<Longrightarrow> ReadFull n r = Inr (x, r\<lparr>rw_in := rest\<rparr>)"
  by (auto simp: ReadFull_def)

text \<open>A writer that always takes everything, for examples.\<close>

definition open_rw :: "'a list \<Rightarrow> 'a RW" where
  "open_rw input = \<lparr>rw_in = input, rw_out = [], rw_write = (\<lambda>_ data. (length data, False))\<rparr>"

definition send_all :: "('p \<Rightarrow> 'c \<Rightarrow> 'e + 'c) \<Rightarrow> 'p list \<Rightarrow> 'c \<Rightarrow> 'e + 'c" where
  "send_all send ps c = fold (\<lambda>p r. bindR r (send p)) ps (Inr c)"

primrec recv_n :: "('c \<Rightarrow> 'e + ('p \<times> 'c)) \<Rightarrow> nat \<Rightarrow> 'c \<Rightarrow> 'e + ('p list \<times> 'c)" where
  "recv_n recv 0 c = Inr ([], c)"
| "recv_n recv (Suc n) c =
     bindR (recv c) (\<lambda>(p, c'). bindR (recv_n recv n c') (\<lambda>(ps, c''). Inr (p # ps, c'')))"

lemma fold_bindR_Inl [simp]: "fold (\<lambda>p r. bindR r (send p)) ps (Inl e) = Inl e"
  by (induction ps) simp_all

lemma send_all_simps [simp]:
  "send_all send [] c = Inr c"
  "send_all send (p # ps) c = bindR (send p c) (send_all send ps)"
  by (cases "send p c"; simp add: send_all_def)+

text \<open>Sending and receiving through a representation of the state (a method call through an interface).\<close>

lemma send_all_lift:
  assumes "\<And>p s. f p (L s) = bindR (g p s) (\<lambda>s'. Inr (L s'))"
  shows "send_all f ps (L s) = bindR (send_all g ps s) (\<lambda>s'. Inr (L s'))"
proof (induction ps arbitrary: s)
  case (Cons p ps)
  then show ?case by (cases "g p s") (simp_all add: assms)
qed simp

lemma recv_n_lift:
  assumes "\<And>r. f (L r) = bindR (g r) (\<lambda>(p, r'). Inr (p, L r'))"
  shows "recv_n f n (L r) = bindR (recv_n g n r) (\<lambda>(ps, r'). Inr (ps, L r'))"
proof (induction n arbitrary: r)
  case (Suc n)
  show ?case
  proof (cases "g r")
    case (Inr pr)
    obtain p r1 where pr: "pr = (p, r1)" by (rule prod.exhaust)
    with Inr Suc [of r1] show ?thesis by (cases "recv_n g n r1") (auto simp: assms)
  qed (simp add: assms)
qed simp

locale parcel_protocol =
  fixes send :: "'p \<Rightarrow> 's \<Rightarrow> 'e + 's"
    and recv :: "'r \<Rightarrow> 'e + ('p \<times> 'r)"
    and outp :: "'s \<Rightarrow> 'i list"
    and inp :: "'r \<Rightarrow> 'i list"
    and in_step :: "'s \<Rightarrow> 'r \<Rightarrow> bool"
    and received :: "'p \<Rightarrow> 'p"
    and sendable :: "'p \<Rightarrow> bool"
  assumes frame: "send p s = Inr s' \<Longrightarrow> sendable p \<Longrightarrow>
      \<exists>f. outp s' = outp s @ f
        \<and> (\<forall>r rest. in_step s r \<longrightarrow> inp r = f @ rest \<longrightarrow>
              (\<exists>r'. recv r = Inr (received p, r') \<and> inp r' = rest \<and> in_step s' r'))"
begin

text \<open>Parcels arrive in the order in which they were sent, none lost, none invented.\<close>

lemma stream_frames:
  assumes "send_all send ps s = Inr s'" and "list_all sendable ps"
  shows "\<exists>f. outp s' = outp s @ f
    \<and> (\<forall>r rest. in_step s r \<longrightarrow> inp r = f @ rest \<longrightarrow>
        (\<exists>r'. recv_n recv (length ps) r = Inr (map received ps, r') \<and> inp r' = rest \<and> in_step s' r'))"
  using assms
proof (induction ps arbitrary: s)
  case Nil
  then show ?case by (intro exI [of _ "[]"]) simp
next
  case (Cons p ps)
  from Cons.prems obtain s1 where s1: "send p s = Inr s1" "send_all send ps s1 = Inr s'"
    by (auto simp: bindR_Inr_iff)
  from Cons.prems(2) have ok: "sendable p" "list_all sendable ps" by simp_all
  from frame [OF s1(1) ok(1)] obtain f where f: "outp s1 = outp s @ f"
    "\<And>r rest. in_step s r \<Longrightarrow> inp r = f @ rest \<Longrightarrow>
       \<exists>r'. recv r = Inr (received p, r') \<and> inp r' = rest \<and> in_step s1 r'" by blast
  from Cons.IH [OF s1(2) ok(2)] obtain g where g: "outp s' = outp s1 @ g"
    "\<And>r rest. in_step s1 r \<Longrightarrow> inp r = g @ rest \<Longrightarrow>
       \<exists>r'. recv_n recv (length ps) r = Inr (map received ps, r') \<and> inp r' = rest \<and> in_step s' r'"
    by blast
  show ?case
  proof (intro exI [of _ "f @ g"] conjI allI impI)
    fix r rest
    assume "in_step s r" "inp r = (f @ g) @ rest"
    with f(2) [of r "g @ rest"] obtain r1 where r1: "recv r = Inr (received p, r1)"
      "inp r1 = g @ rest" "in_step s1 r1" by auto
    from g(2) [OF r1(3,2)] obtain r2 where "recv_n recv (length ps) r1 = Inr (map received ps, r2)"
      "inp r2 = rest" "in_step s' r2" by blast
    with r1(1) show "\<exists>r'. recv_n recv (length (p # ps)) r = Inr (map received (p # ps), r')
        \<and> inp r' = rest \<and> in_step s' r'" by simp
  qed (simp add: f(1) g(1))
qed

lemma stream_delivered_from:
  assumes "send_all send ps s = Inr s'" and "list_all sendable ps"
    and "in_step s r" and "inp r = drop (length (outp s)) (outp s') @ rest"
  shows "\<exists>r'. recv_n recv (length ps) r = Inr (map received ps, r') \<and> inp r' = rest \<and> in_step s' r'"
  using stream_frames [OF assms(1,2)] assms(3,4) by auto

lemma stream_delivered:
  assumes "send_all send ps s = Inr s'" and "list_all sendable ps"
    and "outp s = []" and "in_step s r" and "inp r = outp s' @ rest"
  shows "\<exists>r'. recv_n recv (length ps) r = Inr (map received ps, r') \<and> inp r' = rest \<and> in_step s' r'"
  using stream_frames [OF assms(1,2)] assms(3-5) by auto

end

end
