(* ===== verification/Regexes.thy ===== *)
theory Regexes
  imports GoLib
begin

section \<open>Regular expressions\<close>

text \<open>
  The part of the package \<open>regexp\<close> that the program uses: the syntax of an anchored expression, read into a
  tree, and the strings that the tree matches. A class is a list of ranges of characters; \<open>*\<close> and
  \<open>{m,n}\<close> apply to the last item of a sequence; a backslash takes away the meaning of the next character.
\<close>

datatype regex = Empty | Class "(char \<times> char) list" | Seq regex regex | Star regex | Rep nat nat regex

definition in_class :: "(char \<times> char) list \<Rightarrow> char \<Rightarrow> bool" where
  "in_class rs c \<longleftrightarrow> list_ex (\<lambda>(a, b). (of_char a :: nat) \<le> of_char c \<and> (of_char c :: nat) \<le> of_char b) rs"

primrec lang :: "regex \<Rightarrow> string set" where
  "lang Empty = {[]}"
| "lang (Class rs) = {[c] |c. in_class rs c}"
| "lang (Seq r s) = {u @ v |u v. u \<in> lang r \<and> v \<in> lang s}"
| "lang (Star r) = {concat ws |ws. set ws \<subseteq> lang r}"
| "lang (Rep m n r) = {concat ws |ws. set ws \<subseteq> lang r \<and> m \<le> length ws \<and> length ws \<le> n}"

subsection \<open>Reading an expression\<close>

definition backslash :: char where "backslash = CHR 0x5C"

text \<open>The rest of a class after the opening bracket: its ranges, and how many characters it takes.\<close>

fun read_class :: "string \<Rightarrow> ((char \<times> char) list \<times> nat) option" where
  "read_class [] = None"
| "read_class (c # cs) =
     (if c = CHR '']'' then Some ([], 1)
      else if c = backslash then
        (case cs of
           [] \<Rightarrow> None
         | e # ds \<Rightarrow> map_option (\<lambda>(rs, n). ((e, e) # rs, n + 2)) (read_class ds))
      else
        (case cs of
           d # e # ds \<Rightarrow>
             if d = CHR ''-'' \<and> e \<noteq> CHR '']''
             then map_option (\<lambda>(rs, n). ((c, e) # rs, n + 3)) (read_class ds)
             else map_option (\<lambda>(rs, n). ((c, c) # rs, n + 1)) (read_class cs)
         | _ \<Rightarrow> map_option (\<lambda>(rs, n). ((c, c) # rs, n + 1)) (read_class cs)))"

text \<open>The rest of \<open>{m,n}\<close> after the opening brace: the two numbers, and how many characters they take.\<close>

definition read_bounds :: "string \<Rightarrow> (nat \<times> nat \<times> nat) option" where
  "read_bounds cs =
     (let m = takeWhile is_digit cs;
          ds = drop (length m) cs;
          n = takeWhile is_digit (tl ds);
          es = drop (length n) (tl ds)
      in if m \<noteq> [] \<and> n \<noteq> [] \<and> take 1 ds = '','' \<and> take 1 es = ''}''
         then Some (digits_val m, digits_val n, length m + length n + 2) else None)"

text \<open>A sequence, of which the last item comes first in the list.\<close>

definition seq_of :: "regex list \<Rightarrow> regex" where
  "seq_of items = (case items of [] \<Rightarrow> Empty | r # rs \<Rightarrow> fold Seq rs r)"

text \<open>\<open>items\<close>: what has been read of the innermost group; \<open>outer\<close>: the same for the groups around it.\<close>

function read_regex :: "regex list \<Rightarrow> regex list list \<Rightarrow> string \<Rightarrow> regex option" where
  "read_regex items outer [] = (if outer = [] then Some (seq_of items) else None)"
| "read_regex items outer (c # cs) =
     (if c = CHR ''('' then read_regex [] (items # outer) cs
      else if c = CHR '')'' then
        (case outer of [] \<Rightarrow> None | up # outer \<Rightarrow> read_regex (seq_of items # up) outer cs)
      else if c = CHR ''*'' then
        (case items of [] \<Rightarrow> None | r # rs \<Rightarrow> read_regex (Star r # rs) outer cs)
      else if c = CHR ''{'' then
        (case (items, read_bounds cs) of
           (r # rs, Some (m, n, k)) \<Rightarrow> read_regex (Rep m n r # rs) outer (drop k cs)
         | _ \<Rightarrow> None)
      else if c = CHR ''['' then
        (case read_class cs of None \<Rightarrow> None | Some (rs, k) \<Rightarrow> read_regex (Class rs # items) outer (drop k cs))
      else if c = backslash then
        (case cs of [] \<Rightarrow> None | e # ds \<Rightarrow> read_regex (Class [(e, e)] # items) outer ds)
      else read_regex (Class [(c, c)] # items) outer cs)"
  by pat_completeness auto
termination
  by (relation "measure (\<lambda>(items, outer, s). length s)") auto

text \<open>\<open>regexp.MustCompile\<close> of an expression between \<open>^\<close> and \<open>$\<close>, and \<open>MatchString\<close> of what it gives: the whole string has to
  match. \<open>None\<close> is a panic, or an expression outside this part of the syntax.\<close>

definition MustCompile :: "string \<Rightarrow> regex option" where
  "MustCompile expr =
     (if length expr \<ge> 2 \<and> hd expr = CHR ''^'' \<and> last expr = CHR ''$''
      then read_regex [] [] (butlast (tl expr)) else None)"

definition MatchString :: "regex \<Rightarrow> string \<Rightarrow> bool" where
  "MatchString r s \<longleftrightarrow> s \<in> lang r"

subsection \<open>Facts\<close>

text \<open>A repetition of a class is a string of limited length with all its characters in the class.\<close>

lemma concat_singles: "set ws \<subseteq> {[c] |c. P c} \<Longrightarrow> length (concat ws) = length ws \<and> list_all P (concat ws)"
  by (induction ws) auto

lemma lang_Rep_Class: "lang (Rep 0 n (Class rs)) = {s. list_all (in_class rs) s \<and> length s \<le> n}"
proof (intro set_eqI iffI)
  fix s
  assume "s \<in> lang (Rep 0 n (Class rs))"
  then obtain ws where "s = concat ws" "set ws \<subseteq> {[c] |c. in_class rs c}" "length ws \<le> n" by auto
  with concat_singles show "s \<in> {s. list_all (in_class rs) s \<and> length s \<le> n}" by fastforce
next
  fix s
  assume "s \<in> {s. list_all (in_class rs) s \<and> length s \<le> n}"
  then have "s = concat (map (\<lambda>c. [c]) s)" "set (map (\<lambda>c. [c]) s) \<subseteq> {[c] |c. in_class rs c}" "length (map (\<lambda>c. [c]) s) \<le> n"
    by (auto simp: list_all_iff)
  then show "s \<in> lang (Rep 0 n (Class rs))" unfolding lang.simps by blast
qed

lemma Star_lang_Nil: "[] \<in> lang (Star r)"
  by (auto intro: exI [of _ "[]"])

lemma Star_lang_append: "u \<in> lang r \<Longrightarrow> v \<in> lang (Star r) \<Longrightarrow> u @ v \<in> lang (Star r)"
proof -
  assume u: "u \<in> lang r" and "v \<in> lang (Star r)"
  then obtain ws where "v = concat ws" "set ws \<subseteq> lang r" by auto
  with u have "u @ v = concat (u # ws)" "set (u # ws) \<subseteq> lang r" by simp_all
  then show "u @ v \<in> lang (Star r)" unfolding lang.simps by blast
qed

end
