(* ===== verification/Endpoints.thy ===== *)
theory Endpoints
  imports Regexes
begin

section \<open>Endpoints\<close>

text \<open>
  \<open>endpoint.go\<close> and \<open>parseSpecial\<close> of \<open>util.go\<close>. The hostname regular expression
  \<open>^([0-9A-Za-z][0-9A-Za-z\-]{0,62}\.)*[0-9A-Za-z][0-9A-Za-z\-]{0,62}$\<close> is the literal
  \<open>hostname_expr\<close>; \<open>hostnameRegex\<close> is an executable matcher for it.
\<close>

record Endpoint =
  IP :: string
  Port :: string

subsection \<open>The hostname expression\<close>

definition is_alnum :: "char \<Rightarrow> bool" where
  "is_alnum c \<longleftrightarrow> is_digit c \<or> 65 \<le> (of_char c :: nat) \<and> (of_char c :: nat) \<le> 90
     \<or> 97 \<le> (of_char c :: nat) \<and> (of_char c :: nat) \<le> 122"

definition is_label :: "string \<Rightarrow> bool" where
  "is_label l \<longleftrightarrow> l \<noteq> [] \<and> is_alnum (hd l) \<and> list_all (\<lambda>c. is_alnum c \<or> c = CHR ''-'') (tl l)
     \<and> length (tl l) \<le> 62"

text \<open>The literal of the source.\<close>

definition hostname_expr :: string where
  "hostname_expr = ''^([0-9A-Za-z][0-9A-Za-z'' @ [backslash] @ ''-]{0,62}'' @ [backslash]
     @ ''.)*[0-9A-Za-z][0-9A-Za-z'' @ [backslash] @ ''-]{0,62}$''"

text \<open>Dot-separated labels, as a step between the two.\<close>

inductive hostname_lang :: "string \<Rightarrow> bool" where
  required_label: "is_label l \<Longrightarrow> hostname_lang l"
| optional_label: "is_label l \<Longrightarrow> hostname_lang s \<Longrightarrow> hostname_lang (l @ CHR ''.'' # s)"

definition hostnameRegex :: "string \<Rightarrow> bool" where
  "hostnameRegex s \<longleftrightarrow> list_all is_label (Split CHR ''.'' s)"

subsection \<open>Operations\<close>

definition Endpoint_String :: "Endpoint \<Rightarrow> string" where
  "Endpoint_String ep = IP ep @ '':'' @ Port ep"

definition Endpoint_Valid :: "Endpoint \<Rightarrow> bool" where
  "Endpoint_Valid ep =
     (if IP ep = [] \<or> Port ep = [] \<or> length (IP ep) > 253 then False
      else if Atoi (Port ep) = None \<or> Atoi (Port ep) = Some 0 then False
      else if ParseIP (IP ep) = None then hostnameRegex (IP ep)
      else True)"

definition NewEndpoint :: "string \<Rightarrow> string \<Rightarrow> conn_error + Endpoint" where
  "NewEndpoint ip port =
     (let ep = \<lparr>IP = ip, Port = port\<rparr>
      in if \<not> Endpoint_Valid ep then Inl ErrInvalidEndpoint else Inr ep)"

definition ParseEndpoint :: "string \<Rightarrow> conn_error + Endpoint" where
  "ParseEndpoint s =
     (case SplitHostPort s of
        None \<Rightarrow> Inl ErrAddress
      | Some (ip, port) \<Rightarrow>
          (case Atoi port of
             None \<Rightarrow> Inl ErrParsePort
           | Some p \<Rightarrow> if p < 1 \<or> p > 65535 then Inl ErrPortRange else NewEndpoint ip port))"

definition Endpoint_Equal :: "Endpoint \<Rightarrow> Endpoint \<Rightarrow> bool" where
  "Endpoint_Equal ep u \<longleftrightarrow> IP ep = IP u \<and> Port ep = Port u"

primrec parse_items :: "string list \<Rightarrow> Endpoint list \<Rightarrow> conn_error + Endpoint list" where
  "parse_items [] eps = Inr eps"
| "parse_items (item # items) eps =
     bindR (ParseEndpoint (TrimSpace item)) (\<lambda>ep. parse_items items (eps @ [ep]))"

definition parseSpecial :: "string \<Rightarrow> conn_error + Endpoint list" where
  "parseSpecial raw = parse_items (Split CHR '','' raw) []"

subsection \<open>Facts\<close>

lemma Endpoint_Equal_iff [simp]: "Endpoint_Equal a b \<longleftrightarrow> a = b"
  by (cases a; cases b) (simp add: Endpoint_Equal_def)

lemma Split_not_Nil [simp]: "Split c s \<noteq> []"
  by (induction s) (auto split: list.splits)

lemma Split_no_sep: "c \<notin> set s \<Longrightarrow> Split c s = [s]"
  by (induction s) auto

lemma Split_append_sep: "c \<notin> set l \<Longrightarrow> Split c (l @ c # s) = l # Split c s"
  by (induction l) (auto split: list.splits)

lemma is_label_no_dot: "is_label l \<Longrightarrow> CHR ''.'' \<notin> set l"
  by (cases l) (auto simp: is_label_def is_alnum_def is_digit_def list_all_iff)

lemma hostname_lang_regex: "hostname_lang s \<Longrightarrow> hostnameRegex s"
  by (induction rule: hostname_lang.induct)
    (simp_all add: hostnameRegex_def Split_no_sep Split_append_sep is_label_no_dot)

lemma Split_cases:
  obtains "c \<notin> set s" "Split c s = [s]"
  | l t where "s = l @ c # t" "c \<notin> set l" "Split c s = l # Split c t"
proof (cases "c \<in> set s")
  case True
  from split_list_first [OF this] obtain l t where "s = l @ c # t" "c \<notin> set l" by blast
  then show ?thesis using that(2) by (simp add: Split_append_sep)
qed (use that(1) Split_no_sep in blast)

lemma hostname_regex_lang: "hostnameRegex s \<Longrightarrow> hostname_lang s"
proof (induction "length s" arbitrary: s rule: less_induct)
  case less
  show ?case
  proof (cases rule: Split_cases [of "CHR ''.''" s])
    case 1
    with less.prems show ?thesis by (simp add: hostnameRegex_def required_label)
  next
    case (2 l t)
    with less.prems have "is_label l" "hostnameRegex t" by (simp_all add: hostnameRegex_def)
    with less.hyps [of t] 2 show ?thesis by (simp add: optional_label)
  qed
qed

lemma last_index_append:
  "c \<notin> set t \<Longrightarrow> last_index_of c (s @ c # t) = Some (length s)"
proof -
  assume "c \<notin> set t"
  then have "last_index_of c t = None" by (induction t) auto
  then show ?thesis by (induction s) auto
qed

lemma Atoi_chars:
  assumes "Atoi s = Some n" and "c \<in> set s"
  shows "is_digit c \<or> c = CHR ''-'' \<or> c = CHR ''+''"
proof (cases s)
  case Nil
  with assms(2) show ?thesis by simp
next
  case (Cons a t)
  with assms show ?thesis
    by (auto simp: Atoi_def Let_def list_all_iff split: if_splits)
qed

lemma Atoi_no_sep:
  assumes "Atoi s = Some n"
  shows "CHR '':'' \<notin> set s \<and> CHR ''['' \<notin> set s \<and> CHR '']'' \<notin> set s"
  using Atoi_chars [OF assms, of "CHR '':''"] Atoi_chars [OF assms, of "CHR ''[''"]
    Atoi_chars [OF assms, of "CHR '']''"]
  by (auto simp: is_digit_def)

lemma Valid_portD: "Endpoint_Valid ep \<Longrightarrow> \<exists>n. Atoi (Port ep) = Some n"
  by (auto simp: Endpoint_Valid_def split: if_splits)

lemma scan_num_digits:
  "scan_num dec_val b n i s = Some (v, k) \<Longrightarrow> i \<le> k \<and> list_all is_digit (take (k - i) s)"
proof (induction s arbitrary: n i)
  case Nil
  then show ?case by (simp split: if_splits)
next
  case (Cons c s)
  show ?case
  proof (cases "dec_val c")
    case None
    with Cons.prems show ?thesis by (simp split: if_splits)
  next
    case (Some w)
    with Cons.prems have "scan_num dec_val b (n * b + w) (Suc i) s = Some (v, k)"
      by (simp split: if_splits)
    from Cons.IH [OF this] Some have "Suc i \<le> k" "list_all is_digit (take (k - Suc i) s)" "is_digit c"
      by (auto simp: dec_val_def split: if_splits)
    moreover from this have "k - i = Suc (k - Suc i)" by simp
    ultimately show ?thesis by simp
  qed
qed

lemma parse_octets_chars:
  "parse_octets n f s = Some ip \<Longrightarrow> c \<in> set s \<Longrightarrow> is_digit c \<or> c = CHR ''.''"
proof (induction n f s arbitrary: ip rule: parse_octets.induct)
  case (1 f s)
  then show ?case by (simp split: if_splits)
next
  case (2 n f s)
  define s' where "s' = (if f then s else tl s)"
  from "2.prems"(1) obtain v k rest where ne: "s \<noteq> []" and dot: "\<not> f \<Longrightarrow> hd s = CHR ''.''"
    and d: "dtoi s' = Some (v, k)" and v: "\<not> 255 < v" and r: "parse_octets n False (drop k s') = Some rest"
    by (auto simp: s'_def Let_def split: if_splits option.splits)
  from d have dig: "list_all is_digit (take k s')"
    using scan_num_digits [of 10 0 0 s' v k] by (simp add: dtoi_def)
  have "set s \<subseteq> insert CHR ''.'' (set s')"
    using ne dot by (cases s) (auto simp: s'_def)
  with "2.prems"(2) have "c = CHR ''.'' \<or> c \<in> set (take k s') \<union> set (drop k s')"
    by (metis UnCI append_take_drop_id insertE set_append subsetD)
  moreover have "is_digit c \<or> c = CHR ''.''" if "c \<in> set (drop k s')"
    using "2.IH" ne dot d v r that unfolding s'_def by (cases f) auto
  ultimately show ?case using dig by (auto simp: list_all_iff)
qed

lemma label_chars: "is_label l \<Longrightarrow> c \<in> set l \<Longrightarrow> is_alnum c \<or> c = CHR ''-''"
  by (cases l) (auto simp: is_label_def list_all_iff)

lemma hostname_chars: "hostname_lang s \<Longrightarrow> c \<in> set s \<Longrightarrow> is_alnum c \<or> c = CHR ''-'' \<or> c = CHR ''.''"
  by (induction rule: hostname_lang.induct) (auto dest: label_chars)

lemma SplitHostPort_String:
  assumes "CHR '':'' \<notin> set ip" and "CHR ''['' \<notin> set ip" and "CHR '']'' \<notin> set ip"
    and "Atoi port = Some n"
  shows "SplitHostPort (ip @ CHR '':'' # port) = Some (ip, port)"
proof -
  have "last_index_of CHR '':'' (ip @ CHR '':'' # port) = Some (length ip)"
    using Atoi_no_sep [OF assms(4)] by (intro last_index_append) simp
  moreover have "hd (ip @ CHR '':'' # port) \<noteq> CHR ''[''"
    using assms(2) by (cases ip) auto
  ultimately show ?thesis
    using assms Atoi_no_sep [OF assms(4)] by (simp add: SplitHostPort_def)
qed

text \<open>A valid endpoint whose address has no colon is a dotted IPv4 address or a hostname.\<close>

lemma Valid_chars:
  assumes "Endpoint_Valid ep" and "CHR '':'' \<notin> set (IP ep)" and "c \<in> set (IP ep)"
  shows "is_alnum c \<or> c = CHR ''-'' \<or> c = CHR ''.''"
proof (cases "ParseIP (IP ep)")
  case None
  with assms(1) have "hostname_lang (IP ep)"
    by (auto simp: Endpoint_Valid_def hostname_regex_lang split: if_splits)
  then show ?thesis using assms(3) by (rule hostname_chars)
next
  case (Some ip)
  then obtain k where k: "find (\<lambda>c. c = CHR ''.'' \<or> c = CHR '':'') (IP ep) = Some k"
    by (auto simp: ParseIP_def split: option.splits)
  then have "k \<in> set (IP ep)" "k = CHR ''.'' \<or> k = CHR '':''"
    by (auto simp: find_Some_iff in_set_conv_nth)
  with assms(2) have "k = CHR ''.''" by auto
  with Some k have "\<exists>ip4. parse_octets 4 True (IP ep) = Some ip4"
    by (auto simp: ParseIP_def parseIPv4_def)
  with assms(3) show ?thesis
    by (auto simp: is_alnum_def dest!: parse_octets_chars)
qed

lemma Valid_no_brackets:
  assumes "Endpoint_Valid ep" and "CHR '':'' \<notin> set (IP ep)"
  shows "CHR ''['' \<notin> set (IP ep) \<and> CHR '']'' \<notin> set (IP ep)"
  using Valid_chars [OF assms, of "CHR ''[''"] Valid_chars [OF assms, of "CHR '']''"]
  by (auto simp: is_alnum_def is_digit_def)

lemma xtoi_bracket: "s \<noteq> [] \<Longrightarrow> hd s = CHR ''['' \<Longrightarrow> xtoi s = None \<and> dtoi s = None"
  by (cases s) (simp_all add: xtoi_def dtoi_def hex_val_def dec_val_def is_digit_def)

lemma Valid_hd: "Endpoint_Valid ep \<Longrightarrow> hd (IP ep) \<noteq> CHR ''[''"
proof
  assume v: "Endpoint_Valid ep" and h: "hd (IP ep) = CHR ''[''"
  from v have ne: "IP ep \<noteq> []" by (auto simp: Endpoint_Valid_def)
  then obtain t where t: "IP ep = CHR ''['' # t" using h by (cases "IP ep") auto
  have "parseIPv4 (IP ep) = None"
    using xtoi_bracket [OF ne h] ne by (simp add: parseIPv4_def numeral_eq_Suc)
  moreover have "parse_groups [] None (IP ep) = None"
    using xtoi_bracket [OF ne h] by (subst parse_groups.simps) simp
  then have "parseIPv6 (IP ep) = None"
    using t by (simp add: parseIPv6_def)
  ultimately have "ParseIP (IP ep) = None"
    by (simp add: ParseIP_def split: option.splits)
  with v have "hostname_lang (IP ep)"
    by (auto simp: Endpoint_Valid_def hostname_regex_lang split: if_splits)
  from hostname_chars [OF this, of "CHR ''[''"] t show False
    by (auto simp: is_alnum_def is_digit_def)
qed

lemma Endpoint_String_inj:
  assumes "Endpoint_Valid a" and "Endpoint_Valid b" and "Endpoint_String a = Endpoint_String b"
  shows "a = b"
proof -
  obtain n m where "Atoi (Port a) = Some n" "Atoi (Port b) = Some m"
    using assms(1,2) Valid_portD by meson
  then have "CHR '':'' \<notin> set (Port a)" "CHR '':'' \<notin> set (Port b)"
    using Atoi_no_sep by blast+
  then have "last_index_of CHR '':'' (Endpoint_String a) = Some (length (IP a))"
    "last_index_of CHR '':'' (Endpoint_String b) = Some (length (IP b))"
    by (simp_all add: Endpoint_String_def last_index_append)
  with assms(3) have "length (IP a) = length (IP b)" by simp
  with assms(3) show ?thesis by (cases a; cases b) (simp add: Endpoint_String_def)
qed

subsection \<open>Properties\<close>

text \<open>The tree of the expression, and the language of its parts.\<close>

definition alnum_class :: regex where
  "alnum_class = Class [(CHR ''0'', CHR ''9''), (CHR ''A'', CHR ''Z''), (CHR ''a'', CHR ''z'')]"

definition label_regex :: regex where
  "label_regex = Rep 0 62 (Class [(CHR ''0'', CHR ''9''), (CHR ''A'', CHR ''Z''), (CHR ''a'', CHR ''z''), (CHR ''-'', CHR ''-'')])"

lemma hostname_compiles:
  "MustCompile hostname_expr = Some (Seq (Star (Seq alnum_class (Seq label_regex (Class [(CHR ''.'', CHR ''.'')]))))
     (Seq alnum_class label_regex))"
  by code_simp

lemma lang_label: "u \<in> lang alnum_class \<Longrightarrow> v \<in> lang label_regex \<Longrightarrow> is_label (u @ v)"
  "is_label l \<Longrightarrow> \<exists>u v. l = u @ v \<and> u \<in> lang alnum_class \<and> v \<in> lang label_regex"
proof -
  have a: "in_class [(CHR ''0'', CHR ''9''), (CHR ''A'', CHR ''Z''), (CHR ''a'', CHR ''z'')] = is_alnum"
    by (auto simp: in_class_def is_alnum_def is_digit_def fun_eq_iff)
  have b: "in_class [(CHR ''0'', CHR ''9''), (CHR ''A'', CHR ''Z''), (CHR ''a'', CHR ''z''), (CHR ''-'', CHR ''-'')]
      = (\<lambda>c. is_alnum c \<or> c = CHR ''-'')"
  proof
    fix c
    have "(of_char c :: nat) = 45 \<longleftrightarrow> c = CHR ''-''" using of_char_eq_iff [where 'a = nat, of c "CHR ''-''"] by simp
    then show "in_class [(CHR ''0'', CHR ''9''), (CHR ''A'', CHR ''Z''), (CHR ''a'', CHR ''z''), (CHR ''-'', CHR ''-'')] c
      = (is_alnum c \<or> c = CHR ''-'')" by (auto simp: in_class_def is_alnum_def is_digit_def)
  qed
  have l: "lang label_regex = {s. list_all (\<lambda>c. is_alnum c \<or> c = CHR ''-'') s \<and> length s \<le> 62}"
    unfolding label_regex_def lang_Rep_Class b by simp
  have s: "lang alnum_class = {[c] |c. is_alnum c}" by (simp add: alnum_class_def a)
  show "u \<in> lang alnum_class \<Longrightarrow> v \<in> lang label_regex \<Longrightarrow> is_label (u @ v)" by (auto simp: l s is_label_def)
  show "\<exists>u v. l = u @ v \<and> u \<in> lang alnum_class \<and> v \<in> lang label_regex" if "is_label l"
    using that by (intro exI [of _ "[hd l]"] exI [of _ "tl l"]) (auto simp: l s is_label_def)
qed

abbreviation dotted_regex :: regex where
  "dotted_regex \<equiv> Seq alnum_class (Seq label_regex (Class [(CHR ''.'', CHR ''.'')]))"

lemma lang_dotted: "w \<in> lang dotted_regex \<longleftrightarrow> (\<exists>l. is_label l \<and> w = l @ ''.'')"
proof -
  have "in_class [(CHR ''.'', CHR ''.'')] c \<longleftrightarrow> c = CHR ''.''" for c
    using of_char_eq_iff [where 'a = nat, of c "CHR ''.''"] by (auto simp: in_class_def)
  then have "w \<in> lang dotted_regex \<longleftrightarrow> (\<exists>u v. w = (u @ v) @ ''.'' \<and> u \<in> lang alnum_class \<and> v \<in> lang label_regex)" by auto
  with lang_label show ?thesis by metis
qed

lemma lang_host: "s \<in> lang (Seq (Star dotted_regex) (Seq alnum_class label_regex)) \<longleftrightarrow> hostname_lang s"
proof
  have last: "l \<in> lang (Seq alnum_class label_regex) \<longleftrightarrow> is_label l" for l
    using lang_label by (auto simp del: append_assoc)
  show "hostname_lang s" if "s \<in> lang (Seq (Star dotted_regex) (Seq alnum_class label_regex))"
  proof -
    from that obtain ws l where s: "s = concat ws @ l" and ws: "set ws \<subseteq> lang dotted_regex" and l: "is_label l"
      unfolding lang.simps(3) [of "Star dotted_regex"] lang.simps(4) using last by blast
    have "hostname_lang (concat ws @ l)" using ws
    proof (induction ws)
      case (Cons w ws)
      then obtain k where "is_label k" "w = k @ ''.''" using lang_dotted [of w] by auto
      with Cons optional_label [of k "concat ws @ l"] show ?case by simp
    qed (simp add: l required_label)
    with s show ?thesis by simp
  qed
  show "s \<in> lang (Seq (Star dotted_regex) (Seq alnum_class label_regex))" if "hostname_lang s"
    using that
  proof (induction rule: hostname_lang.induct)
    case (required_label l)
    with last [of l] Star_lang_Nil [of dotted_regex] show ?case
      unfolding lang.simps(3) [of "Star dotted_regex"] using append_Nil by blast
  next
    case (optional_label l s)
    then obtain u v where s: "s = u @ v" "u \<in> lang (Star dotted_regex)" "v \<in> lang (Seq alnum_class label_regex)"
      unfolding lang.simps(3) [of "Star dotted_regex"] by blast
    have "(l @ ''.'') @ u \<in> lang (Star dotted_regex)"
      using optional_label.hyps(1) s(2) lang_dotted [of "l @ ''.''"] by (intro Star_lang_append) auto
    moreover have "l @ CHR ''.'' # s = ((l @ ''.'') @ u) @ v" using s(1) by simp
    ultimately show ?case unfolding lang.simps(3) [of "Star dotted_regex"] using s(3) by blast
  qed
qed

text \<open>C33: the executable hostname test is the regular expression of the source: the literal of \<open>endpoint.go\<close>, read by
  the rules of regular expressions, is accepted, and the strings it matches are exactly those that the test accepts.\<close>

theorem hostnameRegex_correct:
  "\<exists>r. MustCompile hostname_expr = Some r \<and> (\<forall>s. hostnameRegex s \<longleftrightarrow> MatchString r s)"
  using hostname_compiles hostname_lang_regex hostname_regex_lang lang_host by (auto simp: MatchString_def)

text \<open>An endpoint parsed from "ip:port" is valid, its port is a number between 1 and 65535, and
  its two parts are the ones the host/port split gives.\<close>

theorem ParseEndpoint_sound:
  assumes "ParseEndpoint s = Inr ep"
  shows "Endpoint_Valid ep \<and> SplitHostPort s = Some (IP ep, Port ep)
    \<and> (\<exists>p. Atoi (Port ep) = Some p \<and> 1 \<le> p \<and> p \<le> 65535)"
  using assms
  by (auto simp: ParseEndpoint_def NewEndpoint_def Let_def split: option.splits if_splits)

theorem ParseEndpoint_sound_witness:
  "ParseEndpoint ''127.0.0.1:8088'' = Inr \<lparr>IP = ''127.0.0.1'', Port = ''8088''\<rparr>
    \<and> Endpoint_Valid \<lparr>IP = ''127.0.0.1'', Port = ''8088''\<rparr>"
proof -
  have "SplitHostPort ''127.0.0.1:8088'' = Some (''127.0.0.1'', ''8088'')"
    by (simp add: SplitHostPort_def)
  moreover have "Atoi ''8088'' = Some 8088"
    by (simp add: Atoi_def digits_val_def digit_val_def is_digit_def)
  moreover have "dtoi ''127.0.0.1'' = Some (127, 3)" "dtoi ''0.0.1'' = Some (0, 1)"
    "dtoi ''0.1'' = Some (0, 1)" "dtoi ''1'' = Some (1, 1)"
    by (simp_all add: dtoi_def dec_val_def is_digit_def digit_val_def)
  then have "ParseIP ''127.0.0.1'' \<noteq> None"
    by (simp add: ParseIP_def parseIPv4_def eval_nat_numeral)
  ultimately have "ParseEndpoint ''127.0.0.1:8088'' = Inr \<lparr>IP = ''127.0.0.1'', Port = ''8088''\<rparr>"
    by (auto simp: ParseEndpoint_def NewEndpoint_def Endpoint_Valid_def Let_def)
  with ParseEndpoint_sound [OF this] show ?thesis by blast
qed

text \<open>C32: printing a valid endpoint and parsing the result gives the endpoint back, for every address
  without a colon (hostnames and IPv4 addresses) and every port in the TCP range.\<close>

theorem ParseEndpoint_String:
  assumes "Endpoint_Valid ep" and "CHR '':'' \<notin> set (IP ep)"
    and "Atoi (Port ep) = Some p" and "1 \<le> p" and "p \<le> 65535"
  shows "ParseEndpoint (Endpoint_String ep) = Inr ep"
proof -
  have "SplitHostPort (Endpoint_String ep) = Some (IP ep, Port ep)"
    using SplitHostPort_String [of "IP ep" "Port ep" p] Valid_no_brackets [OF assms(1,2)] assms
    by (simp add: Endpoint_String_def)
  with assms show ?thesis by (cases ep) (simp add: ParseEndpoint_def NewEndpoint_def)
qed

theorem ParseEndpoint_String_witness:
  "ParseEndpoint (Endpoint_String \<lparr>IP = ''node.factom'', Port = ''8108''\<rparr>)
    = Inr \<lparr>IP = ''node.factom'', Port = ''8108''\<rparr>"
proof (rule ParseEndpoint_String)
  show "Endpoint_Valid \<lparr>IP = ''node.factom'', Port = ''8108''\<rparr>" by code_simp
  show "Atoi (Port \<lparr>IP = ''node.factom'', Port = ''8108''\<rparr>) = Some 8108" by code_simp
qed simp_all

text \<open>An endpoint with an IPv6 address (an address that contains a colon) does not survive
  printing: \<open>String\<close> puts no brackets around the address, so the printed form cannot be split into
  host and port again. The dialer hands exactly this string to the operating system.\<close>

theorem ipv6_String_unparseable:
  assumes "Endpoint_Valid ep" and "CHR '':'' \<in> set (IP ep)"
  shows "ParseEndpoint (Endpoint_String ep) = Inl ErrAddress"
proof -
  obtain n where "Atoi (Port ep) = Some n" using Valid_portD [OF assms(1)] ..
  then have "last_index_of CHR '':'' (Endpoint_String ep) = Some (length (IP ep))"
    using Atoi_no_sep by (auto simp: Endpoint_String_def intro!: last_index_append)
  moreover have "hd (Endpoint_String ep) \<noteq> CHR ''[''"
    using Valid_hd [OF assms(1)] assms(2) by (cases "IP ep") (auto simp: Endpoint_String_def)
  ultimately have "SplitHostPort (Endpoint_String ep) = None"
    using assms(2) by (simp add: SplitHostPort_def Endpoint_String_def)
  then show ?thesis by (simp add: ParseEndpoint_def)
qed

theorem ipv6_String_unparseable_witness:
  "ParseEndpoint (Endpoint_String \<lparr>IP = ''::1'', Port = ''8108''\<rparr>) = Inl ErrAddress"
proof (rule ipv6_String_unparseable)
  have "xtoi ''1'' = Some (1, 1)" by (simp add: xtoi_def hex_val_def)
  then have "ParseIP ''::1'' \<noteq> None"
    by (simp add: ParseIP_def parseIPv6_def parse_groups.simps)
  moreover have "Atoi ''8108'' = Some 8108"
    by (simp add: Atoi_def digits_val_def digit_val_def is_digit_def)
  ultimately show "Endpoint_Valid \<lparr>IP = ''::1'', Port = ''8108''\<rparr>"
    by (auto simp: Endpoint_Valid_def)
qed simp

end
