(* ===== verification/Config.thy ===== *)
theory Config
  imports Parcels Endpoints
begin

section \<open>Configuration\<close>

text \<open>
  \<open>configuration.go\<close>: the configuration record with all its fields, the defaults, \<open>Sanitize\<close> and
  \<open>Check\<close>. Go's \<open>uint\<close> is a 64-bit word.
\<close>

type_synonym uint = "64 word"

definition Broadcast :: string where "Broadcast = ''<BROADCAST>''"
definition FullBroadcast :: string where "FullBroadcast = ''<FULLBORADCAST>''"
definition RandomPeer :: string where "RandomPeer = ''<RANDOMPEER>''"

record Configuration =
  cf_Network :: NetworkID
  cf_NodeID :: "32 word"
  cf_NodeName :: string
  cf_PeerRequestInterval :: duration
  cf_PeerReseedInterval :: duration
  cf_PeerIPLimitIncoming :: uint
  cf_PeerIPLimitOutgoing :: uint
  cf_Special :: string
  cf_PeerCacheFile :: string
  cf_PeerCacheAge :: duration
  cf_PeerShareAmount :: uint
  cf_PeerShareTimeout :: duration
  cf_RoundTime :: duration
  cf_TargetPeers :: uint
  cf_MaxPeers :: uint
  cf_DropTo :: uint
  cf_MinReseed :: uint
  cf_MaxIncoming :: uint
  cf_Fanout :: uint
  cf_SeedURL :: string
  cf_BindIP :: string
  cf_ListenPort :: string
  cf_ListenLimit :: duration
  cf_PingInterval :: duration
  cf_RedialInterval :: duration
  cf_ManualBan :: duration
  cf_HandshakeTimeout :: duration
  cf_DialTimeout :: duration
  cf_ReadDeadline :: duration
  cf_WriteDeadline :: duration
  cf_ProtocolVersion :: "16 word"
  cf_ProtocolVersionMinimum :: "16 word"
  cf_ChannelCapacity :: uint
  cf_EnablePrometheus :: bool
  cf_PeerResendFilter :: bool
  cf_PeerResendBuckets :: int
  cf_PeerResendInterval :: duration

definition DefaultP2PConfiguration :: Configuration where
  "DefaultP2PConfiguration = \<lparr>
     cf_Network = MainNet, cf_NodeID = 0, cf_NodeName = ''FNode0'',
     cf_PeerRequestInterval = Second * 5, cf_PeerReseedInterval = Hour * 4,
     cf_PeerIPLimitIncoming = 0, cf_PeerIPLimitOutgoing = 0, cf_Special = [],
     cf_PeerCacheFile = [], cf_PeerCacheAge = Hour,
     cf_PeerShareAmount = 3, cf_PeerShareTimeout = Second * 5,
     cf_RoundTime = Minute * 15, cf_TargetPeers = 32, cf_MaxPeers = 36, cf_DropTo = 30,
     cf_MinReseed = 10, cf_MaxIncoming = 36, cf_Fanout = 8, cf_SeedURL = [],
     cf_BindIP = [], cf_ListenPort = ''8108'', cf_ListenLimit = Second,
     cf_PingInterval = Second * 15, cf_RedialInterval = Minute * 2,
     cf_ManualBan = Hour * 24 * 7, cf_HandshakeTimeout = Second * 5, cf_DialTimeout = Second * 5,
     cf_ReadDeadline = Minute * 5, cf_WriteDeadline = Minute * 5,
     cf_ProtocolVersion = 10, cf_ProtocolVersionMinimum = 9, cf_ChannelCapacity = 1000,
     cf_EnablePrometheus = True, cf_PeerResendFilter = True, cf_PeerResendBuckets = 3,
     cf_PeerResendInterval = Second * 20\<rparr>"

definition Sanitize :: "Configuration \<Rightarrow> Configuration" where
  "Sanitize c =
     (let c = (if cf_MaxIncoming c > cf_MaxPeers c then c\<lparr>cf_MaxIncoming := cf_MaxPeers c\<rparr> else c)
      in if cf_DropTo c > cf_MaxPeers c then c\<lparr>cf_DropTo := cf_MaxPeers c\<rparr> else c)"

definition Check :: "Configuration \<Rightarrow> conf_error + unit" where
  "Check c = first_error
     [(cf_ListenPort c = [], ErrListenPortEmpty),
      (Atoi (cf_ListenPort c) = None, ErrListenPortNumber),
      (cf_PeerShareAmount c = 0, ErrPeerShareAmount),
      (cf_RoundTime c = 0, ErrRoundTime),
      (cf_TargetPeers c = 0, ErrTargetPeers),
      (cf_Fanout c = 0, ErrFanout),
      (cf_HandshakeTimeout c = 0, ErrHandshakeTimeout),
      (cf_DialTimeout c = 0, ErrDialTimeout),
      (cf_ReadDeadline c = 0, ErrReadDeadline),
      (cf_WriteDeadline c = 0, ErrWriteDeadline),
      (cf_ProtocolVersion c < 9 \<or> cf_ProtocolVersion c > 11, ErrProtocolVersion),
      (cf_ProtocolVersionMinimum c > 11, ErrProtocolVersionMinimum),
      (cf_ChannelCapacity c = 0, ErrChannelCapacity),
      (cf_PeerShareTimeout c = 0, ErrPeerShareTimeout),
      (cf_Special c \<noteq> [] \<and> \<not> is_ok (parseSpecial (cf_Special c)), ErrSpecial)]"

subsection \<open>Properties\<close>

lemma Check_ok_iff:
  "Check c = Inr () \<longleftrightarrow> cf_ListenPort c \<noteq> [] \<and> Atoi (cf_ListenPort c) \<noteq> None \<and> cf_PeerShareAmount c \<noteq> 0
     \<and> cf_RoundTime c \<noteq> 0 \<and> cf_TargetPeers c \<noteq> 0 \<and> cf_Fanout c \<noteq> 0 \<and> cf_HandshakeTimeout c \<noteq> 0
     \<and> cf_DialTimeout c \<noteq> 0 \<and> cf_ReadDeadline c \<noteq> 0 \<and> cf_WriteDeadline c \<noteq> 0
     \<and> 9 \<le> cf_ProtocolVersion c \<and> cf_ProtocolVersion c \<le> 11 \<and> cf_ProtocolVersionMinimum c \<le> 11
     \<and> cf_ChannelCapacity c \<noteq> 0 \<and> cf_PeerShareTimeout c \<noteq> 0
     \<and> (cf_Special c = [] \<or> is_ok (parseSpecial (cf_Special c)))"
  unfolding Check_def first_error_ok_iff by (simp add: not_less)

lemma Check_default: "Check DefaultP2PConfiguration = Inr ()"
proof -
  have "Atoi ''8108'' = Some 8108"
    by (simp add: Atoi_def digits_val_def digit_val_def is_digit_def)
  then show ?thesis
    by (simp add: Check_def DefaultP2PConfiguration_def duration_defs)
qed

text \<open>\<open>Sanitize\<close> establishes the two bounds the controller relies on, is idempotent, lowers the two
  fields it may touch and never raises them, and changes no other field.\<close>

theorem Sanitize_correct:
  "cf_MaxIncoming (Sanitize c) = min (cf_MaxIncoming c) (cf_MaxPeers c)
   \<and> cf_DropTo (Sanitize c) = min (cf_DropTo c) (cf_MaxPeers c)
   \<and> Sanitize (Sanitize c) = Sanitize c
   \<and> Sanitize c = c\<lparr>cf_MaxIncoming := cf_MaxIncoming (Sanitize c), cf_DropTo := cf_DropTo (Sanitize c)\<rparr>"
  by (simp add: Sanitize_def min_def linorder_not_less [symmetric])

end
