(* ===== verification/Handshakes.thy ===== *)
theory Handshakes
  imports Config
begin

section \<open>Handshakes\<close>

text \<open>\<open>handshake.go\<close>: the protocol-independent handshake, its construction and its validation.\<close>

record Handshake =
  hs_Network :: NetworkID
  hs_Version :: "16 word"
  hs_Type :: ParcelType
  hs_NodeID :: "32 word"
  hs_ListenPort :: string
  hs_Loopback :: "64 word"
  hs_Alternatives :: "Endpoint list"

text \<open>\<open>new(Handshake)\<close>.\<close>

definition zero_Handshake :: Handshake where
  "zero_Handshake = \<lparr>hs_Network = 0, hs_Version = 0, hs_Type = 0, hs_NodeID = 0, hs_ListenPort = [],
     hs_Loopback = 0, hs_Alternatives = []\<rparr>"

definition Handshake_Valid :: "Configuration \<Rightarrow> Handshake \<Rightarrow> handshake_error + unit" where
  "Handshake_Valid conf h =
     (if hs_Version h < cf_ProtocolVersionMinimum conf then Inl ErrVersionBelowMinimum
      else if hs_Network h \<noteq> cf_Network conf then Inl ErrWrongNetwork
      else case Atoi (hs_ListenPort h) of
        None \<Rightarrow> Inl ErrBadPort
      | Some port \<Rightarrow>
          if port < 1 \<or> port > 65535 then Inl ErrPortOutOfRange
          else if \<not> list_all Endpoint_Valid (hs_Alternatives h) then Inl ErrInvalidAlternatives
          else Inr ())"

definition newHandshake :: "Configuration \<Rightarrow> 64 word \<Rightarrow> Handshake" where
  "newHandshake conf loopback = zero_Handshake\<lparr>hs_Type := TypeHandshake, hs_Network := cf_Network conf,
     hs_Version := cf_ProtocolVersion conf, hs_NodeID := cf_NodeID conf,
     hs_ListenPort := cf_ListenPort conf, hs_Loopback := loopback\<rparr>"

lemma Handshake_Valid_iff:
  "Handshake_Valid conf h = Inr () \<longleftrightarrow>
     cf_ProtocolVersionMinimum conf \<le> hs_Version h \<and> hs_Network h = cf_Network conf
     \<and> (\<exists>p. Atoi (hs_ListenPort h) = Some p \<and> 1 \<le> p \<and> p \<le> 65535)
     \<and> list_all Endpoint_Valid (hs_Alternatives h)"
  by (auto simp: Handshake_Valid_def not_less split: option.splits)

lemma newHandshake_simps [simp]:
  "hs_Type (newHandshake conf l) = TypeHandshake"
  "hs_Network (newHandshake conf l) = cf_Network conf"
  "hs_Version (newHandshake conf l) = cf_ProtocolVersion conf"
  "hs_NodeID (newHandshake conf l) = cf_NodeID conf"
  "hs_ListenPort (newHandshake conf l) = cf_ListenPort conf"
  "hs_Loopback (newHandshake conf l) = l"
  "hs_Alternatives (newHandshake conf l) = []"
  by (simp_all add: newHandshake_def zero_Handshake_def)

text \<open>Two nodes of the same network understand each other: the handshake one node builds is
  accepted by the other exactly when the first node's version is not below the second's minimum and
  its listen port is in the TCP range.\<close>

theorem newHandshake_accepted:
  assumes "cf_Network a = cf_Network b"
  shows "Handshake_Valid b (newHandshake a loopback) = Inr () \<longleftrightarrow>
    cf_ProtocolVersionMinimum b \<le> cf_ProtocolVersion a
    \<and> (\<exists>p. Atoi (cf_ListenPort a) = Some p \<and> 1 \<le> p \<and> p \<le> 65535)"
  using assms by (simp add: Handshake_Valid_iff)

theorem newHandshake_accepted_witness:
  "Handshake_Valid DefaultP2PConfiguration (newHandshake DefaultP2PConfiguration 7) = Inr ()"
proof -
  have "Atoi ''8108'' = Some 8108"
    by (simp add: Atoi_def digits_val_def digit_val_def is_digit_def)
  then show ?thesis
    by (subst newHandshake_accepted) (simp_all add: DefaultP2PConfiguration_def)
qed

end
