(* ===== verification/ProtoGob.thy ===== *)
theory ProtoGob
  imports Connections Handshakes
begin

unbundle bit_operations_syntax

section \<open>Protocol versions 9 and 10\<close>

text \<open>
  \<open>protocolV9.go\<close> and \<open>protocolV10.go\<close>. Both send Go values with \<open>encoding/gob\<close>. A gob stream is a
  sequence of messages, each the definition of a type or a value of a type that has been defined
  before: an encoder defines a type the first time it sends a value of it, and a decoder rejects a
  second definition of the same type as well as a value whose type it has not seen. A value is decoded
  into a struct field by field, by name: what the target does not have is ignored, what the value does
  not have stays zero. This is what decides whether two encoders may share a connection, and what a
  node sees when the other side uses the other of the two message types. The size of a message does not
  matter here: that \<open>encoding/gob\<close> refuses messages of more than a gigabyte is not modelled.

  \<open>encoding/json\<close>, which encodes the peer shares and the alternatives of a rejection, is a pair of
  arguments (\<open>jm\<close>, \<open>ju\<close>); \<open>json_codec\<close> is its documented behaviour on the values that the program marshals, as
  long as their strings consist of ASCII characters.
\<close>

subsection \<open>Messages\<close>

record V9Header =
  h9_Network :: NetworkID
  h9_Version :: "16 word"
  h9_Type :: ParcelType
  h9_Length :: "32 word"
  h9_TargetPeer :: string
  h9_Crc32 :: "32 word"
  h9_PartNo :: "16 word"
  h9_PartsTotal :: "16 word"
  h9_NodeID :: "64 word"
  h9_PeerAddress :: string
  h9_PeerPort :: string
  h9_AppHash :: string
  h9_AppType :: string

record V9Msg =
  m9_Header :: V9Header
  m9_Payload :: bytes

record V10Msg =
  m10_Type :: ParcelType
  m10_Payload :: bytes

definition zero_V9Header :: V9Header where
  "zero_V9Header = \<lparr>h9_Network = 0, h9_Version = 0, h9_Type = 0, h9_Length = 0, h9_TargetPeer = [],
     h9_Crc32 = 0, h9_PartNo = 0, h9_PartsTotal = 0, h9_NodeID = 0, h9_PeerAddress = [], h9_PeerPort = [],
     h9_AppHash = [], h9_AppType = []\<rparr>"

definition V9Msg_Valid :: "V9Msg \<Rightarrow> wire_error + unit" where
  "V9Msg_Valid msg = first_error
     [(h9_Version (m9_Header msg) \<noteq> 9, ErrInvalidVersion),
      (length (m9_Payload msg) = 0, ErrZeroLengthPayload),
      (h9_Length (m9_Header msg) \<noteq> of_nat (length (m9_Payload msg)), ErrLengthMismatch),
      (Checksum (m9_Payload msg) \<noteq> h9_Crc32 (m9_Header msg), ErrInvalidChecksum)]"

subsection \<open>Gob streams\<close>

datatype gob_type = TV9Msg | TV9Header | TV10Msg

datatype gob = GobType gob_type | GobV9 V9Msg | GobV10 V10Msg

text \<open>The types an encoder has defined and a decoder has seen.\<close>

type_synonym gob_types = "gob_type list"
type_synonym gob_conn = "gob item RW"

fun types_of :: "gob \<Rightarrow> gob_types" where
  "types_of (GobType t) = []"
| "types_of (GobV9 m) = [TV9Msg, TV9Header]"
| "types_of (GobV10 m) = [TV10Msg]"

text \<open>Each gob message is written with one call; a short write is an error of the writer.\<close>

definition gob_write :: "gob \<Rightarrow> gob_conn \<Rightarrow> gob_conn result" where
  "gob_write g rw =
     (let (n, failed, rw') = Write [Gob g] rw in if failed \<or> n \<noteq> 1 then Inl (Sys ErrIO) else Inr rw')"

fun send_types :: "gob_types \<Rightarrow> gob_types \<Rightarrow> gob_conn \<Rightarrow> (gob_types \<times> gob_conn) result" where
  "send_types [] sent rw = Inr (sent, rw)"
| "send_types (t # ts) sent rw =
     (if t \<in> set sent then send_types ts sent rw
      else bindR (gob_write (GobType t) rw) (send_types ts (sent @ [t])))"

definition Encode :: "gob \<Rightarrow> gob_types \<Rightarrow> gob_conn \<Rightarrow> (gob_types \<times> gob_conn) result" where
  "Encode g sent rw =
     bindR (send_types (types_of g) sent rw) (\<lambda>(sent, rw).
     bindR (gob_write g rw) (\<lambda>rw. Inr (sent, rw)))"

fun gob_next :: "gob_types \<Rightarrow> gob item list \<Rightarrow> sys_error + (gob \<times> gob_types \<times> gob item list)" where
  "gob_next seen [] = Inl ErrEOF"
| "gob_next seen (Byte b # xs) = Inl ErrGob"
| "gob_next seen (Gob (GobType t) # xs) =
     (if t \<in> set seen then Inl ErrGob else gob_next (seen @ [t]) xs)"
| "gob_next seen (Gob g # xs) = (if set (types_of g) \<subseteq> set seen then Inr (g, seen, xs) else Inl ErrGob)"

definition Decode :: "(gob \<Rightarrow> 'm) \<Rightarrow> gob_types \<Rightarrow> gob_conn \<Rightarrow> ('m \<times> gob_types \<times> gob_conn) result" where
  "Decode into seen rw =
     (case gob_next seen (rw_in rw) of
        Inl e \<Rightarrow> Inl (Sys e)
      | Inr (g, seen', rest) \<Rightarrow> Inr (into g, seen', rw\<lparr>rw_in := rest\<rparr>))"

text \<open>\<open>V9Msg\<close> and \<open>V10Msg\<close> have only the field \<open>Payload\<close> in common.\<close>

fun into_V9Msg :: "gob \<Rightarrow> V9Msg" where
  "into_V9Msg (GobV9 m) = m"
| "into_V9Msg (GobV10 m) = \<lparr>m9_Header = zero_V9Header, m9_Payload = m10_Payload m\<rparr>"
| "into_V9Msg (GobType t) = \<lparr>m9_Header = zero_V9Header, m9_Payload = []\<rparr>"

fun into_V10Msg :: "gob \<Rightarrow> V10Msg" where
  "into_V10Msg (GobV10 m) = m"
| "into_V10Msg (GobV9 m) = \<lparr>m10_Type = 0, m10_Payload = m9_Payload m\<rparr>"
| "into_V10Msg (GobType t) = \<lparr>m10_Type = 0, m10_Payload = []\<rparr>"

subsection \<open>Version 9\<close>

record ProtocolV9 =
  v9_network :: NetworkID
  v9_nodeID :: "32 word"
  v9_port :: string
  v9_decoder :: gob_types
  v9_encoder :: gob_types

definition newProtocolV9 :: "NetworkID \<Rightarrow> 32 word \<Rightarrow> string \<Rightarrow> gob_types \<Rightarrow> gob_types \<Rightarrow> ProtocolV9" where
  "newProtocolV9 netw nodeID listenPort decoder encoder =
     \<lparr>v9_network = netw, v9_nodeID = nodeID, v9_port = listenPort, v9_decoder = decoder, v9_encoder = encoder\<rparr>"

definition v9SendHandshake :: "(Endpoint list \<Rightarrow> bytes result) \<Rightarrow> gob_types \<Rightarrow> Handshake \<Rightarrow> gob_conn \<Rightarrow>
    (gob_types \<times> gob_conn) result" where
  "v9SendHandshake jm encoder h rw =
     bindR (if length (hs_Alternatives h) > 0 then jm (hs_Alternatives h)
            else Inr (LittleEndian_PutUint64 (hs_Loopback h))) (\<lambda>payload.
     let header = zero_V9Header\<lparr>h9_Network := hs_Network h, h9_Version := hs_Version h, h9_Type := hs_Type h,
           h9_TargetPeer := [], h9_NodeID := ucast (hs_NodeID h), h9_PeerAddress := [],
           h9_PeerPort := hs_ListenPort h, h9_AppHash := ''NetworkMessage'', h9_AppType := ''Network'',
           h9_Crc32 := Checksum payload, h9_Length := of_nat (length payload)\<rparr>
     in Encode (GobV9 \<lparr>m9_Header = header, m9_Payload = payload\<rparr>) encoder rw)"

definition V9_SendHandshake :: "(Endpoint list \<Rightarrow> bytes result) \<Rightarrow> Handshake \<Rightarrow> ProtocolV9 \<times> gob_conn \<Rightarrow>
    (ProtocolV9 \<times> gob_conn) result" where
  "V9_SendHandshake jm h = (\<lambda>(v9, rw).
     let h = (if hs_Type h = TypeHandshake then h\<lparr>hs_Type := TypePeerRequest\<rparr> else h)
     in bindR (v9SendHandshake jm (v9_encoder v9) h rw) (\<lambda>(enc, rw). Inr (v9\<lparr>v9_encoder := enc\<rparr>, rw)))"

definition V9_read :: "ProtocolV9 \<times> gob_conn \<Rightarrow> (V9Msg \<times> ProtocolV9 \<times> gob_conn) result" where
  "V9_read = (\<lambda>(v9, rw).
     bindR (Decode into_V9Msg (v9_decoder v9) rw) (\<lambda>(msg, seen, rw). Inr (msg, v9\<lparr>v9_decoder := seen\<rparr>, rw)))"

definition V9_ReadHandshake :: "(bytes \<Rightarrow> Endpoint list result) \<Rightarrow> ProtocolV9 \<times> gob_conn \<Rightarrow>
    (Handshake \<times> ProtocolV9 \<times> gob_conn) result" where
  "V9_ReadHandshake ju s =
     bindR (V9_read s) (\<lambda>(msg, s).
     let hs = zero_Handshake\<lparr>hs_Type := h9_Type (m9_Header msg)\<rparr>
     in bindR (if h9_Type (m9_Header msg) = TypeRejectAlternative
               then bindR (ju (m9_Payload msg)) (\<lambda>alternatives. Inr (hs\<lparr>hs_Alternatives := alternatives\<rparr>))
               else if length (m9_Payload msg) = 8
               then Inr (hs\<lparr>hs_Loopback := LittleEndian_Uint64 (m9_Payload msg)\<rparr>)
               else Inr hs) (\<lambda>hs.
        Inr (hs\<lparr>hs_ListenPort := h9_PeerPort (m9_Header msg), hs_Network := h9_Network (m9_Header msg),
          hs_NodeID := ucast (h9_NodeID (m9_Header msg)), hs_Version := h9_Version (m9_Header msg)\<rparr>, s)))"

definition V9_Send :: "Parcel \<Rightarrow> ProtocolV9 \<times> gob_conn \<Rightarrow> (ProtocolV9 \<times> gob_conn) result" where
  "V9_Send p = (\<lambda>(v9, rw).
     let header = zero_V9Header\<lparr>h9_Network := v9_network v9, h9_Version := 9, h9_Type := ptype p,
           h9_TargetPeer := Address p, h9_NodeID := ucast (v9_nodeID v9), h9_PeerAddress := [],
           h9_PeerPort := v9_port v9, h9_AppHash := ''NetworkMessage'', h9_AppType := ''Network'',
           h9_Crc32 := Checksum (Payload p), h9_Length := of_nat (length (Payload p))\<rparr>
     in bindR (Encode (GobV9 \<lparr>m9_Header = header, m9_Payload = Payload p\<rparr>) (v9_encoder v9) rw) (\<lambda>(enc, rw).
        Inr (v9\<lparr>v9_encoder := enc\<rparr>, rw)))"

definition V9_Receive :: "ProtocolV9 \<times> gob_conn \<Rightarrow> (Parcel \<times> ProtocolV9 \<times> gob_conn) result" where
  "V9_Receive s =
     bindR (V9_read s) (\<lambda>(msg, s).
     case V9Msg_Valid msg of
       Inl e \<Rightarrow> Inl (Wire e)
     | Inr _ \<Rightarrow> Inr (\<lparr>ptype = h9_Type (m9_Header msg), Address = h9_TargetPeer (m9_Header msg),
         Payload = m9_Payload msg\<rparr>, s))"

definition V9_Version :: "16 word" where "V9_Version = 9"

text \<open>\<open>QualityScore\<close> is an \<open>int32\<close> and \<open>Connections\<close> an \<open>int\<close>, both signed; a map may be nil (\<open>None\<close>).\<close>

record V9Share =
  s9_QualityScore :: "32 word"
  s9_Address :: string
  s9_Port :: string
  s9_NodeID :: "64 word"
  s9_Hash :: string
  s9_Location :: "32 word"
  s9_Network :: NetworkID
  s9_Type :: byte
  s9_Connections :: "64 word"
  s9_LastContact :: time
  s9_Source :: "(string \<Rightarrow> time option) option"

text \<open>The body of the loop of \<open>MakePeerShare\<close>. The zero time is \<open>0\<close>.\<close>

definition v9_share :: "NetworkID \<Rightarrow> Endpoint \<Rightarrow> V9Share" where
  "v9_share network ep = \<lparr>s9_QualityScore = 20, s9_Address = IP ep, s9_Port = Port ep, s9_NodeID = 1,
     s9_Hash = IP ep, s9_Location = IP2LocationQuick (IP ep), s9_Network = network, s9_Type = 0,
     s9_Connections = 1, s9_LastContact = 0, s9_Source = Some Map.empty\<rparr>"

definition V9_MakePeerShare :: "(V9Share list \<Rightarrow> bytes result) \<Rightarrow> ProtocolV9 \<Rightarrow> Endpoint list \<Rightarrow> bytes result" where
  "V9_MakePeerShare jm v9 ps =
     jm (map (v9_share (v9_network v9)) ps)"

definition V9_ParsePeerShare :: "(bytes \<Rightarrow> V9Share list result) \<Rightarrow> bytes \<Rightarrow> Endpoint list result" where
  "V9_ParsePeerShare ju payload =
     bindR (ju payload) (\<lambda>list. Inr (map (\<lambda>s. \<lparr>IP = s9_Address s, Port = s9_Port s\<rparr>) list))"

subsection \<open>Version 10\<close>

record ProtocolV10 =
  v10_decoder :: gob_types
  v10_encoder :: gob_types

definition newProtocolV10 :: "gob_types \<Rightarrow> gob_types \<Rightarrow> ProtocolV10" where
  "newProtocolV10 decoder encoder = \<lparr>v10_decoder = decoder, v10_encoder = encoder\<rparr>"

definition V10_SendHandshake :: "(Endpoint list \<Rightarrow> bytes result) \<Rightarrow> Handshake \<Rightarrow> ProtocolV10 \<times> gob_conn \<Rightarrow>
    (ProtocolV10 \<times> gob_conn) result" where
  "V10_SendHandshake jm h = (\<lambda>(v10, rw).
     bindR (v9SendHandshake jm (v10_encoder v10) h rw) (\<lambda>(enc, rw). Inr (v10\<lparr>v10_encoder := enc\<rparr>, rw)))"

definition V10_ReadHandshake :: "ProtocolV10 \<times> gob_conn \<Rightarrow> (Handshake \<times> ProtocolV10 \<times> gob_conn) result" where
  "V10_ReadHandshake s = Inl (Wire ErrNoOwnHandshake)"

definition V10_Send :: "Parcel \<Rightarrow> ProtocolV10 \<times> gob_conn \<Rightarrow> (ProtocolV10 \<times> gob_conn) result" where
  "V10_Send p = (\<lambda>(v10, rw).
     bindR (Encode (GobV10 \<lparr>m10_Type = ptype p, m10_Payload = Payload p\<rparr>) (v10_encoder v10) rw) (\<lambda>(enc, rw).
       Inr (v10\<lparr>v10_encoder := enc\<rparr>, rw)))"

definition V10_Receive :: "ProtocolV10 \<times> gob_conn \<Rightarrow> (Parcel \<times> ProtocolV10 \<times> gob_conn) result" where
  "V10_Receive = (\<lambda>(v10, rw).
     bindR (Decode into_V10Msg (v10_decoder v10) rw) (\<lambda>(msg, seen, rw).
     if length (m10_Payload msg) = 0 then Inl (Wire ErrNullPayload)
     else Inr (newParcel (m10_Type msg) (m10_Payload msg), v10\<lparr>v10_decoder := seen\<rparr>, rw)))"

definition V10_Version :: "16 word" where "V10_Version = 10"

text \<open>\<open>V10Share\<close> is another name of \<open>Endpoint\<close>.\<close>

definition V10_MakePeerShare :: "(Endpoint list \<Rightarrow> bytes result) \<Rightarrow> Endpoint list \<Rightarrow> bytes result" where
  "V10_MakePeerShare jm share = jm (map (\<lambda>ep. \<lparr>IP = IP ep, Port = Port ep\<rparr>) share)"

definition V10_ParsePeerShare :: "(bytes \<Rightarrow> Endpoint list result) \<Rightarrow> bytes \<Rightarrow> Endpoint list result" where
  "V10_ParsePeerShare ju payload = ju payload"

subsection \<open>A gob encoder and a decoder in step\<close>

lemma gob_write_Inr: "gob_write g rw = Inr rw' \<Longrightarrow> rw_out rw' = rw_out rw @ [Gob g]"
  by (auto simp: gob_write_def Write_def Let_def split: if_splits prod.splits)

lemma send_types_frame:
  assumes "send_types ts sent rw = Inr (sent', rw')"
  shows "set sent \<union> set ts \<subseteq> set sent' \<and> (\<exists>f. rw_out rw' = rw_out rw @ f
    \<and> (\<forall>seen rest. set seen = set sent \<longrightarrow>
         (\<exists>seen'. set seen' = set sent' \<and> gob_next seen (f @ rest) = gob_next seen' rest)))"
  using assms
proof (induction ts sent rw rule: send_types.induct)
  case (1 sent rw)
  then show ?case by (auto intro: exI [of _ "[]"])
next
  case (2 t ts sent rw)
  show ?case
  proof (cases "t \<in> set sent")
    case True
    with "2.IH"(1) "2.prems" show ?thesis by auto
  next
    case False
    with "2.prems" obtain w1 where w1: "gob_write (GobType t) rw = Inr w1"
      and r: "send_types ts (sent @ [t]) w1 = Inr (sent', rw')" by (auto simp: bindR_Inr_iff)
    from "2.IH"(2) [OF False w1 r] obtain f where sub: "set (sent @ [t]) \<union> set ts \<subseteq> set sent'"
      and f: "rw_out rw' = rw_out w1 @ f" and nxt: "\<And>seen rest. set seen = set (sent @ [t]) \<Longrightarrow>
        \<exists>seen'. set seen' = set sent' \<and> gob_next seen (f @ rest) = gob_next seen' rest" by blast
    have "\<exists>seen'. set seen' = set sent' \<and> gob_next seen ((Gob (GobType t) # f) @ rest) = gob_next seen' rest"
      if "set seen = set sent" for seen rest
      using nxt [of "seen @ [t]" rest] that False by simp
    with sub f gob_write_Inr [OF w1] show ?thesis
      by (intro conjI exI [of _ "Gob (GobType t) # f"]) auto
  qed
qed

lemma Encode_frame:
  assumes "Encode g sent w = Inr (sent', w')" and "\<And>t. g \<noteq> GobType t"
  shows "\<exists>f. rw_out w' = rw_out w @ f \<and> (\<forall>seen r rest. set seen = set sent \<longrightarrow> rw_in r = f @ rest \<longrightarrow>
    (\<exists>seen'. set seen' = set sent' \<and> Decode into seen r = Inr (into g, seen', r\<lparr>rw_in := rest\<rparr>)))"
proof -
  from assms(1) obtain w1 where t: "send_types (types_of g) sent w = Inr (sent', w1)"
    and w1: "gob_write g w1 = Inr w'" by (auto simp: Encode_def bindR_Inr_iff)
  from send_types_frame [OF t] obtain f where sub: "set (types_of g) \<subseteq> set sent'"
    and f: "rw_out w1 = rw_out w @ f" and nxt: "\<And>seen rest. set seen = set sent \<Longrightarrow>
      \<exists>seen'. set seen' = set sent' \<and> gob_next seen (f @ rest) = gob_next seen' rest" by blast
  have "\<exists>seen'. set seen' = set sent' \<and> Decode into seen r = Inr (into g, seen', r\<lparr>rw_in := rest\<rparr>)"
    if "set seen = set sent" "rw_in r = (f @ [Gob g]) @ rest" for seen r rest
  proof -
    from nxt [OF that(1), of "Gob g # rest"] obtain seen' where s: "set seen' = set sent'"
      "gob_next seen (f @ Gob g # rest) = gob_next seen' (Gob g # rest)" by blast
    moreover from s(1) sub assms(2) have "gob_next seen' (Gob g # rest) = Inr (g, seen', rest)"
      by (cases g) auto
    ultimately show ?thesis using that(2) by (auto simp: Decode_def)
  qed
  with f gob_write_Inr [OF w1] show ?thesis by (intro exI [of _ "f @ [Gob g]"]) auto
qed

lemma Encode_V10_frame:
  assumes "Encode (GobV10 m) enc w = Inr (enc', w')"
  shows "\<exists>f. rw_out w' = rw_out w @ f \<and> (\<forall>seen r rest. (TV10Msg \<in> set seen \<longleftrightarrow> TV10Msg \<in> set enc) \<longrightarrow> rw_in r = f @ rest \<longrightarrow>
    (\<exists>seen'. (TV10Msg \<in> set seen' \<longleftrightarrow> TV10Msg \<in> set enc') \<and> Decode into_V10Msg seen r = Inr (m, seen', r\<lparr>rw_in := rest\<rparr>)))"
  using assms
  by (cases "TV10Msg \<in> set enc") (auto simp: Encode_def bindR_Inr_iff Decode_def dest!: gob_write_Inr)

text \<open>The receiver has seen exactly the types that the sender has defined, among those that the version's
  messages use; version 9 uses one encoder and one decoder all along.\<close>

definition v9_in_step :: "ProtocolV9 \<times> gob_conn \<Rightarrow> ProtocolV9 \<times> gob_conn \<Rightarrow> bool" where
  "v9_in_step s r \<longleftrightarrow> set (v9_decoder (fst r)) = set (v9_encoder (fst s))"

definition v10_in_step :: "ProtocolV10 \<times> gob_conn \<Rightarrow> ProtocolV10 \<times> gob_conn \<Rightarrow> bool" where
  "v10_in_step s r \<longleftrightarrow> (TV10Msg \<in> set (v10_decoder (fst r)) \<longleftrightarrow> TV10Msg \<in> set (v10_encoder (fst s)))"

definition has_payload :: "Parcel \<Rightarrow> bool" where
  "has_payload p \<longleftrightarrow> Payload p \<noteq> []"

lemma V9Msg_Valid_sent:
  "payload \<noteq> [] \<Longrightarrow> V9Msg_Valid \<lparr>m9_Header = zero_V9Header\<lparr>h9_Network := a, h9_Version := 9, h9_Type := t,
     h9_TargetPeer := b, h9_NodeID := c, h9_PeerAddress := d, h9_PeerPort := e, h9_AppHash := f, h9_AppType := g,
     h9_Crc32 := Checksum payload, h9_Length := of_nat (length payload)\<rparr>, m9_Payload = payload\<rparr> = Inr ()"
  by (simp add: V9Msg_Valid_def zero_V9Header_def)

interpretation v9: parcel_protocol V9_Send V9_Receive "\<lambda>s. rw_out (snd s)" "\<lambda>r. rw_in (snd r)"
  v9_in_step "\<lambda>p. p" has_payload
proof
  fix p s s'
  assume "V9_Send p s = Inr s'" "has_payload p"
  then obtain h where e: "Encode (GobV9 \<lparr>m9_Header = h, m9_Payload = Payload p\<rparr>) (v9_encoder (fst s)) (snd s)
      = Inr (v9_encoder (fst s'), snd s')"
    and v: "V9Msg_Valid \<lparr>m9_Header = h, m9_Payload = Payload p\<rparr> = Inr ()"
    and h: "h9_Type h = ptype p" "h9_TargetPeer h = Address p"
    by (cases s) (auto simp: V9_Send_def bindR_Inr_iff Let_def has_payload_def V9Msg_Valid_sent)
  from Encode_frame [OF e, of into_V9Msg] obtain f where f: "rw_out (snd s') = rw_out (snd s) @ f"
    and d: "\<And>seen r rest. set seen = set (v9_encoder (fst s)) \<Longrightarrow> rw_in r = f @ rest \<Longrightarrow>
      \<exists>seen'. set seen' = set (v9_encoder (fst s'))
        \<and> Decode into_V9Msg seen r = Inr (\<lparr>m9_Header = h, m9_Payload = Payload p\<rparr>, seen', r\<lparr>rw_in := rest\<rparr>)"
    by auto
  have "\<exists>r'. V9_Receive r = Inr (p, r') \<and> rw_in (snd r') = rest \<and> v9_in_step s' r'"
    if "v9_in_step s r" "rw_in (snd r) = f @ rest" for r rest
    using d [of "v9_decoder (fst r)" "snd r" rest] that v h
    by (cases r) (auto simp: v9_in_step_def V9_Receive_def V9_read_def)
  with f show "\<exists>f. rw_out (snd s') = rw_out (snd s) @ f \<and> (\<forall>r rest. v9_in_step s r \<longrightarrow>
      rw_in (snd r) = f @ rest \<longrightarrow>
      (\<exists>r'. V9_Receive r = Inr (p, r') \<and> rw_in (snd r') = rest \<and> v9_in_step s' r'))" by blast
qed

interpretation v10: parcel_protocol V10_Send V10_Receive "\<lambda>s. rw_out (snd s)" "\<lambda>r. rw_in (snd r)"
  v10_in_step "\<lambda>p. newParcel (ptype p) (Payload p)" has_payload
proof
  fix p s s'
  assume "V10_Send p s = Inr s'" and p: "has_payload p"
  then have e: "Encode (GobV10 \<lparr>m10_Type = ptype p, m10_Payload = Payload p\<rparr>) (v10_encoder (fst s)) (snd s)
      = Inr (v10_encoder (fst s'), snd s')"
    by (cases s) (auto simp: V10_Send_def bindR_Inr_iff)
  from Encode_V10_frame [OF e] obtain f where f: "rw_out (snd s') = rw_out (snd s) @ f"
    and d: "\<And>seen r rest. (TV10Msg \<in> set seen \<longleftrightarrow> TV10Msg \<in> set (v10_encoder (fst s))) \<Longrightarrow> rw_in r = f @ rest \<Longrightarrow>
      \<exists>seen'. (TV10Msg \<in> set seen' \<longleftrightarrow> TV10Msg \<in> set (v10_encoder (fst s'))) \<and> Decode into_V10Msg seen r
        = Inr (\<lparr>m10_Type = ptype p, m10_Payload = Payload p\<rparr>, seen', r\<lparr>rw_in := rest\<rparr>)"
    by blast
  have "\<exists>r'. V10_Receive r = Inr (newParcel (ptype p) (Payload p), r') \<and> rw_in (snd r') = rest
      \<and> v10_in_step s' r'"
    if "v10_in_step s r" "rw_in (snd r) = f @ rest" for r rest
    using d [of "v10_decoder (fst r)" "snd r" rest] that p
    by (cases r) (auto simp: v10_in_step_def V10_Receive_def has_payload_def)
  with f show "\<exists>f. rw_out (snd s') = rw_out (snd s) @ f \<and> (\<forall>r rest. v10_in_step s r \<longrightarrow>
      rw_in (snd r) = f @ rest \<longrightarrow> (\<exists>r'. V10_Receive r = Inr (newParcel (ptype p) (Payload p), r')
        \<and> rw_in (snd r') = rest \<and> v10_in_step s' r'))" by blast
qed

subsection \<open>JSON\<close>

text \<open>The documented behaviour of \<open>encoding/json\<close> that the protocols rely on: what was marshalled is
  unmarshalled to the same value, as long as its strings are valid UTF-8; ASCII strings are. It is assumed of
  the values that the program marshals: endpoints, and shares as \<open>MakePeerShare\<close> makes them, with the zero time
  and an empty map.\<close>

definition ascii :: "string \<Rightarrow> bool" where
  "ascii s \<longleftrightarrow> list_all (\<lambda>c. (of_char c :: nat) < 128) s"

definition ascii_endpoint :: "Endpoint \<Rightarrow> bool" where
  "ascii_endpoint ep \<longleftrightarrow> ascii (IP ep) \<and> ascii (Port ep)"

definition made_share :: "V9Share \<Rightarrow> bool" where
  "made_share s \<longleftrightarrow> (\<exists>network ep. ascii_endpoint ep \<and> s = v9_share network ep)"

definition json_codec :: "('v \<Rightarrow> bool) \<Rightarrow> ('v list \<Rightarrow> bytes result) \<Rightarrow> (bytes \<Rightarrow> 'v list result) \<Rightarrow> bool" where
  "json_codec ok jm ju \<longleftrightarrow> (\<forall>vs. list_all ok vs \<longrightarrow> (\<exists>d. jm vs = Inr d \<and> ju d = Inr vs))"

text \<open>A codec for examples: the strings of the endpoints, each followed by a byte that is not ASCII.\<close>

definition sample_jm :: "Endpoint list \<Rightarrow> bytes result" where
  "sample_jm eps = Inr (concat (map (\<lambda>ep. string_bytes (IP ep) @ 0x80 # string_bytes (Port ep) @ [0x80]) eps))"

fun sample_items :: "bytes \<Rightarrow> bytes \<Rightarrow> string option \<Rightarrow> Endpoint list" where
  "sample_items acc [] ip = []"
| "sample_items acc (b # bs) ip =
     (if b = 0x80 then
        (case ip of
           None \<Rightarrow> sample_items [] bs (Some (bytes_string acc))
         | Some a \<Rightarrow> \<lparr>IP = a, Port = bytes_string acc\<rparr> # sample_items [] bs None)
      else sample_items (acc @ [b]) bs ip)"

definition sample_ju :: "bytes \<Rightarrow> Endpoint list result" where
  "sample_ju d = Inr (sample_items [] d None)"

lemma ascii_not_80: "ascii s \<Longrightarrow> 0x80 \<notin> set (string_bytes s)"
proof
  assume "ascii s" "0x80 \<in> set (string_bytes s)"
  then obtain c where c: "(of_char c :: nat) < 128" "(0x80 :: byte) = word_of_nat (of_char c)"
    by (auto simp: ascii_def string_bytes_def list_all_iff)
  from c(1) have "unat (word_of_nat (of_char c) :: byte) = of_char c" by (simp add: unat_of_nat)
  with c show False by (simp flip: c(2))
qed

lemma sample_items_skip:
  "0x80 \<notin> set xs \<Longrightarrow> sample_items acc (xs @ 0x80 # bs) ip = sample_items (acc @ xs) (0x80 # bs) ip"
  by (induction xs arbitrary: acc) (auto split: option.splits)

lemma sample_codec: "json_codec ascii_endpoint sample_jm sample_ju"
proof -
  have "sample_items [] (concat (map (\<lambda>ep. string_bytes (IP ep) @ 0x80 # string_bytes (Port ep) @ [0x80]) eps)) None
      = eps" if "list_all ascii_endpoint eps" for eps
    using that
    by (induction eps) (simp_all add: ascii_endpoint_def ascii_not_80 sample_items_skip)
  then show ?thesis by (simp add: json_codec_def sample_jm_def sample_ju_def)
qed

text \<open>The same for shares: the number of the network in eight bytes, then the two strings.\<close>

definition sample_jmS :: "V9Share list \<Rightarrow> bytes result" where
  "sample_jmS vs = Inr (concat (map (\<lambda>v. LittleEndian_PutUint64 (ucast (s9_Network v)) @ string_bytes (s9_Address v) @ 0x80
     # string_bytes (s9_Port v) @ [0x80]) vs))"

fun sample_shares :: "bytes \<Rightarrow> V9Share list" where
  "sample_shares d =
     (if length d < 8 then []
      else
        let ip = takeWhile (\<lambda>b. b \<noteq> 0x80) (drop 8 d);
            d2 = drop (Suc (length ip)) (drop 8 d);
            port = takeWhile (\<lambda>b. b \<noteq> 0x80) d2
        in v9_share (ucast (LittleEndian_Uint64 (take 8 d))) \<lparr>IP = bytes_string ip, Port = bytes_string port\<rparr>
           # sample_shares (drop (Suc (length port)) d2))"

declare sample_shares.simps [simp del]

lemma sample_shares_step:
  assumes "0x80 \<notin> set ip" and "0x80 \<notin> set port"
  shows "sample_shares (LittleEndian_PutUint64 n @ ip @ 0x80 # port @ 0x80 # rest)
    = v9_share (ucast n) \<lparr>IP = bytes_string ip, Port = bytes_string port\<rparr> # sample_shares rest"
proof -
  have "takeWhile (\<lambda>b. b \<noteq> 0x80) (xs @ 0x80 # ys) = xs" if "0x80 \<notin> set xs" for xs ys :: bytes
    using that by (subst takeWhile_append2) auto
  with assms show ?thesis
    by (subst sample_shares.simps) (simp add: LittleEndian_roundtrip Let_def)
qed

lemma sample_codecS: "json_codec made_share sample_jmS (\<lambda>d. Inr (sample_shares d))"
proof -
  have "sample_shares (concat (map (\<lambda>v. LittleEndian_PutUint64 (ucast (s9_Network v)) @ string_bytes (s9_Address v) @ 0x80
      # string_bytes (s9_Port v) @ [0x80]) vs)) = vs" if "list_all made_share vs" for vs
    using that
  proof (induction vs)
    case Nil
    show ?case by (subst sample_shares.simps) simp
  next
    case (Cons v vs)
    then obtain network ep where v: "ascii_endpoint ep" "v = v9_share network ep" by (auto simp: made_share_def)
    then have "0x80 \<notin> set (string_bytes (IP ep))" "0x80 \<notin> set (string_bytes (Port ep))"
      by (simp_all add: ascii_endpoint_def ascii_not_80)
    note step = sample_shares_step [OF this]
    from Cons v step show ?case by (simp add: v9_share_def)
  qed
  then show ?thesis by (simp add: json_codec_def sample_jmS_def)
qed

subsection \<open>Handshakes\<close>

text \<open>What the other side of a version 9 or 10 connection reads from a handshake: the type a version 9
  node sends, and no loopback number where alternatives take its place.\<close>

definition v9_seen :: "Handshake \<Rightarrow> Handshake" where
  "v9_seen h = (if hs_Alternatives h = [] then h else h\<lparr>hs_Loopback := 0\<rparr>)"

lemma length_LittleEndian [simp]: "length (LittleEndian_PutUint64 v) = 8"
  by (simp add: LittleEndian_PutUint64_def)

lemma v9SendHandshake_read:
  assumes "json_codec ascii_endpoint jm ju" and "list_all ascii_endpoint (hs_Alternatives h)"
    and "hs_Type h = TypeRejectAlternative \<longleftrightarrow> hs_Alternatives h \<noteq> []"
    and "v9SendHandshake jm enc h w = Inr (enc', w')"
  shows "\<exists>f. rw_out w' = rw_out w @ f \<and> (\<forall>v9 r rest. set (v9_decoder v9) = set enc \<longrightarrow> rw_in r = f @ rest \<longrightarrow>
    (\<exists>v9'. V9_ReadHandshake ju (v9, r) = Inr (v9_seen h, v9', r\<lparr>rw_in := rest\<rparr>)
       \<and> v9' = v9\<lparr>v9_decoder := v9_decoder v9'\<rparr> \<and> set (v9_decoder v9') = set enc'))"
proof -
  obtain payload where p: "(if hs_Alternatives h = [] then Inr (LittleEndian_PutUint64 (hs_Loopback h))
      else jm (hs_Alternatives h)) = Inr payload"
    and alt: "hs_Alternatives h \<noteq> [] \<longrightarrow> ju payload = Inr (hs_Alternatives h)"
    using assms(1,2) by (cases "hs_Alternatives h = []") (auto simp: json_codec_def)
  then have "\<exists>hd. Encode (GobV9 \<lparr>m9_Header = hd, m9_Payload = payload\<rparr>) enc w = Inr (enc', w')
      \<and> h9_Type hd = hs_Type h \<and> h9_PeerPort hd = hs_ListenPort h \<and> h9_Network hd = hs_Network h
      \<and> h9_NodeID hd = ucast (hs_NodeID h) \<and> h9_Version hd = hs_Version h"
    using assms(4) by (auto simp: v9SendHandshake_def Let_def split: if_splits)
  then obtain hd where e: "Encode (GobV9 \<lparr>m9_Header = hd, m9_Payload = payload\<rparr>) enc w = Inr (enc', w')"
    and hd: "h9_Type hd = hs_Type h" "h9_PeerPort hd = hs_ListenPort h" "h9_Network hd = hs_Network h"
      "h9_NodeID hd = ucast (hs_NodeID h)" "h9_Version hd = hs_Version h" by blast
  have read: "V9_ReadHandshake ju (v9, r) = Inr (v9_seen h, v9\<lparr>v9_decoder := seen\<rparr>, r')"
    if "Decode into_V9Msg (v9_decoder v9) r = Inr (\<lparr>m9_Header = hd, m9_Payload = payload\<rparr>, seen, r')" for v9 r seen r'
    using that p alt hd assms(3)
    by (cases h, cases "hs_Alternatives h")
      (auto simp: V9_ReadHandshake_def V9_read_def zero_Handshake_def v9_seen_def LittleEndian_roundtrip)
  from Encode_frame [OF e, of into_V9Msg] obtain f where f: "rw_out w' = rw_out w @ f"
    and d: "\<And>seen r rest. set seen = set enc \<Longrightarrow> rw_in r = f @ rest \<Longrightarrow> \<exists>seen'. set seen' = set enc' \<and>
       Decode into_V9Msg seen r = Inr (\<lparr>m9_Header = hd, m9_Payload = payload\<rparr>, seen', r\<lparr>rw_in := rest\<rparr>)"
    by auto
  have "\<exists>v9'. V9_ReadHandshake ju (v9, r) = Inr (v9_seen h, v9', r\<lparr>rw_in := rest\<rparr>)
       \<and> v9' = v9\<lparr>v9_decoder := v9_decoder v9'\<rparr> \<and> set (v9_decoder v9') = set enc'"
    if "set (v9_decoder v9) = set enc" "rw_in r = f @ rest" for v9 r rest
    using d [OF that] read by fastforce
  with f show ?thesis by blast
qed

subsection \<open>Properties\<close>

lemma endpoint_eta: "\<lparr>IP = IP ep, Port = Port ep\<rparr> = (ep :: Endpoint)"
  by simp

text \<open>Version 9 delivers parcels: what one side sends without an error, the other side receives in
  order, unchanged (type, target address and payload), checksum and length verified, as long as no
  payload is empty and the reader has seen exactly the gob types the writer has defined.\<close>

theorem V9_parcels_delivered:
  assumes "send_all V9_Send ps (v9, w) = Inr s'" and "list_all has_payload ps"
    and "rw_out w = []" and "v9_in_step (v9, w) r" and "rw_in (snd r) = rw_out (snd s') @ rest"
  shows "\<exists>r'. recv_n V9_Receive (length ps) r = Inr (ps, r') \<and> rw_in (snd r') = rest \<and> v9_in_step s' r'"
  using v9.stream_delivered [OF assms(1,2)] assms(3-5) by simp

text \<open>Version 10 delivers parcels: what one side sends without an error, the other side receives in
  order, with type and payload (the address is not transmitted), as long as no payload is empty and the
  reader has seen exactly the gob types the writer has defined.\<close>

theorem V10_parcels_delivered:
  assumes "send_all V10_Send ps (v10, w) = Inr s'" and "list_all has_payload ps"
    and "rw_out w = []" and "v10_in_step (v10, w) r" and "rw_in (snd r) = rw_out (snd s') @ rest"
  shows "\<exists>r'. recv_n V10_Receive (length ps) r = Inr (map (\<lambda>p. newParcel (ptype p) (Payload p)) ps, r')
    \<and> rw_in (snd r') = rest \<and> v10_in_step s' r'"
  using v10.stream_delivered [OF assms(1,2)] assms(3-5) by simp

theorem V9_parcels_delivered_witness:
  "\<exists>s' r'. send_all V9_Send [\<lparr>ptype = TypeMessage, Address = ''a'', Payload = [1]\<rparr>]
      (newProtocolV9 MainNet 1 ''80'' [] [], open_rw []) = Inr s'
    \<and> recv_n V9_Receive 1 (newProtocolV9 MainNet 2 ''81'' [] [], open_rw (rw_out (snd s')))
      = Inr ([\<lparr>ptype = TypeMessage, Address = ''a'', Payload = [1]\<rparr>], r')"
proof -
  let ?ps = "[\<lparr>ptype = TypeMessage, Address = ''a'', Payload = [1]\<rparr>]"
  obtain s' where s': "send_all V9_Send ?ps (newProtocolV9 MainNet 1 ''80'' [] [], open_rw []) = Inr s'"
    by (simp add: V9_Send_def newProtocolV9_def Encode_def gob_write_def Write_def open_rw_def Let_def)
  from V9_parcels_delivered [OF s', of "(newProtocolV9 MainNet 2 ''81'' [] [], open_rw (rw_out (snd s')))" "[]"] s'
  show ?thesis
    by (auto simp: has_payload_def v9_in_step_def newProtocolV9_def open_rw_def)
qed

theorem V10_parcels_delivered_witness:
  "\<exists>s' r'. send_all V10_Send [newParcel TypeMessage [1]] (newProtocolV10 [] [], open_rw []) = Inr s'
    \<and> recv_n V10_Receive 1 (newProtocolV10 [] [], open_rw (rw_out (snd s'))) = Inr ([newParcel TypeMessage [1]], r')"
proof -
  let ?ps = "[newParcel TypeMessage [1]]"
  obtain s' where s': "send_all V10_Send ?ps (newProtocolV10 [] [], open_rw []) = Inr s'"
    by (simp add: V10_Send_def newProtocolV10_def Encode_def gob_write_def Write_def open_rw_def Let_def)
  from V10_parcels_delivered [OF s', of "(newProtocolV10 [] [], open_rw (rw_out (snd s')))" "[]"] s'
  show ?thesis
    by (auto simp: has_payload_def v10_in_step_def newProtocolV10_def open_rw_def newParcel_def)
qed

text \<open>The handshake of version 9, which version 10 shares, survives the connection: the other side reads
  every field back, except that a version 9 node announces a peer request in place of a handshake, and
  that the loopback number gives way to the alternatives when there are any. A rejection has to name at
  least one alternative.\<close>

theorem V9_handshake_delivered:
  assumes "json_codec ascii_endpoint jm ju" and "list_all ascii_endpoint (hs_Alternatives h)"
    and "hs_Type h = TypeRejectAlternative \<longleftrightarrow> hs_Alternatives h \<noteq> []"
    and "V9_SendHandshake jm h (v9, w) = Inr (v9', w')" and "rw_out w = []"
    and "set (v9_decoder u) = set (v9_encoder v9)" and "rw_in r = rw_out w' @ rest"
  shows "\<exists>u'. V9_ReadHandshake ju (u, r) = Inr (v9_seen (if hs_Type h = TypeHandshake
      then h\<lparr>hs_Type := TypePeerRequest\<rparr> else h), u', r\<lparr>rw_in := rest\<rparr>)
    \<and> set (v9_decoder u') = set (v9_encoder v9')"
proof -
  define g where "g = (if hs_Type h = TypeHandshake then h\<lparr>hs_Type := TypePeerRequest\<rparr> else h)"
  have sent: "v9SendHandshake jm (v9_encoder v9) g w = Inr (v9_encoder v9', w')"
    using assms(4) by (auto simp: V9_SendHandshake_def bindR_Inr_iff Let_def g_def)
  have g: "list_all ascii_endpoint (hs_Alternatives g)" "hs_Type g = TypeRejectAlternative \<longleftrightarrow> hs_Alternatives g \<noteq> []"
    using assms(2,3) by (auto simp: ParcelType_defs g_def)
  from v9SendHandshake_read [OF assms(1) g sent] obtain f where f: "rw_out w' = rw_out w @ f"
    and read: "\<And>u r rest. set (v9_decoder u) = set (v9_encoder v9) \<Longrightarrow> rw_in r = f @ rest \<Longrightarrow>
      \<exists>u'. V9_ReadHandshake ju (u, r) = Inr (v9_seen g, u', r\<lparr>rw_in := rest\<rparr>)
        \<and> u' = u\<lparr>v9_decoder := v9_decoder u'\<rparr> \<and> set (v9_decoder u') = set (v9_encoder v9')" by blast
  from read [OF assms(6), of r rest] f assms(5,7) show ?thesis
    unfolding g_def by auto
qed

theorem V9_handshake_delivered_witness:
  "\<exists>v9' w' u'. V9_SendHandshake sample_jm (newHandshake DefaultP2PConfiguration 5)
      (newProtocolV9 MainNet 1 ''80'' [] [], open_rw []) = Inr (v9', w')
    \<and> V9_ReadHandshake sample_ju (newProtocolV9 MainNet 2 ''81'' [] [], open_rw (rw_out w'))
      = Inr ((newHandshake DefaultP2PConfiguration 5)\<lparr>hs_Type := TypePeerRequest\<rparr>, u', open_rw [])"
proof -
  let ?h = "newHandshake DefaultP2PConfiguration 5"
  obtain v9' w' where s: "V9_SendHandshake sample_jm ?h (newProtocolV9 MainNet 1 ''80'' [] [], open_rw []) = Inr (v9', w')"
    by (simp add: V9_SendHandshake_def v9SendHandshake_def newProtocolV9_def Encode_def gob_write_def Write_def
        open_rw_def Let_def)
  from V9_handshake_delivered [OF sample_codec _ _ s,
      of "newProtocolV9 MainNet 2 ''81'' [] []" "open_rw (rw_out w')" "[]"] s
  show ?thesis
    by (auto simp: newProtocolV9_def open_rw_def ParcelType_defs v9_seen_def)
qed

text \<open>Peer shares of versions 9 and 10 survive their JSON encoding: the endpoints parsed are the endpoints
  shared, in the same order, if their strings are ASCII.\<close>

lemma gob_peer_share_roundtrip:
  assumes "list_all ascii_endpoint eps"
  shows "(json_codec made_share jm9 ju9 \<longrightarrow>
      (\<exists>d. V9_MakePeerShare jm9 v9 eps = Inr d \<and> V9_ParsePeerShare ju9 d = Inr eps))
    \<and> (json_codec ascii_endpoint jm10 ju10 \<longrightarrow>
      (\<exists>d. V10_MakePeerShare jm10 eps = Inr d \<and> V10_ParsePeerShare ju10 d = Inr eps))"
proof (intro conjI impI)
  assume c: "json_codec made_share jm9 ju9"
  let ?share = "v9_share (v9_network v9)"
  have "list_all made_share (map ?share eps)" using assms by (auto simp: list_all_iff made_share_def)
  with c obtain d where "jm9 (map ?share eps) = Inr d" "ju9 d = Inr (map ?share eps)"
    by (auto simp: json_codec_def)
  then show "\<exists>d. V9_MakePeerShare jm9 v9 eps = Inr d \<and> V9_ParsePeerShare ju9 d = Inr eps"
    by (simp add: V9_MakePeerShare_def V9_ParsePeerShare_def comp_def endpoint_eta v9_share_def)
next
  assume "json_codec ascii_endpoint jm10 ju10"
  with assms show "\<exists>d. V10_MakePeerShare jm10 eps = Inr d \<and> V10_ParsePeerShare ju10 d = Inr eps"
    by (simp add: json_codec_def V10_MakePeerShare_def V10_ParsePeerShare_def endpoint_eta)
qed

end
