(* ===== verification/Varint.thy ===== *)
theory Varint
  imports P2P_Prelude
begin

unbundle bit_operations_syntax

section \<open>Base-128 varints of the protobuf wire format\<close>

text \<open>
  The varint code of \<open>protocolV11.pb.go\<close>: the writer \<open>encodeVarintProtocolV11\<close>, the size function
  \<open>sovProtocolV11\<close> and the reading loop that the generated \<open>Unmarshal\<close> methods repeat inline. A Go
  panic (an index outside the slice) is \<open>None\<close>; \<open>varint_bytes\<close> is the reference encoding.
\<close>

subsection \<open>Definitions\<close>

text \<open>\<open>bits.Len64\<close>: the number of bits needed to represent a number.\<close>

fun Len64 :: "nat \<Rightarrow> nat" where
  "Len64 n = (if n = 0 then 0 else Suc (Len64 (n div 2)))"

declare Len64.simps [simp del]

definition sovProtocolV11 :: "64 word \<Rightarrow> nat" where
  "sovProtocolV11 x = (Len64 (unat (x OR 1)) + 6) div 7"

lemma unat_drop_bit7: "unat (drop_bit 7 (v :: 64 word)) = unat v div 128"
  using unat_drop_bit_eq [of 7 v] drop_bit_eq_div [of 7 "unat v"] by simp

lemma drop_bit7_less: "128 \<le> (v :: 64 word) \<Longrightarrow> unat (drop_bit 7 v) < unat v"
  by (simp add: unat_drop_bit7 word_le_nat_alt)

function varint_loop :: "bytes \<Rightarrow> nat \<Rightarrow> 64 word \<Rightarrow> bytes option" where
  "varint_loop dAtA offset v =
     (if 128 \<le> v then
        (if offset < length dAtA
         then varint_loop (dAtA[offset := ucast (v AND 0x7f OR 0x80)]) (offset + 1) (drop_bit 7 v)
         else None)
      else if offset < length dAtA then Some (dAtA[offset := ucast v]) else None)"
  by pat_completeness auto
termination
  by (relation "measure (\<lambda>(_, _, v). unat v)") (auto simp: drop_bit7_less)

declare varint_loop.simps [simp del]

text \<open>A buffer that is filled from its end: the slice and the index \<open>i\<close> of the first byte written.\<close>

type_synonym sized_buf = "bytes \<times> nat"

definition encodeVarintProtocolV11 :: "64 word \<Rightarrow> sized_buf \<Rightarrow> sized_buf option" where
  "encodeVarintProtocolV11 v b =
     (let (dAtA, offset) = b in
      if offset < sovProtocolV11 v then None
      else map_option (\<lambda>d. (d, offset - sovProtocolV11 v))
             (varint_loop dAtA (offset - sovProtocolV11 v) v))"

function dec_varint ::
  "'a::len word \<Rightarrow> nat \<Rightarrow> bytes \<Rightarrow> nat \<Rightarrow> pb_error + ('a word \<times> nat)" where
  "dec_varint acc shift dAtA i =
     (if 64 \<le> shift then Inl ErrIntOverflow
      else if length dAtA \<le> i then Inl ErrUnexpectedEOF
      else let b = dAtA ! i; acc' = acc OR push_bit shift (ucast (b AND 0x7F))
           in if b < 0x80 then Inr (acc', i + 1) else dec_varint acc' (shift + 7) dAtA (i + 1))"
  by pat_completeness auto
termination
  by (relation "measure (\<lambda>(_, shift, _, _). 64 - shift)") auto

declare dec_varint.simps [simp del]

subsection \<open>The reference encoding\<close>

function varint_bytes :: "64 word \<Rightarrow> bytes" where
  "varint_bytes v =
     (if 128 \<le> v then ucast (v AND 0x7f OR 0x80) # varint_bytes (drop_bit 7 v) else [ucast v])"
  by pat_completeness auto
termination
  by (relation "measure unat") (auto simp: drop_bit7_less)

declare varint_bytes.simps [simp del]

lemma varint_bytes_nonempty [simp]: "varint_bytes v \<noteq> []"
  by (subst varint_bytes.simps) simp

subsection \<open>The size function is the length of the encoding\<close>

lemma Len64_div_128:
  assumes "128 \<le> n"
  shows "Len64 n = 7 + Len64 (n div 128)"
proof -
  have step: "Len64 m = Suc (Len64 (m div 2))" if "m \<noteq> 0" for m
    using that by (subst Len64.simps) simp
  have "n div 64 \<noteq> 0" "n div 32 \<noteq> 0" "n div 16 \<noteq> 0" "n div 8 \<noteq> 0" "n div 4 \<noteq> 0" "n div 2 \<noteq> 0" "n \<noteq> 0"
    using assms by auto
  then show ?thesis
    by (simp add: step [of n] step [of "n div 2"] step [of "n div 4"] step [of "n div 8"]
        step [of "n div 16"] step [of "n div 32"] step [of "n div 64"] div_mult2_eq [symmetric])
qed

lemma Len64_pos: "0 < n \<Longrightarrow> 0 < Len64 n"
  by (subst Len64.simps) simp

lemma Len64_le: "n < 2 ^ k \<Longrightarrow> Len64 n \<le> k"
proof (induction k arbitrary: n)
  case 0
  then show ?case by (simp add: Len64.simps)
next
  case (Suc k)
  then have "n div 2 < 2 ^ k" by auto
  with Suc.IH show ?case by (subst Len64.simps) simp
qed


lemma or_one_div2: "(n OR Suc 0) div 2 = (n :: nat) div 2"
proof -
  have "drop_bit 1 (n OR 1) = drop_bit 1 n OR drop_bit 1 1" by (rule drop_bit_or)
  then show ?thesis by (simp add: drop_bit_Suc drop_bit_eq_div)
qed

lemma Len64_or_one: "0 < n \<Longrightarrow> Len64 (n OR Suc 0) = Len64 n"
proof -
  assume "0 < n"
  moreover have "n OR Suc 0 \<noteq> 0" by (simp add: or_eq_0_iff)
  ultimately show ?thesis
    by (subst (1 2) Len64.simps) (simp add: or_one_div2)
qed

lemma sov_small: "v < 128 \<Longrightarrow> sovProtocolV11 v = 1"
proof -
  assume "v < 128"
  then have lt: "unat v < 2 ^ 7" by (simp add: word_less_nat_alt)
  have n: "unat (v OR 1) = unat v OR 1" by (simp add: unsigned_or_eq)
  show ?thesis
  proof (cases "unat v = 0")
    case True
    with n show ?thesis by (simp add: sovProtocolV11_def Len64.simps)
  next
    case False
    with Len64_or_one [of "unat v"] Len64_le [OF lt] Len64_pos [of "unat v"] n
    show ?thesis by (simp add: sovProtocolV11_def)
  qed
qed

lemma sov_large:
  assumes "128 \<le> v"
  shows "sovProtocolV11 v = Suc (sovProtocolV11 (drop_bit 7 v))"
proof -
  have ge: "128 \<le> unat v" using assms by (simp add: word_le_nat_alt)
  then have q: "0 < unat v div 128" by simp
  have d: "unat (drop_bit 7 v) = unat v div 128"
    by (rule unat_drop_bit7)
  have "unat (v OR 1) = unat v OR 1" "unat (drop_bit 7 v OR 1) = unat v div 128 OR 1"
    by (simp_all add: unsigned_or_eq d)
  with ge q show ?thesis
    by (simp add: sovProtocolV11_def Len64_or_one Len64_div_128 [OF ge])
qed

lemma length_varint_bytes [simp]: "length (varint_bytes v) = sovProtocolV11 v"
proof (induction v rule: varint_bytes.induct)
  case (1 v)
  show ?case
  proof (cases "128 \<le> v")
    case True
    with 1 show ?thesis by (subst varint_bytes.simps) (simp add: sov_large)
  next
    case False
    then show ?thesis by (subst varint_bytes.simps) (simp add: sov_small)
  qed
qed

lemma sov_pos [simp]: "0 < sovProtocolV11 v"
  using length_varint_bytes [of v] varint_bytes_nonempty [of v] by (metis length_greater_0_conv)

lemma sov_le_10: "sovProtocolV11 v \<le> 10"
proof -
  have "unat (v OR 1) < 2 ^ LENGTH(64)" by (rule unsigned_less)
  then have "Len64 (unat (v OR 1)) \<le> 64" by (intro Len64_le) simp
  then show ?thesis by (simp add: sovProtocolV11_def)
qed

subsection \<open>The writer puts the reference encoding in front of the index\<close>

lemma varint_loop_eq:
  "varint_loop (pre @ mid @ post) (length pre) v = Some (pre @ varint_bytes v @ post)"
  if "length mid = sovProtocolV11 v"
  using that
proof (induction v arbitrary: pre mid rule: varint_bytes.induct)
  case (1 v)
  from "1.prems" obtain m ms where mid: "mid = m # ms"
    by (cases mid) (auto simp: sov_pos [THEN less_imp_neq])
  show ?case
  proof (cases "128 \<le> v")
    case True
    let ?b = "ucast (v AND 0x7f OR 0x80) :: byte"
    from True "1.prems" mid have ms: "length ms = sovProtocolV11 (drop_bit 7 v)"
      by (simp add: sov_large)
    from "1.IH" [OF True ms, of "pre @ [?b]"]
    have "varint_loop (pre @ ?b # ms @ post) (Suc (length pre)) (drop_bit 7 v)
        = Some (pre @ ?b # varint_bytes (drop_bit 7 v) @ post)"
      by simp
    with True mid show ?thesis
      by (subst varint_loop.simps, subst varint_bytes.simps) (simp add: list_update_append)
  next
    case False
    with "1.prems" mid have "ms = []" by (simp add: sov_small)
    with False mid show ?thesis
      by (subst varint_loop.simps, subst varint_bytes.simps) (simp add: list_update_append)
  qed
qed

lemma split_before:
  assumes "n \<le> i" and "i \<le> length d"
  obtains pre mid where "d = pre @ mid @ drop i d" and "length mid = n" and "length pre = i - n"
    and "pre = take (i - n) d"
proof
  show "d = take (i - n) d @ take n (drop (i - n) d) @ drop i d"
    using assms by (metis add.commute append_take_drop_id drop_drop le_add_diff_inverse2)
qed (use assms in auto)

lemma encodeVarint_eq:
  assumes "sovProtocolV11 v \<le> i" and "i \<le> length d"
  shows "encodeVarintProtocolV11 v (d, i)
    = Some (take (i - sovProtocolV11 v) d @ varint_bytes v @ drop i d, i - sovProtocolV11 v)"
proof -
  obtain pre mid where d: "d = pre @ mid @ drop i d" and mid: "length mid = sovProtocolV11 v"
    and pre: "length pre = i - sovProtocolV11 v" "pre = take (i - sovProtocolV11 v) d"
    using split_before [OF assms] .
  have "varint_loop d (i - sovProtocolV11 v) v = Some (pre @ varint_bytes v @ drop i d)"
    using varint_loop_eq [OF mid, of pre "drop i d"] d pre(1) by simp
  with assms pre(2) show ?thesis
    by (simp add: encodeVarintProtocolV11_def)
qed

subsection \<open>The reading loop inverts the encoding\<close>

lemma dec_varint_progress: "dec_varint acc s d i = Inr (x, j) \<Longrightarrow> i < j \<and> j \<le> length d"
proof (induction acc s d i rule: dec_varint.induct)
  case (1 acc s d i)
  then show ?case
    by (subst (asm) (2) dec_varint.simps) (fastforce simp: Let_def split: if_splits)
qed

lemma bit_int_127: "bit (127 :: int) n \<longleftrightarrow> n < 7"
proof -
  have "(127 :: int) = mask 7" by (simp add: mask_eq_exp_minus_1)
  then show ?thesis by (simp only: bit_mask_iff) simp
qed

lemma bit_int_128: "bit (128 :: int) n \<longleftrightarrow> n = 7"
proof -
  have "(128 :: int) = 2 ^ 7" by simp
  then show ?thesis by (simp only: bit_exp_iff) auto
qed

lemma less_128_bits:
  fixes v :: "'a::len word"
  assumes "unat v < 128" and "bit v n"
  shows "n < 7"
proof -
  have "take_bit 7 (unat v) = unat v" using assms(1) by (simp add: take_bit_nat_eq_self)
  moreover have "bit (unat v) n" using assms(2) by (simp add: bit_simps)
  ultimately show ?thesis by (metis bit_take_bit_iff)
qed

lemma ucast_small_byte: "v < 128 \<Longrightarrow> ucast (ucast (v :: 64 word) AND 0x7F :: byte) = (ucast v :: 'a::len word)"
  by (rule bit_word_eqI) (auto simp: bit_simps bit_int_127 word_less_nat_alt dest!: less_128_bits)

lemma ucast_low7:
  "ucast (ucast ((v :: 64 word) AND 0x7f OR 0x80) AND 0x7F :: byte) = (ucast (v AND 0x7f) :: 'a::len word)"
  by (rule bit_word_eqI) (auto simp: bit_simps bit_int_127 bit_int_128)

lemma low7_drop7:
  "push_bit s (ucast ((v :: 64 word) AND 0x7f)) OR push_bit (s + 7) (ucast (drop_bit 7 v))
    = (push_bit s (ucast v) :: 'a::len word)"
proof (rule bit_word_eqI)
  fix n
  show "bit (push_bit s (ucast (v AND 0x7f)) OR push_bit (s + 7) (ucast (drop_bit 7 v)) :: 'a word) n
      = bit (push_bit s (ucast v) :: 'a word) n"
    by (cases "s + 7 \<le> n") (auto simp: bit_simps bit_int_127 dest: bit_imp_le_length)
qed

lemma cont_byte: "\<not> (ucast ((v :: 64 word) AND 0x7f OR 0x80) :: byte) < 0x80"
  using less_128_bits [of "ucast (v AND 0x7f OR 0x80) :: byte" 7]
  by (auto simp: bit_simps bit_int_128 word_less_nat_alt)

lemma ucast_byte_less: "(v :: 64 word) < 128 \<Longrightarrow> (ucast v :: byte) < 0x80"
  by (simp add: word_less_nat_alt unsigned_ucast_eq take_bit_eq_mod)
lemma dec_varint_bytes:
  fixes acc :: "'a::len word"
  assumes "s + 7 * sovProtocolV11 v \<le> 70"
  shows "dec_varint acc s (pre @ varint_bytes v @ post) (length pre)
    = Inr (acc OR push_bit s (ucast v), length pre + sovProtocolV11 v)"
  using assms
proof (induction v arbitrary: acc s pre rule: varint_bytes.induct)
  case (1 v)
  show ?case
  proof (cases "128 \<le> v")
    case True
    let ?b = "ucast (v AND 0x7f OR 0x80) :: byte"
    let ?acc = "acc OR push_bit s (ucast (v AND 0x7f))"
    have big: "\<not> ?b < 0x80" by (rule cont_byte)
    have s: "s < 64" "s + 7 + 7 * sovProtocolV11 (drop_bit 7 v) \<le> 70"
      using "1.prems" sov_pos [of "drop_bit 7 v"] by (simp_all add: sov_large [OF True])
    from "1.IH" [OF True s(2), of ?acc "pre @ [?b]"]
    have "dec_varint ?acc (s + 7) (pre @ ?b # varint_bytes (drop_bit 7 v) @ post) (Suc (length pre))
        = Inr (acc OR push_bit s (ucast v), length pre + sovProtocolV11 v)"
      by (simp add: or.assoc low7_drop7 sov_large [OF True])
    moreover have "varint_bytes v = ?b # varint_bytes (drop_bit 7 v)"
      using True by (subst varint_bytes.simps) simp
    ultimately show ?thesis
      using big s(1) by (subst dec_varint.simps) (simp add: ucast_low7)
  next
    case False
    then have "(ucast v :: byte) < 0x80" by (simp add: ucast_byte_less)
    moreover have "varint_bytes v = [ucast v]"
      using False by (subst varint_bytes.simps) simp
    ultimately show ?thesis
      using False "1.prems" by (subst dec_varint.simps) (simp add: ucast_small_byte sov_small)
  qed
qed

text \<open>Reading at the start of an encoding with an empty accumulator.\<close>

lemma dec_varint_bytes_0 [simp]:
  "dec_varint (0 :: 'a::len word) 0 (pre @ varint_bytes v @ post) (length pre)
    = Inr (ucast v, length pre + sovProtocolV11 v)"
  using dec_varint_bytes [of 0 v "0 :: 'a word" pre post] sov_le_10 [of v] by simp

text \<open>Varints round-trip: if \<open>v\<close> fits in front of position \<open>i\<close>, the writer stores it there without
  touching any other byte, and the reader started at the returned position gives \<open>v\<close> back and stops
  exactly at \<open>i\<close>; at most 10 bytes are used, the most the reader accepts.\<close>

theorem varint_roundtrip:
  assumes "sovProtocolV11 v \<le> i" and "i \<le> length d"
  shows "\<exists>d' j. encodeVarintProtocolV11 v (d, i) = Some (d', j)
    \<and> dec_varint 0 0 d' j = Inr (v, i)
    \<and> i - j \<le> 10 \<and> length d' = length d \<and> take j d' = take j d \<and> drop i d' = drop i d"
  using dec_varint_bytes_0 [of "take (i - sovProtocolV11 v) d" v "drop i d", where ?'a = 64] sov_le_10 [of v] assms
  by (simp add: encodeVarint_eq)

theorem varint_roundtrip_witness:
  "\<exists>d' j. encodeVarintProtocolV11 300 (replicate 12 0, 11) = Some (d', j) \<and> dec_varint 0 0 d' j = Inr (300 :: 64 word, 11)"
  using varint_roundtrip [of 300 11 "replicate 12 0"] sov_le_10 [of 300] by auto

end
