(* ===== verification/Protobuf.thy ===== *)
theory Protobuf
  imports Varint
begin

unbundle bit_operations_syntax

section \<open>The generated protobuf code (protocolV11.pb.go)\<close>

text \<open>
  The four messages of \<open>protocolV11.proto\<close> with their generated \<open>Size\<close>, \<open>MarshalToSizedBuffer\<close>,
  \<open>Marshal\<close> and \<open>Unmarshal\<close> methods and \<open>skipProtocolV11\<close>. The marshalling methods fill a slice
  from its end and panic (\<open>None\<close>) when it is too small; the unmarshalling methods walk an index over
  the input. The code that the generator repeats for every field is written once:
  \<open>read_tag\<close>, \<open>read_len\<close> and \<open>skip_field\<close> for reading, \<open>put_byte\<close>, \<open>put_bytes\<close>,
  \<open>put_varint_field\<close> and \<open>put_len_field\<close> for writing.

  A slice index is a natural number. Go computes \<open>iNdEx + n\<close> in 64-bit integers and tests the sum
  for being negative: for two operands below \<open>2^63\<close> that is the case exactly when the sum is not below
  \<open>2^63\<close>, which is what \<open>idx_add\<close> tests (\<open>idx_add_wraps\<close>).
\<close>

subsection \<open>Messages\<close>

record V11Endpoint =
  ve_Host :: string
  ve_Port :: string
  ve_XXX_unrecognized :: bytes

record V11Handshake =
  vh_Type :: "32 word"
  vh_Network :: "32 word"
  vh_Version :: "32 word"
  vh_NodeID :: "32 word"
  vh_ListenPort :: string
  vh_Loopback :: "64 word"
  vh_Alternatives :: "V11Endpoint list"
  vh_XXX_unrecognized :: bytes

record V11Msg =
  vm_Type :: "32 word"
  vm_Payload :: bytes
  vm_XXX_unrecognized :: bytes

record V11Share =
  vs_Share :: "V11Endpoint list"
  vs_XXX_unrecognized :: bytes

text \<open>The zero values: \<open>new(T)\<close> and what \<open>Reset\<close> leaves.\<close>

definition new_V11Endpoint :: V11Endpoint where
  "new_V11Endpoint = \<lparr>ve_Host = [], ve_Port = [], ve_XXX_unrecognized = []\<rparr>"

definition new_V11Handshake :: V11Handshake where
  "new_V11Handshake = \<lparr>vh_Type = 0, vh_Network = 0, vh_Version = 0, vh_NodeID = 0,
     vh_ListenPort = [], vh_Loopback = 0, vh_Alternatives = [], vh_XXX_unrecognized = []\<rparr>"

definition new_V11Msg :: V11Msg where
  "new_V11Msg = \<lparr>vm_Type = 0, vm_Payload = [], vm_XXX_unrecognized = []\<rparr>"

definition new_V11Share :: V11Share where
  "new_V11Share = \<lparr>vs_Share = [], vs_XXX_unrecognized = []\<rparr>"

lemmas new_msg_defs = new_V11Endpoint_def new_V11Handshake_def new_V11Msg_def new_V11Share_def

subsection \<open>Size\<close>

definition size_varint_field :: "64 word \<Rightarrow> nat" where
  "size_varint_field v = (if v \<noteq> 0 then 1 + sovProtocolV11 v else 0)"

definition size_len :: "nat \<Rightarrow> nat" where
  "size_len l = 1 + l + sovProtocolV11 (of_nat l)"

definition size_len_field :: "nat \<Rightarrow> nat" where
  "size_len_field l = (if l > 0 then size_len l else 0)"

definition V11Endpoint_Size :: "V11Endpoint \<Rightarrow> nat" where
  "V11Endpoint_Size m =
     size_len_field (length (ve_Host m)) + size_len_field (length (ve_Port m))
     + length (ve_XXX_unrecognized m)"

definition V11Handshake_Size :: "V11Handshake \<Rightarrow> nat" where
  "V11Handshake_Size m =
     size_varint_field (ucast (vh_Type m)) + size_varint_field (ucast (vh_Network m))
     + size_varint_field (ucast (vh_Version m)) + size_varint_field (ucast (vh_NodeID m))
     + size_len_field (length (vh_ListenPort m)) + size_varint_field (vh_Loopback m)
     + sum_list (map (\<lambda>e. size_len (V11Endpoint_Size e)) (vh_Alternatives m))
     + length (vh_XXX_unrecognized m)"

definition V11Msg_Size :: "V11Msg \<Rightarrow> nat" where
  "V11Msg_Size m =
     size_varint_field (ucast (vm_Type m)) + size_len_field (length (vm_Payload m))
     + length (vm_XXX_unrecognized m)"

definition V11Share_Size :: "V11Share \<Rightarrow> nat" where
  "V11Share_Size m =
     sum_list (map (\<lambda>e. size_len (V11Endpoint_Size e)) (vs_Share m))
     + length (vs_XXX_unrecognized m)"

subsection \<open>Marshalling into a slice, from its end\<close>

text \<open>\<open>i--; dAtA[i] = b\<close>.\<close>

definition put_byte :: "byte \<Rightarrow> sized_buf \<Rightarrow> sized_buf option" where
  "put_byte b s = (let (dAtA, i) = s in if i = 0 then None else Some (dAtA[i - 1 := b], i - 1))"

text \<open>\<open>i -= len(src); copy(dAtA[i:], src)\<close>.\<close>

definition put_bytes :: "bytes \<Rightarrow> sized_buf \<Rightarrow> sized_buf option" where
  "put_bytes src s =
     (let (dAtA, i) = s in
      if i < length src then None
      else Some (take (i - length src) dAtA @ src @ drop i dAtA, i - length src))"

definition put_varint_field :: "byte \<Rightarrow> 64 word \<Rightarrow> sized_buf \<Rightarrow> sized_buf option" where
  "put_varint_field tag v s =
     (if v \<noteq> 0 then Option.bind (encodeVarintProtocolV11 v s) (put_byte tag) else Some s)"

definition put_len_field :: "byte \<Rightarrow> bytes \<Rightarrow> sized_buf \<Rightarrow> sized_buf option" where
  "put_len_field tag src s =
     (if length src > 0 then
        Option.bind (put_bytes src s) (\<lambda>s.
        Option.bind (encodeVarintProtocolV11 (of_nat (length src)) s) (put_byte tag))
      else Some s)"

definition V11Endpoint_MarshalToSizedBuffer :: "V11Endpoint \<Rightarrow> bytes \<Rightarrow> (bytes \<times> nat) option" where
  "V11Endpoint_MarshalToSizedBuffer m dAtA =
     Option.bind (put_bytes (ve_XXX_unrecognized m) (dAtA, length dAtA)) (\<lambda>s.
     Option.bind (put_len_field 0x12 (string_bytes (ve_Port m)) s) (\<lambda>s.
     Option.bind (put_len_field 0x0a (string_bytes (ve_Host m)) s) (\<lambda>(d, i).
     Some (d, length dAtA - i))))"

text \<open>One turn of the loop over a repeated message field: the element is marshalled into
  \<open>dAtA[:i]\<close>, then its size and the tag are put in front.\<close>

definition put_endpoint :: "byte \<Rightarrow> V11Endpoint \<Rightarrow> sized_buf \<Rightarrow> sized_buf option" where
  "put_endpoint tag e s =
     (let (dAtA, i) = s in
      Option.bind (V11Endpoint_MarshalToSizedBuffer e (take i dAtA)) (\<lambda>(d, size).
      if i < size then None
      else Option.bind (encodeVarintProtocolV11 (of_nat size) (d @ drop i dAtA, i - size))
             (put_byte tag)))"

text \<open>The loop runs from the last element to the first.\<close>

primrec put_endpoints :: "byte \<Rightarrow> V11Endpoint list \<Rightarrow> sized_buf \<Rightarrow> sized_buf option" where
  "put_endpoints tag [] s = Some s"
| "put_endpoints tag (e # es) s = Option.bind (put_endpoints tag es s) (put_endpoint tag e)"

definition V11Handshake_MarshalToSizedBuffer :: "V11Handshake \<Rightarrow> bytes \<Rightarrow> (bytes \<times> nat) option" where
  "V11Handshake_MarshalToSizedBuffer m dAtA =
     Option.bind (put_bytes (vh_XXX_unrecognized m) (dAtA, length dAtA)) (\<lambda>s.
     Option.bind (put_endpoints 0x3a (vh_Alternatives m) s) (\<lambda>s.
     Option.bind (put_varint_field 0x30 (vh_Loopback m) s) (\<lambda>s.
     Option.bind (put_len_field 0x2a (string_bytes (vh_ListenPort m)) s) (\<lambda>s.
     Option.bind (put_varint_field 0x20 (ucast (vh_NodeID m)) s) (\<lambda>s.
     Option.bind (put_varint_field 0x18 (ucast (vh_Version m)) s) (\<lambda>s.
     Option.bind (put_varint_field 0x10 (ucast (vh_Network m)) s) (\<lambda>s.
     Option.bind (put_varint_field 0x08 (ucast (vh_Type m)) s) (\<lambda>(d, i).
     Some (d, length dAtA - i)))))))))"

definition V11Msg_MarshalToSizedBuffer :: "V11Msg \<Rightarrow> bytes \<Rightarrow> (bytes \<times> nat) option" where
  "V11Msg_MarshalToSizedBuffer m dAtA =
     Option.bind (put_bytes (vm_XXX_unrecognized m) (dAtA, length dAtA)) (\<lambda>s.
     Option.bind (put_len_field 0x12 (vm_Payload m) s) (\<lambda>s.
     Option.bind (put_varint_field 0x08 (ucast (vm_Type m)) s) (\<lambda>(d, i).
     Some (d, length dAtA - i))))"

definition V11Share_MarshalToSizedBuffer :: "V11Share \<Rightarrow> bytes \<Rightarrow> (bytes \<times> nat) option" where
  "V11Share_MarshalToSizedBuffer m dAtA =
     Option.bind (put_bytes (vs_XXX_unrecognized m) (dAtA, length dAtA)) (\<lambda>s.
     Option.bind (put_endpoints 0x0a (vs_Share m) s) (\<lambda>(d, i).
     Some (d, length dAtA - i)))"

text \<open>\<open>Marshal\<close>: a slice of \<open>Size()\<close> zero bytes, filled, of which the first \<open>n\<close> are returned.\<close>

definition V11Endpoint_Marshal :: "V11Endpoint \<Rightarrow> bytes option" where
  "V11Endpoint_Marshal m =
     map_option (\<lambda>(d, n). take n d)
       (V11Endpoint_MarshalToSizedBuffer m (replicate (V11Endpoint_Size m) 0))"

definition V11Handshake_Marshal :: "V11Handshake \<Rightarrow> bytes option" where
  "V11Handshake_Marshal m =
     map_option (\<lambda>(d, n). take n d)
       (V11Handshake_MarshalToSizedBuffer m (replicate (V11Handshake_Size m) 0))"

definition V11Msg_Marshal :: "V11Msg \<Rightarrow> bytes option" where
  "V11Msg_Marshal m =
     map_option (\<lambda>(d, n). take n d)
       (V11Msg_MarshalToSizedBuffer m (replicate (V11Msg_Size m) 0))"

definition V11Share_Marshal :: "V11Share \<Rightarrow> bytes option" where
  "V11Share_Marshal m =
     map_option (\<lambda>(d, n). take n d)
       (V11Share_MarshalToSizedBuffer m (replicate (V11Share_Size m) 0))"

subsection \<open>Skipping a field\<close>

definition idx_add :: "nat \<Rightarrow> nat \<Rightarrow> nat option" where
  "idx_add i n = (if i + n < 2 ^ 63 then Some (i + n) else None)"

lemma idx_add_wraps:
  assumes "i < 2 ^ 63" and "n < 2 ^ 63"
  shows "go_int (int i + int n) < 0 \<longleftrightarrow> idx_add i n = None"
    and "idx_add i n = Some j \<Longrightarrow> go_int (int i + int n) = int j"
proof -
  have "go_int (int i + int n) = int i + int n - 2 ^ 64" if "2 ^ 63 \<le> i + n"
  proof -
    let ?y = "int i + int n + 2 ^ 63"
    have "?y mod 2 ^ 64 = (?y - 2 ^ 64) mod 2 ^ 64" by (rule minus_mod_self2 [symmetric])
    also have "\<dots> = ?y - 2 ^ 64" using that assms by (intro mod_pos_pos_trivial) simp_all
    finally show ?thesis by (simp add: go_int_def)
  qed
  moreover have "go_int (int i + int n) = int i + int n" if "i + n < 2 ^ 63"
    using that by (intro go_int_id) auto
  ultimately show "go_int (int i + int n) < 0 \<longleftrightarrow> idx_add i n = None"
    and "idx_add i n = Some j \<Longrightarrow> go_int (int i + int n) = int j"
    using assms by (auto simp: idx_add_def split: if_splits)
qed

text \<open>One turn of the loop of \<open>skipProtocolV11\<close>: the new index and the new group depth.\<close>

definition skip_step :: "bytes \<Rightarrow> nat \<Rightarrow> nat \<Rightarrow> pb_error + (nat \<times> nat)" where
  "skip_step dAtA i depth =
     bindR (dec_varint (0 :: 64 word) 0 dAtA i) (\<lambda>(wire, i1).
     let wireType = unat (wire AND 7);
         move = (\<lambda>j n. case idx_add j n of None \<Rightarrow> Inl ErrInvalidLength | Some k \<Rightarrow> Inr (k, depth))
     in if wireType = 0 then bindR (dec_varint (0 :: 64 word) 0 dAtA i1) (\<lambda>(_, i2). Inr (i2, depth))
        else if wireType = 1 then move i1 8
        else if wireType = 2 then
          bindR (dec_varint (0 :: 64 word) 0 dAtA i1) (\<lambda>(n, i2).
          if sint n < 0 then Inl ErrInvalidLength else move i2 (nat (sint n)))
        else if wireType = 3 then Inr (i1, depth + 1)
        else if wireType = 4 then
          (if depth = 0 then Inl ErrUnexpectedEndOfGroup else Inr (i1, depth - 1))
        else if wireType = 5 then move i1 4
        else Inl ErrIllegalWireType)"

lemma idx_add_SomeD: "idx_add i n = Some j \<Longrightarrow> j = i + n"
  by (simp add: idx_add_def split: if_splits)

lemma skip_step_progress: "skip_step d i depth = Inr (j, depth') \<Longrightarrow> i < j"
  by (auto simp: skip_step_def bindR_Inr_iff Let_def split: if_splits option.splits
      dest!: dec_varint_progress idx_add_SomeD)

function skip_loop :: "bytes \<Rightarrow> nat \<Rightarrow> nat \<Rightarrow> pb_error + nat" where
  "skip_loop dAtA i depth =
     (if i < length dAtA then
        bindR (skip_step dAtA i depth) (\<lambda>(j, depth').
        if depth' = 0 then Inr j else skip_loop dAtA j depth')
      else Inl ErrUnexpectedEOF)"
  by pat_completeness auto
termination
  by (relation "measure (\<lambda>(d, i, _). length d - i)") (auto dest!: skip_step_progress)

declare skip_loop.simps [simp del]

definition skipProtocolV11 :: "bytes \<Rightarrow> pb_error + nat" where
  "skipProtocolV11 dAtA = skip_loop dAtA 0 0"

subsection \<open>Unmarshalling\<close>

definition slice :: "bytes \<Rightarrow> nat \<Rightarrow> nat \<Rightarrow> bytes" where
  "slice d i j = take (j - i) (drop i d)"

text \<open>The tag of a field: its number, its wire type and the index after it.\<close>

definition read_tag :: "bytes \<Rightarrow> nat \<Rightarrow> pb_error + (int \<times> nat \<times> nat)" where
  "read_tag dAtA i =
     bindR (dec_varint (0 :: 64 word) 0 dAtA i) (\<lambda>(wire, j).
     let fieldNum = sint (ucast (drop_bit 3 wire) :: 32 word); wireType = unat (wire AND 7)
     in if wireType = 4 then Inl ErrEndGroup
        else if fieldNum \<le> 0 then Inl ErrIllegalTag
        else Inr (fieldNum, wireType, j))"

text \<open>The length of a length-delimited field: the indexes where its bytes start and end.\<close>

definition read_len :: "bytes \<Rightarrow> nat \<Rightarrow> pb_error + (nat \<times> nat)" where
  "read_len dAtA i =
     bindR (dec_varint (0 :: 64 word) 0 dAtA i) (\<lambda>(n, j).
     if sint n < 0 then Inl ErrInvalidLength
     else case idx_add j (nat (sint n)) of
       None \<Rightarrow> Inl ErrInvalidLength
     | Some postIndex \<Rightarrow> if length dAtA < postIndex then Inl ErrUnexpectedEOF else Inr (j, postIndex))"

text \<open>The \<open>default\<close> case: the index after an unknown field that starts at \<open>preIndex\<close>.\<close>

definition skip_field :: "bytes \<Rightarrow> nat \<Rightarrow> pb_error + nat" where
  "skip_field dAtA preIndex =
     bindR (skipProtocolV11 (drop preIndex dAtA)) (\<lambda>skippy.
     case idx_add preIndex skippy of
       None \<Rightarrow> Inl ErrInvalidLength
     | Some j \<Rightarrow> if length dAtA < j then Inl ErrUnexpectedEOF else Inr j)"

lemma read_tag_progress: "read_tag d i = Inr (f, w, j) \<Longrightarrow> i < j \<and> j \<le> length d"
  by (auto simp: read_tag_def bindR_Inr_iff Let_def split: if_splits dest!: dec_varint_progress)

lemma read_len_progress: "read_len d i = Inr (a, b) \<Longrightarrow> i < a \<and> a \<le> b \<and> b \<le> length d"
  by (auto simp: read_len_def bindR_Inr_iff split: if_splits option.splits
      dest!: dec_varint_progress idx_add_SomeD)

lemma skip_loop_progress: "skip_loop d i depth = Inr j \<Longrightarrow> i < j"
proof (induction d i depth arbitrary: j rule: skip_loop.induct)
  case (1 d i depth)
  from "1.prems" have lt: "i < length d" and b: "bindR (skip_step d i depth)
      (\<lambda>(j, depth'). if depth' = 0 then Inr j else skip_loop d j depth') = Inr j"
    unfolding skip_loop.simps [of d i depth] by (simp_all split: if_splits)
  from b obtain k dep where k: "skip_step d i depth = Inr (k, dep)"
    and rest: "(if dep = 0 then Inr k else skip_loop d k dep) = Inr j"
    unfolding bindR_Inr_iff by auto
  from k have "i < k" by (rule skip_step_progress)
  with rest "1.IH" [OF lt k refl, of j] show ?case by (auto split: if_splits)
qed

lemma skip_field_progress: "skip_field d i = Inr j \<Longrightarrow> i < j \<and> j \<le> length d"
  by (auto simp: skip_field_def skipProtocolV11_def bindR_Inr_iff split: if_splits option.splits
      dest!: skip_loop_progress idx_add_SomeD)

lemmas pb_progress = read_tag_progress read_len_progress skip_field_progress dec_varint_progress

text \<open>One turn of the loop of each \<open>Unmarshal\<close>: the message so far and the next index.\<close>

definition V11Endpoint_step :: "V11Endpoint \<Rightarrow> bytes \<Rightarrow> nat \<Rightarrow> pb_error + (V11Endpoint \<times> nat)" where
  "V11Endpoint_step m dAtA i =
     bindR (read_tag dAtA i) (\<lambda>(fieldNum, wireType, j).
     if fieldNum = 1 then
       (if wireType \<noteq> 2 then Inl ErrWrongWireType
        else bindR (read_len dAtA j) (\<lambda>(a, b). Inr (m\<lparr>ve_Host := bytes_string (slice dAtA a b)\<rparr>, b)))
     else if fieldNum = 2 then
       (if wireType \<noteq> 2 then Inl ErrWrongWireType
        else bindR (read_len dAtA j) (\<lambda>(a, b). Inr (m\<lparr>ve_Port := bytes_string (slice dAtA a b)\<rparr>, b)))
     else bindR (skip_field dAtA i) (\<lambda>k.
       Inr (m\<lparr>ve_XXX_unrecognized := ve_XXX_unrecognized m @ slice dAtA i k\<rparr>, k)))"

lemma V11Endpoint_step_progress: "V11Endpoint_step m d i = Inr (m', j) \<Longrightarrow> i < j \<and> j \<le> length d"
  by (auto simp: V11Endpoint_step_def bindR_Inr_iff split: if_splits dest!: pb_progress)

function V11Endpoint_loop :: "V11Endpoint \<Rightarrow> bytes \<Rightarrow> nat \<Rightarrow> pb_error + V11Endpoint" where
  "V11Endpoint_loop m dAtA i =
     (if i < length dAtA then bindR (V11Endpoint_step m dAtA i) (\<lambda>(m', j). V11Endpoint_loop m' dAtA j)
      else if length dAtA < i then Inl ErrUnexpectedEOF
      else Inr m)"
  by pat_completeness auto
termination
  by (relation "measure (\<lambda>(_, d, i). length d - i)") (auto dest!: V11Endpoint_step_progress)

declare V11Endpoint_loop.simps [simp del]

definition V11Endpoint_Unmarshal :: "V11Endpoint \<Rightarrow> bytes \<Rightarrow> pb_error + V11Endpoint" where
  "V11Endpoint_Unmarshal m dAtA = V11Endpoint_loop m dAtA 0"

text \<open>A field that holds an endpoint: a fresh \<open>V11Endpoint\<close> is unmarshalled from its bytes.\<close>

definition read_endpoint :: "bytes \<Rightarrow> nat \<Rightarrow> pb_error + (V11Endpoint \<times> nat)" where
  "read_endpoint dAtA j =
     bindR (read_len dAtA j) (\<lambda>(a, b).
     bindR (V11Endpoint_Unmarshal new_V11Endpoint (slice dAtA a b)) (\<lambda>e. Inr (e, b)))"

lemma read_endpoint_progress: "read_endpoint d i = Inr (e, j) \<Longrightarrow> i < j \<and> j \<le> length d"
  by (auto simp: read_endpoint_def bindR_Inr_iff dest!: read_len_progress)

definition V11Handshake_step :: "V11Handshake \<Rightarrow> bytes \<Rightarrow> nat \<Rightarrow> pb_error + (V11Handshake \<times> nat)" where
  "V11Handshake_step m dAtA i =
     bindR (read_tag dAtA i) (\<lambda>(fieldNum, wireType, j).
     if fieldNum = 1 then
       (if wireType \<noteq> 0 then Inl ErrWrongWireType
        else bindR (dec_varint 0 0 dAtA j) (\<lambda>(v, k). Inr (m\<lparr>vh_Type := v\<rparr>, k)))
     else if fieldNum = 2 then
       (if wireType \<noteq> 0 then Inl ErrWrongWireType
        else bindR (dec_varint 0 0 dAtA j) (\<lambda>(v, k). Inr (m\<lparr>vh_Network := v\<rparr>, k)))
     else if fieldNum = 3 then
       (if wireType \<noteq> 0 then Inl ErrWrongWireType
        else bindR (dec_varint 0 0 dAtA j) (\<lambda>(v, k). Inr (m\<lparr>vh_Version := v\<rparr>, k)))
     else if fieldNum = 4 then
       (if wireType \<noteq> 0 then Inl ErrWrongWireType
        else bindR (dec_varint 0 0 dAtA j) (\<lambda>(v, k). Inr (m\<lparr>vh_NodeID := v\<rparr>, k)))
     else if fieldNum = 5 then
       (if wireType \<noteq> 2 then Inl ErrWrongWireType
        else bindR (read_len dAtA j) (\<lambda>(a, b). Inr (m\<lparr>vh_ListenPort := bytes_string (slice dAtA a b)\<rparr>, b)))
     else if fieldNum = 6 then
       (if wireType \<noteq> 0 then Inl ErrWrongWireType
        else bindR (dec_varint 0 0 dAtA j) (\<lambda>(v, k). Inr (m\<lparr>vh_Loopback := v\<rparr>, k)))
     else if fieldNum = 7 then
       (if wireType \<noteq> 2 then Inl ErrWrongWireType
        else bindR (read_endpoint dAtA j) (\<lambda>(e, k). Inr (m\<lparr>vh_Alternatives := vh_Alternatives m @ [e]\<rparr>, k)))
     else bindR (skip_field dAtA i) (\<lambda>k.
       Inr (m\<lparr>vh_XXX_unrecognized := vh_XXX_unrecognized m @ slice dAtA i k\<rparr>, k)))"

lemma V11Handshake_step_progress: "V11Handshake_step m d i = Inr (m', j) \<Longrightarrow> i < j \<and> j \<le> length d"
  by (auto simp: V11Handshake_step_def bindR_Inr_iff split: if_splits
      dest!: pb_progress read_endpoint_progress)

function V11Handshake_loop :: "V11Handshake \<Rightarrow> bytes \<Rightarrow> nat \<Rightarrow> pb_error + V11Handshake" where
  "V11Handshake_loop m dAtA i =
     (if i < length dAtA then bindR (V11Handshake_step m dAtA i) (\<lambda>(m', j). V11Handshake_loop m' dAtA j)
      else if length dAtA < i then Inl ErrUnexpectedEOF
      else Inr m)"
  by pat_completeness auto
termination
  by (relation "measure (\<lambda>(_, d, i). length d - i)") (auto dest!: V11Handshake_step_progress)

declare V11Handshake_loop.simps [simp del]

definition V11Handshake_Unmarshal :: "V11Handshake \<Rightarrow> bytes \<Rightarrow> pb_error + V11Handshake" where
  "V11Handshake_Unmarshal m dAtA = V11Handshake_loop m dAtA 0"

definition V11Msg_step :: "V11Msg \<Rightarrow> bytes \<Rightarrow> nat \<Rightarrow> pb_error + (V11Msg \<times> nat)" where
  "V11Msg_step m dAtA i =
     bindR (read_tag dAtA i) (\<lambda>(fieldNum, wireType, j).
     if fieldNum = 1 then
       (if wireType \<noteq> 0 then Inl ErrWrongWireType
        else bindR (dec_varint 0 0 dAtA j) (\<lambda>(v, k). Inr (m\<lparr>vm_Type := v\<rparr>, k)))
     else if fieldNum = 2 then
       (if wireType \<noteq> 2 then Inl ErrWrongWireType
        else bindR (read_len dAtA j) (\<lambda>(a, b). Inr (m\<lparr>vm_Payload := slice dAtA a b\<rparr>, b)))
     else bindR (skip_field dAtA i) (\<lambda>k.
       Inr (m\<lparr>vm_XXX_unrecognized := vm_XXX_unrecognized m @ slice dAtA i k\<rparr>, k)))"

lemma V11Msg_step_progress: "V11Msg_step m d i = Inr (m', j) \<Longrightarrow> i < j \<and> j \<le> length d"
  by (auto simp: V11Msg_step_def bindR_Inr_iff split: if_splits dest!: pb_progress)

function V11Msg_loop :: "V11Msg \<Rightarrow> bytes \<Rightarrow> nat \<Rightarrow> pb_error + V11Msg" where
  "V11Msg_loop m dAtA i =
     (if i < length dAtA then bindR (V11Msg_step m dAtA i) (\<lambda>(m', j). V11Msg_loop m' dAtA j)
      else if length dAtA < i then Inl ErrUnexpectedEOF
      else Inr m)"
  by pat_completeness auto
termination
  by (relation "measure (\<lambda>(_, d, i). length d - i)") (auto dest!: V11Msg_step_progress)

declare V11Msg_loop.simps [simp del]

definition V11Msg_Unmarshal :: "V11Msg \<Rightarrow> bytes \<Rightarrow> pb_error + V11Msg" where
  "V11Msg_Unmarshal m dAtA = V11Msg_loop m dAtA 0"

definition V11Share_step :: "V11Share \<Rightarrow> bytes \<Rightarrow> nat \<Rightarrow> pb_error + (V11Share \<times> nat)" where
  "V11Share_step m dAtA i =
     bindR (read_tag dAtA i) (\<lambda>(fieldNum, wireType, j).
     if fieldNum = 1 then
       (if wireType \<noteq> 2 then Inl ErrWrongWireType
        else bindR (read_endpoint dAtA j) (\<lambda>(e, k). Inr (m\<lparr>vs_Share := vs_Share m @ [e]\<rparr>, k)))
     else bindR (skip_field dAtA i) (\<lambda>k.
       Inr (m\<lparr>vs_XXX_unrecognized := vs_XXX_unrecognized m @ slice dAtA i k\<rparr>, k)))"

lemma V11Share_step_progress: "V11Share_step m d i = Inr (m', j) \<Longrightarrow> i < j \<and> j \<le> length d"
  by (auto simp: V11Share_step_def bindR_Inr_iff split: if_splits
      dest!: pb_progress read_endpoint_progress)

function V11Share_loop :: "V11Share \<Rightarrow> bytes \<Rightarrow> nat \<Rightarrow> pb_error + V11Share" where
  "V11Share_loop m dAtA i =
     (if i < length dAtA then bindR (V11Share_step m dAtA i) (\<lambda>(m', j). V11Share_loop m' dAtA j)
      else if length dAtA < i then Inl ErrUnexpectedEOF
      else Inr m)"
  by pat_completeness auto
termination
  by (relation "measure (\<lambda>(_, d, i). length d - i)") (auto dest!: V11Share_step_progress)

declare V11Share_loop.simps [simp del]

definition V11Share_Unmarshal :: "V11Share \<Rightarrow> bytes \<Rightarrow> pb_error + V11Share" where
  "V11Share_Unmarshal m dAtA = V11Share_loop m dAtA 0"

end
