(* ===== verification/Protobuf_Codec.thy ===== *)
theory Protobuf_Codec
  imports Protobuf
begin

unbundle bit_operations_syntax

section \<open>Correctness of the generated protobuf code\<close>

text \<open>
  The marshalling methods fill a slice backwards with loops and index arithmetic; the reference
  encodings \<open>enc_*\<close> are plain concatenations. Two interfaces carry the proofs:

  \<^item> \<open>sized_marshaller\<close>: a method that writes a reference encoding at the end of a slice. Its client
    is the \<open>Marshal\<close> method, which allocates the slice with \<open>Size\<close>.
  \<^item> \<open>field_loop\<close>: a loop that consumes one field per turn. Its client lemmas compose: reading the
    concatenation of two encodings is reading the first, then the second.

  Both are interpreted for all four messages.
\<close>

subsection \<open>Reference encodings\<close>

definition enc_varint_field :: "byte \<Rightarrow> 64 word \<Rightarrow> bytes" where
  "enc_varint_field tag v = (if v = 0 then [] else tag # varint_bytes v)"

definition enc_len :: "byte \<Rightarrow> bytes \<Rightarrow> bytes" where
  "enc_len tag bs = tag # varint_bytes (of_nat (length bs)) @ bs"

definition enc_len_field :: "byte \<Rightarrow> bytes \<Rightarrow> bytes" where
  "enc_len_field tag bs = (if bs = [] then [] else enc_len tag bs)"

definition enc_V11Endpoint :: "V11Endpoint \<Rightarrow> bytes" where
  "enc_V11Endpoint m = enc_len_field 0x0a (string_bytes (ve_Host m))
     @ enc_len_field 0x12 (string_bytes (ve_Port m)) @ ve_XXX_unrecognized m"

definition enc_endpoints :: "byte \<Rightarrow> V11Endpoint list \<Rightarrow> bytes" where
  "enc_endpoints tag es = concat (map (\<lambda>e. enc_len tag (enc_V11Endpoint e)) es)"

definition enc_V11Handshake :: "V11Handshake \<Rightarrow> bytes" where
  "enc_V11Handshake m = enc_varint_field 0x08 (ucast (vh_Type m))
     @ enc_varint_field 0x10 (ucast (vh_Network m)) @ enc_varint_field 0x18 (ucast (vh_Version m))
     @ enc_varint_field 0x20 (ucast (vh_NodeID m))
     @ enc_len_field 0x2a (string_bytes (vh_ListenPort m))
     @ enc_varint_field 0x30 (vh_Loopback m) @ enc_endpoints 0x3a (vh_Alternatives m)
     @ vh_XXX_unrecognized m"

definition enc_V11Msg :: "V11Msg \<Rightarrow> bytes" where
  "enc_V11Msg m = enc_varint_field 0x08 (ucast (vm_Type m)) @ enc_len_field 0x12 (vm_Payload m)
     @ vm_XXX_unrecognized m"

definition enc_V11Share :: "V11Share \<Rightarrow> bytes" where
  "enc_V11Share m = enc_endpoints 0x0a (vs_Share m) @ vs_XXX_unrecognized m"

subsection \<open>Sizes\<close>

lemma length_enc_varint_field [simp]: "length (enc_varint_field t v) = size_varint_field v"
  by (simp add: enc_varint_field_def size_varint_field_def)

lemma length_enc_len [simp]: "length (enc_len t bs) = size_len (length bs)"
  by (simp add: enc_len_def size_len_def)

lemma length_enc_len_field [simp]: "length (enc_len_field t bs) = size_len_field (length bs)"
  by (simp add: enc_len_field_def size_len_field_def)

lemma V11Endpoint_Size_eq: "V11Endpoint_Size m = length (enc_V11Endpoint m)"
  by (simp add: V11Endpoint_Size_def enc_V11Endpoint_def)

lemma length_enc_endpoints:
  "length (enc_endpoints t es) = sum_list (map (\<lambda>e. size_len (V11Endpoint_Size e)) es)"
  by (induction es) (simp_all add: enc_endpoints_def V11Endpoint_Size_eq)

lemma V11Handshake_Size_eq: "V11Handshake_Size m = length (enc_V11Handshake m)"
  by (simp add: V11Handshake_Size_def enc_V11Handshake_def length_enc_endpoints)

lemma V11Msg_Size_eq: "V11Msg_Size m = length (enc_V11Msg m)"
  by (simp add: V11Msg_Size_def enc_V11Msg_def)

lemma V11Share_Size_eq: "V11Share_Size m = length (enc_V11Share m)"
  by (simp add: V11Share_Size_def enc_V11Share_def length_enc_endpoints)

subsection \<open>What the writers put in front of the index\<close>

text \<open>\<open>fills f x\<close>: wherever there is room, \<open>f\<close> writes \<open>x\<close> directly in front of the index.\<close>

definition fills :: "(sized_buf \<Rightarrow> sized_buf option) \<Rightarrow> bytes \<Rightarrow> bool" where
  "fills f x \<longleftrightarrow> (\<forall>d i. length x \<le> i \<longrightarrow> i \<le> length d \<longrightarrow>
     f (d, i) = Some (take (i - length x) d @ x @ drop i d, i - length x))"

lemma fillsD:
  "fills f x \<Longrightarrow> length x \<le> i \<Longrightarrow> i \<le> length d \<Longrightarrow>
    f (d, i) = Some (take (i - length x) d @ x @ drop i d, i - length x)"
  by (simp add: fills_def)

lemma fills_Some [simp]: "fills Some []"
  by (simp add: fills_def)

lemma fills_bind:
  assumes f: "fills f x" and g: "fills g y"
  shows "fills (\<lambda>s. Option.bind (f s) g) (y @ x)"
  unfolding fills_def
proof (intro allI impI)
  fix d :: bytes and i
  assume le: "length (y @ x) \<le> i" "i \<le> length d"
  let ?d = "take (i - length x) d @ x @ drop i d"
  have "g (?d, i - length x)
      = Some (take (i - length x - length y) ?d @ y @ drop (i - length x) ?d, i - length x - length y)"
    by (rule fillsD [OF g]) (use le in auto)
  also have "take (i - length x - length y) ?d = take (i - length (y @ x)) d"
    using le by (simp add: min_absorb1 min_absorb2 diff_diff_left add.commute)
  also have "drop (i - length x) ?d = x @ drop i d"
    using le by simp
  finally show "Option.bind (f (d, i)) g
      = Some (take (i - length (y @ x)) d @ (y @ x) @ drop i d, i - length (y @ x))"
    using fillsD [OF f, of i d] le by (simp add: diff_diff_left add.commute)
qed

lemma fills_put_byte: "fills (put_byte b) [b]"
  unfolding fills_def
proof (intro allI impI)
  fix d :: bytes and i
  assume "length [b] \<le> i" "i \<le> length d"
  then show "put_byte b (d, i) = Some (take (i - length [b]) d @ [b] @ drop i d, i - length [b])"
    by (simp add: put_byte_def upd_conv_take_nth_drop)
qed

lemma fills_put_bytes: "fills (put_bytes bs) bs"
  by (auto simp: fills_def put_bytes_def)

lemma fills_encodeVarint: "fills (encodeVarintProtocolV11 v) (varint_bytes v)"
  by (auto simp: fills_def encodeVarint_eq)

lemma fills_put_varint_field: "fills (put_varint_field t v) (enc_varint_field t v)"
proof (cases "v = 0")
  case False
  have "fills (\<lambda>s. Option.bind (encodeVarintProtocolV11 v s) (put_byte t)) ([t] @ varint_bytes v)"
    by (intro fills_bind fills_encodeVarint fills_put_byte)
  with False show ?thesis by (simp add: put_varint_field_def [abs_def] enc_varint_field_def)
qed (simp add: put_varint_field_def [abs_def] enc_varint_field_def)

lemma fills_put_len_field: "fills (put_len_field t bs) (enc_len_field t bs)"
proof (cases "bs = []")
  case False
  have "fills (\<lambda>s. Option.bind (put_bytes bs s) (\<lambda>s.
      Option.bind (encodeVarintProtocolV11 (of_nat (length bs)) s) (put_byte t)))
    (([t] @ varint_bytes (of_nat (length bs))) @ bs)"
    by (intro fills_bind fills_put_bytes fills_encodeVarint fills_put_byte)
  with False show ?thesis by (simp add: put_len_field_def [abs_def] enc_len_field_def enc_len_def)
qed (simp add: put_len_field_def [abs_def] enc_len_field_def)

text \<open>A whole method: it starts at the end of the slice and returns the number of bytes written.\<close>

definition marshals :: "(bytes \<Rightarrow> (bytes \<times> nat) option) \<Rightarrow> bytes \<Rightarrow> bool" where
  "marshals f x \<longleftrightarrow> (\<forall>d. length x \<le> length d \<longrightarrow>
     f d = Some (take (length d - length x) d @ x, length x))"

lemma fills_marshals:
  assumes "fills f x"
  shows "marshals (\<lambda>d. Option.bind (f (d, length d)) (\<lambda>(d', i). Some (d', length d - i))) x"
  using assms by (auto simp: marshals_def fillsD)

locale sized_marshaller =
  fixes Size :: "'m \<Rightarrow> nat"
    and MarshalToSizedBuffer :: "'m \<Rightarrow> bytes \<Rightarrow> (bytes \<times> nat) option"
    and enc :: "'m \<Rightarrow> bytes"
  assumes Size_eq: "Size m = length (enc m)"
    and writes: "marshals (MarshalToSizedBuffer m) (enc m)"
begin

text \<open>\<open>Marshal\<close> never panics and returns the reference encoding.\<close>

lemma marshal_eq:
  "map_option (\<lambda>(d, n). take n d) (MarshalToSizedBuffer m (replicate (Size m) 0)) = Some (enc m)"
  using writes [of m] by (simp add: marshals_def Size_eq)

end

lemma bind_assoc2: "Option.bind (Option.bind x f) g = Option.bind x (\<lambda>y. Option.bind (f y) g)"
  by (cases x) auto

lemma V11Endpoint_writes: "marshals (V11Endpoint_MarshalToSizedBuffer m) (enc_V11Endpoint m)"
proof -
  have "fills (\<lambda>s. Option.bind (put_bytes (ve_XXX_unrecognized m) s) (\<lambda>s.
      Option.bind (put_len_field 0x12 (string_bytes (ve_Port m)) s)
        (put_len_field 0x0a (string_bytes (ve_Host m)))))
    ((enc_len_field 0x0a (string_bytes (ve_Host m)) @ enc_len_field 0x12 (string_bytes (ve_Port m)))
      @ ve_XXX_unrecognized m)"
    by (intro fills_bind fills_put_bytes fills_put_len_field)
  from fills_marshals [OF this] show ?thesis
    by (simp add: V11Endpoint_MarshalToSizedBuffer_def [abs_def] enc_V11Endpoint_def bind_assoc2)
qed

interpretation endpoint_marshal:
  sized_marshaller V11Endpoint_Size V11Endpoint_MarshalToSizedBuffer enc_V11Endpoint
  by unfold_locales (simp_all add: V11Endpoint_Size_eq V11Endpoint_writes)

lemma fills_put_endpoint: "fills (put_endpoint t e) (enc_len t (enc_V11Endpoint e))"
  unfolding fills_def
proof (intro allI impI)
  fix d :: bytes and i
  let ?x = "enc_V11Endpoint e" and ?v = "of_nat (length (enc_V11Endpoint e)) :: 64 word"
  assume le: "length (enc_len t ?x) \<le> i" "i \<le> length d"
  then have room: "length ?x \<le> i" by (simp add: size_len_def)
  have sub: "V11Endpoint_MarshalToSizedBuffer e (take i d)
      = Some (take (i - length ?x) d @ ?x, length ?x)"
    using V11Endpoint_writes [of e] le(2) room by (simp add: marshals_def min_absorb1 min_absorb2)
  have "fills (\<lambda>s. Option.bind (put_bytes ?x s) (\<lambda>s.
      Option.bind (encodeVarintProtocolV11 ?v s) (put_byte t))) (([t] @ varint_bytes ?v) @ ?x)"
    by (intro fills_bind fills_put_bytes fills_encodeVarint fills_put_byte)
  from fillsD [OF this, of i d] le sub room
  show "put_endpoint t e (d, i) = Some (take (i - length (enc_len t ?x)) d @ enc_len t ?x @ drop i d,
      i - length (enc_len t ?x))"
    by (simp add: put_endpoint_def put_bytes_def enc_len_def size_len_def)
qed

lemma fills_put_endpoints: "fills (put_endpoints t es) (enc_endpoints t es)"
proof (induction es)
  case Nil
  have "put_endpoints t [] = Some" by (rule ext) simp
  then show ?case by (simp add: enc_endpoints_def)
next
  case (Cons e es)
  have "put_endpoints t (e # es) = (\<lambda>s. Option.bind (put_endpoints t es s) (put_endpoint t e))"
    by (rule ext) simp
  with fills_bind [OF Cons fills_put_endpoint [of t e]] show ?case
    by (simp add: enc_endpoints_def)
qed

lemmas fills_intros = fills_bind fills_put_bytes fills_put_endpoints fills_put_len_field
  fills_put_varint_field

lemma V11Handshake_writes: "marshals (V11Handshake_MarshalToSizedBuffer m) (enc_V11Handshake m)"
proof -
  have "fills (\<lambda>s. Option.bind (put_bytes (vh_XXX_unrecognized m) s) (\<lambda>s.
     Option.bind (put_endpoints 0x3a (vh_Alternatives m) s) (\<lambda>s.
     Option.bind (put_varint_field 0x30 (vh_Loopback m) s) (\<lambda>s.
     Option.bind (put_len_field 0x2a (string_bytes (vh_ListenPort m)) s) (\<lambda>s.
     Option.bind (put_varint_field 0x20 (ucast (vh_NodeID m)) s) (\<lambda>s.
     Option.bind (put_varint_field 0x18 (ucast (vh_Version m)) s) (\<lambda>s.
     Option.bind (put_varint_field 0x10 (ucast (vh_Network m)) s)
       (put_varint_field 0x08 (ucast (vh_Type m))))))))))
    (((((((enc_varint_field 0x08 (ucast (vh_Type m)) @ enc_varint_field 0x10 (ucast (vh_Network m)))
      @ enc_varint_field 0x18 (ucast (vh_Version m))) @ enc_varint_field 0x20 (ucast (vh_NodeID m)))
      @ enc_len_field 0x2a (string_bytes (vh_ListenPort m))) @ enc_varint_field 0x30 (vh_Loopback m))
      @ enc_endpoints 0x3a (vh_Alternatives m)) @ vh_XXX_unrecognized m)"
    by (intro fills_intros)
  from fills_marshals [OF this] show ?thesis
    by (simp add: V11Handshake_MarshalToSizedBuffer_def [abs_def] enc_V11Handshake_def bind_assoc2)
qed

interpretation handshake_marshal:
  sized_marshaller V11Handshake_Size V11Handshake_MarshalToSizedBuffer enc_V11Handshake
  by unfold_locales (simp_all add: V11Handshake_Size_eq V11Handshake_writes)

lemma V11Msg_writes: "marshals (V11Msg_MarshalToSizedBuffer m) (enc_V11Msg m)"
proof -
  have "fills (\<lambda>s. Option.bind (put_bytes (vm_XXX_unrecognized m) s) (\<lambda>s.
     Option.bind (put_len_field 0x12 (vm_Payload m) s) (put_varint_field 0x08 (ucast (vm_Type m)))))
    ((enc_varint_field 0x08 (ucast (vm_Type m)) @ enc_len_field 0x12 (vm_Payload m))
      @ vm_XXX_unrecognized m)"
    by (intro fills_intros)
  from fills_marshals [OF this] show ?thesis
    by (simp add: V11Msg_MarshalToSizedBuffer_def [abs_def] enc_V11Msg_def bind_assoc2)
qed

interpretation msg_marshal: sized_marshaller V11Msg_Size V11Msg_MarshalToSizedBuffer enc_V11Msg
  by unfold_locales (simp_all add: V11Msg_Size_eq V11Msg_writes)

lemma V11Share_writes: "marshals (V11Share_MarshalToSizedBuffer m) (enc_V11Share m)"
proof -
  have "fills (\<lambda>s. Option.bind (put_bytes (vs_XXX_unrecognized m) s) (put_endpoints 0x0a (vs_Share m)))
    (enc_endpoints 0x0a (vs_Share m) @ vs_XXX_unrecognized m)"
    by (intro fills_intros)
  from fills_marshals [OF this] show ?thesis
    by (simp add: V11Share_MarshalToSizedBuffer_def [abs_def] enc_V11Share_def bind_assoc2)
qed

interpretation share_marshal: sized_marshaller V11Share_Size V11Share_MarshalToSizedBuffer enc_V11Share
  by unfold_locales (simp_all add: V11Share_Size_eq V11Share_writes)

lemma V11_Marshal_eq:
  "V11Endpoint_Marshal e = Some (enc_V11Endpoint e)"
  "V11Handshake_Marshal h = Some (enc_V11Handshake h)"
  "V11Msg_Marshal m = Some (enc_V11Msg m)"
  "V11Share_Marshal s = Some (enc_V11Share s)"
  by (simp_all add: V11Endpoint_Marshal_def V11Handshake_Marshal_def V11Msg_Marshal_def
      V11Share_Marshal_def endpoint_marshal.marshal_eq handshake_marshal.marshal_eq
      msg_marshal.marshal_eq share_marshal.marshal_eq)

subsection \<open>Loops that read one field per turn\<close>

locale field_loop =
  fixes step :: "'m \<Rightarrow> bytes \<Rightarrow> nat \<Rightarrow> pb_error + ('m \<times> nat)"
    and loop :: "'m \<Rightarrow> bytes \<Rightarrow> nat \<Rightarrow> pb_error + 'm"
  assumes loop_eq: "loop m d i =
      (if i < length d then bindR (step m d i) (\<lambda>(m', j). loop m' d j)
       else if length d < i then Inl ErrUnexpectedEOF else Inr m)"
    and step_progress: "step m d i = Inr (m', j) \<Longrightarrow> i < j \<and> j \<le> length d"
begin

text \<open>\<open>reads x f\<close>: wherever the bytes \<open>x\<close> stand in the input, the loop consumes them and applies
  \<open>f\<close> to the message.\<close>

definition reads :: "bytes \<Rightarrow> ('m \<Rightarrow> 'm) \<Rightarrow> bool" where
  "reads x f \<longleftrightarrow> (\<forall>m pre post. length (pre @ x @ post) < 2 ^ 63 \<longrightarrow>
     loop m (pre @ x @ post) (length pre) = loop (f m) (pre @ x @ post) (length pre + length x))"

lemma reads_Nil [simp]: "reads [] (\<lambda>m. m)"
  by (simp add: reads_def)

lemma reads_append:
  assumes "reads x f" and "reads y g"
  shows "reads (x @ y) (\<lambda>m. g (f m))"
  unfolding reads_def
proof (intro allI impI)
  fix m pre post
  assume len: "length (pre @ (x @ y) @ post) < 2 ^ 63"
  have "loop m (pre @ x @ y @ post) (length pre) = loop (f m) (pre @ x @ y @ post) (length pre + length x)"
    using assms(1) len by (simp add: reads_def)
  also have "\<dots> = loop (g (f m)) (pre @ x @ y @ post) (length pre + length x + length y)"
    using assms(2) [unfolded reads_def, rule_format, of "pre @ x" post "f m"] len by simp
  finally show "loop m (pre @ (x @ y) @ post) (length pre)
      = loop (g (f m)) (pre @ (x @ y) @ post) (length pre + length (x @ y))"
    by (simp add: add.assoc)
qed

lemma reads_step:
  assumes "x \<noteq> []"
    and "\<And>m pre post. length (pre @ x @ post) < 2 ^ 63 \<Longrightarrow>
      step m (pre @ x @ post) (length pre) = Inr (f m, length pre + length x)"
  shows "reads x f"
  unfolding reads_def
proof (intro allI impI)
  fix m pre post
  assume "length (pre @ x @ post) < 2 ^ 63"
  from assms(2) [OF this, of m] assms(1)
  show "loop m (pre @ x @ post) (length pre) = loop (f m) (pre @ x @ post) (length pre + length x)"
    by (subst loop_eq) simp
qed

lemma reads_fold:
  assumes "\<And>e. e \<in> set es \<Longrightarrow> reads (x e) (f e)"
  shows "reads (concat (map x es)) (fold f es)"
  using assms
proof (induction es)
  case Nil
  then show ?case using reads_Nil by (simp add: id_def)
next
  case (Cons e es)
  then have "reads (x e) (f e)" "reads (concat (map x es)) (fold f es)" by simp_all
  from reads_append [OF this] show ?case by (simp add: comp_def)
qed

lemma loop_weight:
  assumes "\<And>m i m' j. step m d i = Inr (m', j) \<Longrightarrow> w m' \<le> w m + (j - i)"
    and "loop m d i = Inr m'"
  shows "w m' \<le> (w m :: nat) + (length d - i)"
  using assms(2)
proof (induction "length d - i" arbitrary: m i rule: less_induct)
  case less
  show ?case
  proof (cases "i < length d")
    case True
    with less.prems obtain m1 j where s: "step m d i = Inr (m1, j)" and l: "loop m1 d j = Inr m'"
      unfolding loop_eq [of m d i] by (auto simp: bindR_Inr_iff)
    from step_progress [OF s] have p: "i < j" "j \<le> length d" by simp_all
    with less.hyps [OF _ l] True have "w m' \<le> w m1 + (length d - j)" by simp
    with assms(1) [OF s] p show ?thesis by simp
  next
    case False
    with less.prems show ?thesis unfolding loop_eq [of m d i] by (simp split: if_splits)
  qed
qed

lemma reads_all:
  assumes "reads x f" and "length x < 2 ^ 63"
  shows "loop m x 0 = Inr (f m)"
proof -
  from assms have "loop m x 0 = loop (f m) x (length x)"
    using assms(1) [unfolded reads_def, rule_format, of "[]" "[]" m] by simp
  also have "\<dots> = Inr (f m)" by (subst loop_eq) simp
  finally show ?thesis .
qed

end

interpretation endpoint_loop: field_loop V11Endpoint_step V11Endpoint_loop
  by (unfold_locales, rule V11Endpoint_loop.simps, rule V11Endpoint_step_progress)

interpretation handshake_loop: field_loop V11Handshake_step V11Handshake_loop
  by (unfold_locales, rule V11Handshake_loop.simps, rule V11Handshake_step_progress)

interpretation msg_loop: field_loop V11Msg_step V11Msg_loop
  by (unfold_locales, rule V11Msg_loop.simps, rule V11Msg_step_progress)

interpretation share_loop: field_loop V11Share_step V11Share_loop
  by (unfold_locales, rule V11Share_loop.simps, rule V11Share_step_progress)

subsection \<open>Reading what was written\<close>

lemma read_tag_at [simp]:
  "read_tag (pre @ 0x08 # post) (length pre) = Inr (1, 0, Suc (length pre))"
  "read_tag (pre @ 0x0a # post) (length pre) = Inr (1, 2, Suc (length pre))"
  "read_tag (pre @ 0x10 # post) (length pre) = Inr (2, 0, Suc (length pre))"
  "read_tag (pre @ 0x12 # post) (length pre) = Inr (2, 2, Suc (length pre))"
  "read_tag (pre @ 0x18 # post) (length pre) = Inr (3, 0, Suc (length pre))"
  "read_tag (pre @ 0x20 # post) (length pre) = Inr (4, 0, Suc (length pre))"
  "read_tag (pre @ 0x2a # post) (length pre) = Inr (5, 2, Suc (length pre))"
  "read_tag (pre @ 0x30 # post) (length pre) = Inr (6, 0, Suc (length pre))"
  "read_tag (pre @ 0x3a # post) (length pre) = Inr (7, 2, Suc (length pre))"
  by (simp_all add: read_tag_def dec_varint.simps)

lemma dec_varint_at [simp]:
  "dec_varint (0 :: 'a::len word) 0 (pre @ t # varint_bytes v @ post) (Suc (length pre))
    = Inr (ucast v, Suc (length pre) + sovProtocolV11 v)"
  using dec_varint_bytes_0 [where 'a = 'a, of "pre @ [t]" v post] by simp

lemma read_len_at [simp]:
  assumes "length bs = n" and "Suc (length pre + (sovProtocolV11 (of_nat n) + (n + length post))) < 2 ^ 63"
  shows "read_len (pre @ t # varint_bytes (of_nat n) @ bs @ post) (Suc (length pre))
    = Inr (Suc (length pre + sovProtocolV11 (of_nat n)), Suc (length pre + (sovProtocolV11 (of_nat n) + n)))"
proof -
  have small: "n < 2 ^ 63" using assms(2) by simp
  then have "sint (of_nat n :: 64 word) = int n"
    by (simp add: signed_of_nat signed_take_bit_int_eq_self)
  with small assms show ?thesis
    by (simp add: read_len_def idx_add_def)
qed

lemma slice_at [simp]:
  assumes "length bs = n"
  shows "slice (pre @ t # varint_bytes v @ bs @ post) (Suc (length pre + sovProtocolV11 v))
     (Suc (length pre + (sovProtocolV11 v + n))) = bs"
  using assms by (simp add: slice_def)

lemma enc_fields_Nil [simp]: "enc_len_field t [] = []" "enc_varint_field t 0 = []"
  by (simp_all add: enc_len_field_def enc_varint_field_def)

lemma endpoint_reads_Host:
  "endpoint_loop.reads (enc_len_field 0x0a (string_bytes h)) (\<lambda>m. if h = [] then m else m\<lparr>ve_Host := h\<rparr>)"
proof (cases "h = []")
  case False
  then show ?thesis
    by (intro endpoint_loop.reads_step)
      (simp_all add: enc_len_field_def enc_len_def size_len_def V11Endpoint_step_def)
qed (simp add: string_bytes_def)

lemma endpoint_reads_Port:
  "endpoint_loop.reads (enc_len_field 0x12 (string_bytes p)) (\<lambda>m. if p = [] then m else m\<lparr>ve_Port := p\<rparr>)"
proof (cases "p = []")
  case False
  then show ?thesis
    by (intro endpoint_loop.reads_step)
      (simp_all add: enc_len_field_def enc_len_def size_len_def V11Endpoint_step_def)
qed (simp add: string_bytes_def)

text \<open>The messages the program builds carry no unrecognized bytes.\<close>

definition plain_endpoint :: "V11Endpoint \<Rightarrow> bool" where
  "plain_endpoint e \<longleftrightarrow> ve_XXX_unrecognized e = []"

lemma endpoint_rebuild:
  assumes "plain_endpoint e"
  defines "m \<equiv> if ve_Host e = [] then new_V11Endpoint else new_V11Endpoint\<lparr>ve_Host := ve_Host e\<rparr>"
  shows "(if ve_Port e = [] then m else m\<lparr>ve_Port := ve_Port e\<rparr>) = e"
  using assms by (cases e) (simp add: new_V11Endpoint_def plain_endpoint_def)

lemma endpoint_unmarshal_enc:
  assumes "plain_endpoint e" and "length (enc_V11Endpoint e) < 2 ^ 63"
  shows "V11Endpoint_Unmarshal new_V11Endpoint (enc_V11Endpoint e) = Inr e"
proof -
  have "enc_V11Endpoint e = enc_len_field 0x0a (string_bytes (ve_Host e))
      @ enc_len_field 0x12 (string_bytes (ve_Port e))"
    using assms(1) by (simp add: enc_V11Endpoint_def plain_endpoint_def)
  with endpoint_loop.reads_append
    [OF endpoint_reads_Host [of "ve_Host e"] endpoint_reads_Port [of "ve_Port e"]]
  have "endpoint_loop.reads (enc_V11Endpoint e) (\<lambda>m. let m' = (if ve_Host e = [] then m
      else m\<lparr>ve_Host := ve_Host e\<rparr>) in if ve_Port e = [] then m' else m'\<lparr>ve_Port := ve_Port e\<rparr>)"
    by (simp add: Let_def)
  from endpoint_loop.reads_all [OF this assms(2), of new_V11Endpoint] show ?thesis
    using endpoint_rebuild [OF assms(1)] by (simp only: V11Endpoint_Unmarshal_def Let_def)
qed

lemma read_endpoint_at:
  assumes "plain_endpoint e" and "length (pre @ enc_len t (enc_V11Endpoint e) @ post) < 2 ^ 63"
  shows "read_endpoint (pre @ enc_len t (enc_V11Endpoint e) @ post) (Suc (length pre))
    = Inr (e, length pre + length (enc_len t (enc_V11Endpoint e)))"
proof -
  have "length (enc_V11Endpoint e) < 2 ^ 63" using assms(2) by (simp add: size_len_def)
  with assms show ?thesis
    by (simp add: read_endpoint_def enc_len_def size_len_def endpoint_unmarshal_enc)
qed

lemma fold_snoc: "fold (\<lambda>e es. es @ [e]) xs ys = ys @ xs"
  by (induction xs arbitrary: ys) simp_all

subsubsection \<open>Messages\<close>

lemma msg_reads_Type:
  "msg_loop.reads (enc_varint_field 0x08 (ucast v)) (\<lambda>m. if v = 0 then m else m\<lparr>vm_Type := v\<rparr>)"
proof (cases "v = 0")
  case False
  then have "(ucast v :: 64 word) \<noteq> 0" by (metis ucast_32_64 ucast_0)
  with False show ?thesis
    by (intro msg_loop.reads_step)
      (simp_all add: enc_varint_field_def size_varint_field_def V11Msg_step_def)
qed simp

lemma msg_reads_Payload:
  "msg_loop.reads (enc_len_field 0x12 bs) (\<lambda>m. if bs = [] then m else m\<lparr>vm_Payload := bs\<rparr>)"
proof (cases "bs = []")
  case False
  then show ?thesis
    by (intro msg_loop.reads_step)
      (simp_all add: enc_len_field_def enc_len_def size_len_def V11Msg_step_def)
qed simp

lemma msg_unmarshal_enc:
  assumes "vm_XXX_unrecognized m = []" and "length (enc_V11Msg m) < 2 ^ 63"
  shows "V11Msg_Unmarshal new_V11Msg (enc_V11Msg m) = Inr m"
proof -
  have enc: "enc_V11Msg m = enc_varint_field 0x08 (ucast (vm_Type m)) @ enc_len_field 0x12 (vm_Payload m)"
    using assms(1) by (simp add: enc_V11Msg_def)
  let ?t = "\<lambda>m'. if vm_Type m = 0 then m' else m'\<lparr>vm_Type := vm_Type m\<rparr>"
  let ?p = "\<lambda>m'. if vm_Payload m = [] then m' else m'\<lparr>vm_Payload := vm_Payload m\<rparr>"
  have "msg_loop.reads (enc_V11Msg m) (\<lambda>m'. ?p (?t m'))"
    unfolding enc by (rule msg_loop.reads_append [OF msg_reads_Type msg_reads_Payload])
  from msg_loop.reads_all [OF this assms(2)]
  have "V11Msg_Unmarshal new_V11Msg (enc_V11Msg m) = Inr (?p (?t new_V11Msg))"
    by (simp only: V11Msg_Unmarshal_def)
  also have "?p (?t new_V11Msg) = m"
    using assms(1) by (cases m) (simp add: new_V11Msg_def)
  finally show ?thesis .
qed

subsubsection \<open>Peer shares\<close>

lemma share_reads_endpoint:
  assumes "plain_endpoint e"
  shows "share_loop.reads (enc_len 0x0a (enc_V11Endpoint e)) (\<lambda>m. m\<lparr>vs_Share := vs_Share m @ [e]\<rparr>)"
proof (rule share_loop.reads_step)
  show "enc_len 0x0a (enc_V11Endpoint e) \<noteq> []" by (simp add: enc_len_def)
  fix m :: V11Share and pre post
  let ?d = "pre @ enc_len 0x0a (enc_V11Endpoint e) @ post"
  assume "length ?d < 2 ^ 63"
  moreover have "read_tag ?d (length pre) = Inr (1, 2, Suc (length pre))"
    by (simp add: enc_len_def)
  ultimately show "V11Share_step m ?d (length pre)
      = Inr (m\<lparr>vs_Share := vs_Share m @ [e]\<rparr>, length pre + length (enc_len 0x0a (enc_V11Endpoint e)))"
    using read_endpoint_at [OF assms] by (simp add: V11Share_step_def)
qed

lemma fold_share: "fold (\<lambda>e m. m\<lparr>vs_Share := vs_Share m @ [e]\<rparr>) es m = m\<lparr>vs_Share := vs_Share m @ es\<rparr>"
  by (induction es arbitrary: m) simp_all

lemma share_unmarshal_enc:
  assumes "vs_XXX_unrecognized m = []" and "list_all plain_endpoint (vs_Share m)"
    and "length (enc_V11Share m) < 2 ^ 63"
  shows "V11Share_Unmarshal new_V11Share (enc_V11Share m) = Inr m"
proof -
  have enc: "enc_V11Share m = concat (map (\<lambda>e. enc_len 0x0a (enc_V11Endpoint e)) (vs_Share m))"
    using assms(1) by (simp add: enc_V11Share_def enc_endpoints_def)
  have "share_loop.reads (enc_V11Share m) (fold (\<lambda>e m. m\<lparr>vs_Share := vs_Share m @ [e]\<rparr>) (vs_Share m))"
    unfolding enc using assms(2) by (intro share_loop.reads_fold share_reads_endpoint) (simp add: list_all_iff)
  from share_loop.reads_all [OF this assms(3), of new_V11Share] assms(1) show ?thesis
    by (cases m) (simp add: V11Share_Unmarshal_def fold_share new_V11Share_def)
qed

subsubsection \<open>Handshakes\<close>

lemma ucast_64_0_iff [simp]: "(ucast (v :: 32 word) :: 64 word) = 0 \<longleftrightarrow> v = 0"
  by (metis ucast_32_64 ucast_0)

text \<open>What reading one optional field does to the message.\<close>

definition upd_if :: "bool \<Rightarrow> ('m \<Rightarrow> 'm) \<Rightarrow> 'm \<Rightarrow> 'm" where
  "upd_if c f m = (if c then f m else m)"

lemma handshake_reads_varint:
  "handshake_loop.reads (enc_varint_field 0x08 (ucast w)) (upd_if (w \<noteq> 0) (\<lambda>m. m\<lparr>vh_Type := w\<rparr>))"
  "handshake_loop.reads (enc_varint_field 0x10 (ucast w)) (upd_if (w \<noteq> 0) (\<lambda>m. m\<lparr>vh_Network := w\<rparr>))"
  "handshake_loop.reads (enc_varint_field 0x18 (ucast w)) (upd_if (w \<noteq> 0) (\<lambda>m. m\<lparr>vh_Version := w\<rparr>))"
  "handshake_loop.reads (enc_varint_field 0x20 (ucast w)) (upd_if (w \<noteq> 0) (\<lambda>m. m\<lparr>vh_NodeID := w\<rparr>))"
  "handshake_loop.reads (enc_varint_field 0x30 v) (upd_if (v \<noteq> 0) (\<lambda>m. m\<lparr>vh_Loopback := v\<rparr>))"
proof -
  have unset: "handshake_loop.reads [] (upd_if False f)" for f
    using handshake_loop.reads_Nil by (simp add: upd_if_def [abs_def])
  have set: "handshake_loop.reads (t # varint_bytes u) (upd_if True f)"
    if "\<And>m pre post. V11Handshake_step m (pre @ t # varint_bytes u @ post) (length pre)
      = Inr (f m, Suc (length pre + sovProtocolV11 u))" for t u f
    by (rule handshake_loop.reads_step) (simp_all add: that upd_if_def)
  note s = enc_varint_field_def V11Handshake_step_def
  show "handshake_loop.reads (enc_varint_field 0x08 (ucast w)) (upd_if (w \<noteq> 0) (\<lambda>m. m\<lparr>vh_Type := w\<rparr>))"
    by (cases "w = 0") (simp_all add: unset set s)
  show "handshake_loop.reads (enc_varint_field 0x10 (ucast w)) (upd_if (w \<noteq> 0) (\<lambda>m. m\<lparr>vh_Network := w\<rparr>))"
    by (cases "w = 0") (simp_all add: unset set s)
  show "handshake_loop.reads (enc_varint_field 0x18 (ucast w)) (upd_if (w \<noteq> 0) (\<lambda>m. m\<lparr>vh_Version := w\<rparr>))"
    by (cases "w = 0") (simp_all add: unset set s)
  show "handshake_loop.reads (enc_varint_field 0x20 (ucast w)) (upd_if (w \<noteq> 0) (\<lambda>m. m\<lparr>vh_NodeID := w\<rparr>))"
    by (cases "w = 0") (simp_all add: unset set s)
  show "handshake_loop.reads (enc_varint_field 0x30 v) (upd_if (v \<noteq> 0) (\<lambda>m. m\<lparr>vh_Loopback := v\<rparr>))"
    by (cases "v = 0") (simp_all add: unset set s)
qed

lemma handshake_reads_ListenPort:
  "handshake_loop.reads (enc_len_field 0x2a (string_bytes p))
    (upd_if (p \<noteq> []) (\<lambda>m. m\<lparr>vh_ListenPort := p\<rparr>))"
proof (cases "p = []")
  case True
  then show ?thesis
    using handshake_loop.reads_Nil by (simp add: upd_if_def [abs_def] string_bytes_def)
next
  case False
  then show ?thesis
    by (intro handshake_loop.reads_step)
      (simp_all add: enc_len_field_def enc_len_def size_len_def V11Handshake_step_def upd_if_def)
qed

lemma handshake_reads_endpoint:
  assumes "plain_endpoint e"
  shows "handshake_loop.reads (enc_len 0x3a (enc_V11Endpoint e))
    (\<lambda>m. m\<lparr>vh_Alternatives := vh_Alternatives m @ [e]\<rparr>)"
proof (rule handshake_loop.reads_step)
  show "enc_len 0x3a (enc_V11Endpoint e) \<noteq> []" by (simp add: enc_len_def)
  fix m :: V11Handshake and pre post
  let ?d = "pre @ enc_len 0x3a (enc_V11Endpoint e) @ post"
  assume "length ?d < 2 ^ 63"
  moreover have "read_tag ?d (length pre) = Inr (7, 2, Suc (length pre))"
    by (simp add: enc_len_def)
  ultimately show "V11Handshake_step m ?d (length pre) = Inr (m\<lparr>vh_Alternatives := vh_Alternatives m @ [e]\<rparr>,
      length pre + length (enc_len 0x3a (enc_V11Endpoint e)))"
    using read_endpoint_at [OF assms] by (simp add: V11Handshake_step_def)
qed

lemma fold_alternatives:
  "fold (\<lambda>e m. m\<lparr>vh_Alternatives := vh_Alternatives m @ [e]\<rparr>) es m
    = m\<lparr>vh_Alternatives := vh_Alternatives m @ es\<rparr>"
  by (induction es arbitrary: m) simp_all

lemma handshake_reads_endpoints:
  assumes "list_all plain_endpoint es"
  shows "handshake_loop.reads (enc_endpoints 0x3a es)
    (\<lambda>m. m\<lparr>vh_Alternatives := vh_Alternatives m @ es\<rparr>)"
proof -
  have "handshake_loop.reads (enc_endpoints 0x3a es)
      (fold (\<lambda>e m. m\<lparr>vh_Alternatives := vh_Alternatives m @ [e]\<rparr>) es)"
    unfolding enc_endpoints_def using assms
    by (intro handshake_loop.reads_fold handshake_reads_endpoint) (simp add: list_all_iff)
  then show ?thesis by (simp add: fold_alternatives [abs_def])
qed

text \<open>What reading all the fields of \<open>h\<close> does to a message.\<close>

definition handshake_fill :: "V11Handshake \<Rightarrow> V11Handshake \<Rightarrow> V11Handshake" where
  "handshake_fill h = (\<lambda>m.
     (\<lambda>m. m\<lparr>vh_Alternatives := vh_Alternatives m @ vh_Alternatives h\<rparr>)
     (upd_if (vh_Loopback h \<noteq> 0) (\<lambda>m. m\<lparr>vh_Loopback := vh_Loopback h\<rparr>)
     (upd_if (vh_ListenPort h \<noteq> []) (\<lambda>m. m\<lparr>vh_ListenPort := vh_ListenPort h\<rparr>)
     (upd_if (vh_NodeID h \<noteq> 0) (\<lambda>m. m\<lparr>vh_NodeID := vh_NodeID h\<rparr>)
     (upd_if (vh_Version h \<noteq> 0) (\<lambda>m. m\<lparr>vh_Version := vh_Version h\<rparr>)
     (upd_if (vh_Network h \<noteq> 0) (\<lambda>m. m\<lparr>vh_Network := vh_Network h\<rparr>)
     (upd_if (vh_Type h \<noteq> 0) (\<lambda>m. m\<lparr>vh_Type := vh_Type h\<rparr>) m)))))))"

lemma handshake_fill_new: "vh_XXX_unrecognized h = [] \<Longrightarrow> handshake_fill h new_V11Handshake = h"
  by (cases h) (simp add: handshake_fill_def upd_if_def new_V11Handshake_def)

lemma handshake_reads_all:
  assumes "vh_XXX_unrecognized h = []" and "list_all plain_endpoint (vh_Alternatives h)"
  shows "handshake_loop.reads (enc_V11Handshake h) (handshake_fill h)"
proof -
  note r = handshake_loop.reads_append
  have enc: "enc_V11Handshake h = (((((enc_varint_field 0x08 (ucast (vh_Type h))
      @ enc_varint_field 0x10 (ucast (vh_Network h))) @ enc_varint_field 0x18 (ucast (vh_Version h)))
      @ enc_varint_field 0x20 (ucast (vh_NodeID h))) @ enc_len_field 0x2a (string_bytes (vh_ListenPort h)))
      @ enc_varint_field 0x30 (vh_Loopback h)) @ enc_endpoints 0x3a (vh_Alternatives h)"
    using assms(1) by (simp add: enc_V11Handshake_def)
  show ?thesis
    unfolding enc handshake_fill_def
    by (rule r [OF r [OF r [OF r [OF r [OF r
      [OF handshake_reads_varint(1) handshake_reads_varint(2)] handshake_reads_varint(3)]
      handshake_reads_varint(4)] handshake_reads_ListenPort] handshake_reads_varint(5)]
      handshake_reads_endpoints [OF assms(2)]])
qed

lemma handshake_unmarshal_enc:
  assumes "vh_XXX_unrecognized h = []" and "list_all plain_endpoint (vh_Alternatives h)"
    and "length (enc_V11Handshake h) < 2 ^ 63"
  shows "V11Handshake_Unmarshal new_V11Handshake (enc_V11Handshake h) = Inr h"
  using handshake_loop.reads_all [OF handshake_reads_all [OF assms(1,2)] assms(3), of new_V11Handshake]
  by (simp add: V11Handshake_Unmarshal_def handshake_fill_new [OF assms(1)])

subsection \<open>Reading never keeps more than it was given\<close>

definition endpoint_weight :: "V11Endpoint \<Rightarrow> nat" where
  "endpoint_weight e = length (ve_Host e) + length (ve_Port e) + length (ve_XXX_unrecognized e)"

definition endpoints_weight :: "V11Endpoint list \<Rightarrow> nat" where
  "endpoints_weight es = (\<Sum>e\<leftarrow>es. Suc (endpoint_weight e))"

lemma endpoints_weight_simps [simp]:
  "endpoints_weight [] = 0" "endpoints_weight (es @ [e]) = endpoints_weight es + Suc (endpoint_weight e)"
  by (simp_all add: endpoints_weight_def)

lemma length_slice: "j \<le> length d \<Longrightarrow> length (slice d i j) = j - i"
  by (simp add: slice_def)

lemma read_len_slice:
  "read_len d i = Inr (a, b) \<Longrightarrow> i < a \<and> a \<le> b \<and> length (slice d a b) = b - a"
  using read_len_progress [of d i a b] by (simp add: length_slice)

lemma skip_field_slice: "skip_field d i = Inr j \<Longrightarrow> i < j \<and> length (slice d i j) = j - i"
  using skip_field_progress [of d i j] by (simp add: length_slice)

lemmas pb_weight = read_tag_progress dec_varint_progress read_len_slice skip_field_slice

lemma endpoint_step_weight:
  "V11Endpoint_step m d i = Inr (m', j) \<Longrightarrow> endpoint_weight m' \<le> endpoint_weight m + (j - i)"
  by (auto simp: V11Endpoint_step_def bindR_Inr_iff endpoint_weight_def split: if_splits
      dest!: pb_weight)

lemma endpoint_weight_bound:
  "V11Endpoint_Unmarshal new_V11Endpoint d = Inr e \<Longrightarrow> endpoint_weight e \<le> length d"
  using endpoint_loop.loop_weight [where w = endpoint_weight, OF endpoint_step_weight, where d = d and m = new_V11Endpoint and i = 0 and m' = e]
  by (simp add: V11Endpoint_Unmarshal_def endpoint_weight_def new_V11Endpoint_def)

lemma read_endpoint_weight: "read_endpoint d i = Inr (e, j) \<Longrightarrow> Suc (endpoint_weight e) \<le> j - i"
  by (auto simp: read_endpoint_def bindR_Inr_iff dest!: endpoint_weight_bound read_len_slice)

lemma share_step_weight:
  "V11Share_step m d i = Inr (m', j) \<Longrightarrow>
     endpoints_weight (vs_Share m') + length (vs_XXX_unrecognized m')
     \<le> endpoints_weight (vs_Share m) + length (vs_XXX_unrecognized m) + (j - i)"
  by (auto simp: V11Share_step_def bindR_Inr_iff split: if_splits
      dest!: pb_weight read_endpoint_weight)

lemma msg_step_weight:
  "V11Msg_step m d i = Inr (m', j) \<Longrightarrow>
     length (vm_Payload m') + length (vm_XXX_unrecognized m')
     \<le> length (vm_Payload m) + length (vm_XXX_unrecognized m) + (j - i)"
  by (auto simp: V11Msg_step_def bindR_Inr_iff split: if_splits dest!: pb_weight)

definition handshake_weight :: "V11Handshake \<Rightarrow> nat" where
  "handshake_weight h = length (vh_ListenPort h) + endpoints_weight (vh_Alternatives h)
     + length (vh_XXX_unrecognized h)"

text \<open>A step result that adds no more weight than it consumed bytes.\<close>

definition within :: "('m \<Rightarrow> nat) \<Rightarrow> 'm \<Rightarrow> nat \<Rightarrow> pb_error + ('m \<times> nat) \<Rightarrow> bool" where
  "within w m i r \<longleftrightarrow> (\<forall>m' j. r = Inr (m', j) \<longrightarrow> w m' \<le> w m + (j - i))"

lemma within_simps [simp]:
  "within w m i (Inl e)" "within w m i (Inr (m', j)) \<longleftrightarrow> w m' \<le> w m + (j - i)"
  by (auto simp: within_def)

lemma within_bind:
  "(\<And>x. r = Inr x \<Longrightarrow> within w m i (f x)) \<Longrightarrow> within w m i (bindR r f)"
  by (cases r) simp_all

lemma within_if:
  "within w m i a \<Longrightarrow> within w m i b \<Longrightarrow> within w m i (if c then a else b)"
  by simp

lemma within_varint:
  assumes "i < j" and "\<And>v. w (f v) = w m"
  shows "within w m i (bindR (dec_varint acc sh d j) (\<lambda>(v, k). Inr (f v, k)))"
  by (rule within_bind) (auto simp: assms(2))

lemma handshake_step_weight:
  assumes "V11Handshake_step m d i = Inr (m', j)"
  shows "handshake_weight m' \<le> handshake_weight m + (j - i)"
proof -
  have "within handshake_weight m i (V11Handshake_step m d i)"
    unfolding V11Handshake_step_def
  proof (rule within_bind, goal_cases)
    case (1 x)
    obtain f t k where x: "x = (f, t, k)" by (rule prod_cases3)
    with 1 have k: "i < k" by (auto dest: read_tag_progress)
    have port: "within handshake_weight m i (bindR (read_len d k) (\<lambda>(a, b).
        Inr (m\<lparr>vh_ListenPort := bytes_string (slice d a b)\<rparr>, b)))"
      using k by (intro within_bind) (auto simp: handshake_weight_def dest!: read_len_slice)
    have alt: "within handshake_weight m i (bindR (read_endpoint d k) (\<lambda>(e, l).
        Inr (m\<lparr>vh_Alternatives := vh_Alternatives m @ [e]\<rparr>, l)))"
      using k by (intro within_bind) (auto simp: handshake_weight_def dest!: read_endpoint_weight)
    have skip: "within handshake_weight m i (bindR (skip_field d i) (\<lambda>l.
        Inr (m\<lparr>vh_XXX_unrecognized := vh_XXX_unrecognized m @ slice d i l\<rparr>, l)))"
      by (intro within_bind) (auto simp: handshake_weight_def dest!: skip_field_slice)
    have var: "\<And>v. handshake_weight (m\<lparr>vh_Type := v\<rparr>) = handshake_weight m"
      "\<And>v. handshake_weight (m\<lparr>vh_Network := v\<rparr>) = handshake_weight m"
      "\<And>v. handshake_weight (m\<lparr>vh_Version := v\<rparr>) = handshake_weight m"
      "\<And>v. handshake_weight (m\<lparr>vh_NodeID := v\<rparr>) = handshake_weight m"
      "\<And>v. handshake_weight (m\<lparr>vh_Loopback := v\<rparr>) = handshake_weight m"
      by (simp_all add: handshake_weight_def)
    show ?case
      unfolding x split by (intro within_if within_simps(1) within_varint k var port alt skip)
  qed
  with assms show ?thesis by (simp add: within_def)
qed

subsection \<open>Properties\<close>

text \<open>C22: the generated marshallers never panic: the buffer that \<open>Size\<close> allocates is filled from the back
  exactly, and what it then holds is the field-by-field encoding of the message.\<close>

theorem V11_Marshal_correct:
  "V11Endpoint_Marshal e = Some (enc_V11Endpoint e) \<and> length (enc_V11Endpoint e) = V11Endpoint_Size e
   \<and> V11Handshake_Marshal h = Some (enc_V11Handshake h) \<and> length (enc_V11Handshake h) = V11Handshake_Size h
   \<and> V11Msg_Marshal m = Some (enc_V11Msg m) \<and> length (enc_V11Msg m) = V11Msg_Size m
   \<and> V11Share_Marshal s = Some (enc_V11Share s) \<and> length (enc_V11Share s) = V11Share_Size s"
  by (simp add: V11_Marshal_eq V11Endpoint_Size_eq V11Handshake_Size_eq V11Msg_Size_eq V11Share_Size_eq)

text \<open>C23: a handshake survives the wire format: unmarshalling what \<open>Marshal\<close> wrote into a fresh message
  gives back every field and every alternative endpoint, in order (no unknown fields, and less than
  \<open>2 ^ 63\<close> bytes, so that the reader's index cannot wrap around).\<close>

theorem V11Handshake_roundtrip:
  assumes "V11Handshake_Marshal h = Some d" and "vh_XXX_unrecognized h = []"
    and "list_all plain_endpoint (vh_Alternatives h)" and "length d < 2 ^ 63"
  shows "V11Handshake_Unmarshal new_V11Handshake d = Inr h"
  using assms handshake_unmarshal_enc [of h] by (simp add: V11_Marshal_eq)

theorem V11Handshake_roundtrip_witness:
  "\<exists>d. V11Handshake_Unmarshal new_V11Handshake d
     = Inr (new_V11Handshake\<lparr>vh_Type := 8, vh_ListenPort := ''8108'',
         vh_Alternatives := [new_V11Endpoint\<lparr>ve_Host := ''1.2.3.4'', ve_Port := ''80''\<rparr>]\<rparr>)"
proof -
  let ?h = "new_V11Handshake\<lparr>vh_Type := 8, vh_ListenPort := ''8108'',
         vh_Alternatives := [new_V11Endpoint\<lparr>ve_Host := ''1.2.3.4'', ve_Port := ''80''\<rparr>]\<rparr>"
  have "length (enc_V11Handshake ?h) < 2 ^ 63"
    using sov_le_10 [of 8] sov_le_10 [of 4] sov_le_10 [of 7] sov_le_10 [of 2]
      sov_le_10 [of "of_nat (V11Endpoint_Size (new_V11Endpoint\<lparr>ve_Host := ''1.2.3.4'', ve_Port := ''80''\<rparr>))"]
    by (simp flip: V11Handshake_Size_eq add: V11Handshake_Size_def size_varint_field_def size_len_field_def
        size_len_def V11Endpoint_Size_def new_V11Handshake_def new_V11Endpoint_def)
  then show ?thesis
    using V11Handshake_roundtrip [of ?h "enc_V11Handshake ?h"]
    by (auto simp: V11_Marshal_eq new_V11Handshake_def new_V11Endpoint_def plain_endpoint_def)
qed

text \<open>C25: unmarshalling is bounded by its input: whatever bytes a peer sends, the strings, payloads and
  endpoints (each counted with at least one byte) of the message that is read, unknown fields included,
  together hold no more bytes than were received.\<close>

theorem Unmarshal_bounded:
  "(\<forall>m. V11Msg_Unmarshal new_V11Msg d = Inr m \<longrightarrow>
      length (vm_Payload m) + length (vm_XXX_unrecognized m) \<le> length d)
   \<and> (\<forall>s. V11Share_Unmarshal new_V11Share d = Inr s \<longrightarrow>
      endpoints_weight (vs_Share s) + length (vs_XXX_unrecognized s) \<le> length d)
   \<and> (\<forall>h. V11Handshake_Unmarshal new_V11Handshake d = Inr h \<longrightarrow> handshake_weight h \<le> length d)"
proof (intro conjI allI impI)
  fix m assume "V11Msg_Unmarshal new_V11Msg d = Inr m"
  with msg_loop.loop_weight [where w = "\<lambda>m. length (vm_Payload m) + length (vm_XXX_unrecognized m)",
      OF msg_step_weight, where d = d and m = new_V11Msg and i = 0 and m' = m]
  show "length (vm_Payload m) + length (vm_XXX_unrecognized m) \<le> length d"
    by (simp add: V11Msg_Unmarshal_def new_V11Msg_def)
next
  fix s assume "V11Share_Unmarshal new_V11Share d = Inr s"
  with share_loop.loop_weight [where w = "\<lambda>m. endpoints_weight (vs_Share m) + length (vs_XXX_unrecognized m)",
      OF share_step_weight, where d = d and m = new_V11Share and i = 0 and m' = s]
  show "endpoints_weight (vs_Share s) + length (vs_XXX_unrecognized s) \<le> length d"
    by (simp add: V11Share_Unmarshal_def new_V11Share_def)
next
  fix h assume "V11Handshake_Unmarshal new_V11Handshake d = Inr h"
  with handshake_loop.loop_weight [where w = handshake_weight, OF handshake_step_weight,
      where d = d and m = new_V11Handshake and i = 0 and m' = h]
  show "handshake_weight h \<le> length d"
    by (simp add: V11Handshake_Unmarshal_def new_V11Handshake_def handshake_weight_def)
qed

theorem Unmarshal_bounded_witness:
  "\<exists>m. V11Msg_Unmarshal new_V11Msg [0x12, 1, 7] = Inr m \<and> vm_Payload m = [7]
     \<and> length (vm_Payload m) + length (vm_XXX_unrecognized m) \<le> 3"
proof -
  let ?m = "new_V11Msg\<lparr>vm_Payload := [7]\<rparr>"
  have "varint_bytes 1 = [1]" by (subst varint_bytes.simps) (simp add: word_le_nat_alt)
  then have "enc_V11Msg ?m = [0x12, 1, 7]"
    by (simp add: enc_V11Msg_def new_V11Msg_def enc_varint_field_def enc_len_field_def enc_len_def)
  then have "V11Msg_Unmarshal new_V11Msg [0x12, 1, 7] = Inr ?m"
    using msg_unmarshal_enc [of ?m] by (simp add: new_V11Msg_def)
  with Unmarshal_bounded [of "[0x12, 1, 7]"] show ?thesis by (auto simp: new_V11Msg_def)
qed

end
