(* ===== verification/ProtoV11.thy ===== *)
theory ProtoV11
  imports Connections Handshakes Protobuf_Codec
begin

unbundle bit_operations_syntax

section \<open>Protocol version 11\<close>

text \<open>
  \<open>protocolV11.go\<close>: messages framed by a 4-byte big-endian length, the handshake preceded by the
  signature. \<open>proto.Marshal\<close> and \<open>proto.Unmarshal\<close> belong to the protobuf package and are arguments
  (\<open>pm\<close>, \<open>pu\<close>) of the functions that call them; \<open>proto_dispatch\<close> is their documented behaviour, to
  call the methods that the message type itself provides.
\<close>

subsection \<open>Framing\<close>

definition V11MaxParcelSize :: nat where "V11MaxParcelSize = 134217728"

definition V11Signature :: bytes where "V11Signature = [0x70, 0x62, 0x75, 0x66]"

type_synonym 'g conn = "'g item RW"

definition writeCheck :: "bytes \<Rightarrow> 'g conn \<Rightarrow> 'g conn result" where
  "writeCheck data rw =
     (let (n, failed, rw') = Write (map Byte data) rw
      in if failed then Inl (Sys ErrIO)
         else if n \<noteq> length data then Inl (Wire ErrShortWrite)
         else Inr rw')"

text \<open>A gob message in the middle of what is read as bytes does not arise between peers that speak this
  version; reading it is an error.\<close>

definition readCheck :: "nat \<Rightarrow> 'g conn \<Rightarrow> (bytes \<times> 'g conn) result" where
  "readCheck n rw =
     (case ReadFull n rw of
        Inl e \<Rightarrow> Inl (Sys e)
      | Inr (xs, rw') \<Rightarrow>
          (case items_bytes xs of None \<Rightarrow> Inl (Sys ErrIO) | Some bs \<Rightarrow> Inr (bs, rw')))"

definition readMessage :: "(bytes \<Rightarrow> 'm result) \<Rightarrow> 'g conn \<Rightarrow> ('m \<times> 'g conn) result" where
  "readMessage pu rw =
     bindR (readCheck 4 rw) (\<lambda>(buf, rw).
     let size = BigEndian_Uint32 buf
     in if size > of_nat V11MaxParcelSize then Inl (Wire ErrTooLarge)
        else bindR (readCheck (unat size) rw) (\<lambda>(data, rw).
             bindR (pu data) (\<lambda>msg. Inr (msg, rw))))"

definition writeMessage :: "('m \<Rightarrow> bytes result) \<Rightarrow> 'm \<Rightarrow> 'g conn \<Rightarrow> 'g conn result" where
  "writeMessage pm msg rw =
     bindR (pm msg) (\<lambda>data.
     if length data > V11MaxParcelSize then Inl (Wire ErrTooLarge)
     else bindR (writeCheck (BigEndian_PutUint32 (of_nat (length data))) rw) (writeCheck data))"

subsection \<open>Handshakes, parcels and peer shares\<close>

definition endpoint_to_V11 :: "Endpoint \<Rightarrow> V11Endpoint" where
  "endpoint_to_V11 ep = new_V11Endpoint\<lparr>ve_Host := IP ep, ve_Port := Port ep\<rparr>"

definition endpoint_of_V11 :: "V11Endpoint \<Rightarrow> Endpoint" where
  "endpoint_of_V11 e = \<lparr>IP = ve_Host e, Port = ve_Port e\<rparr>"

definition V11_SendHandshake :: "(V11Handshake \<Rightarrow> bytes result) \<Rightarrow> Handshake \<Rightarrow> 'g conn \<Rightarrow> 'g conn result" where
  "V11_SendHandshake pm hs rw =
     bindR (writeCheck V11Signature rw) (\<lambda>rw.
     let v11hs = new_V11Handshake\<lparr>vh_Type := ucast (hs_Type hs), vh_ListenPort := hs_ListenPort hs,
           vh_Loopback := hs_Loopback hs, vh_Network := hs_Network hs, vh_NodeID := hs_NodeID hs,
           vh_Version := ucast (hs_Version hs)\<rparr>;
         v11hs = (if length (hs_Alternatives hs) > 0
                  then v11hs\<lparr>vh_Alternatives := map endpoint_to_V11 (hs_Alternatives hs)\<rparr> else v11hs)
     in writeMessage pm v11hs rw)"

definition V11_ReadHandshake :: "(bytes \<Rightarrow> V11Handshake result) \<Rightarrow> 'g conn \<Rightarrow> (Handshake \<times> 'g conn) result" where
  "V11_ReadHandshake pu rw =
     bindR (readCheck 4 rw) (\<lambda>(sig, rw).
     if sig \<noteq> V11Signature then Inl (Wire ErrInvalidSignature)
     else bindR (readMessage pu rw) (\<lambda>(v11hs, rw).
       let hs = zero_Handshake\<lparr>hs_Type := ucast (vh_Type v11hs), hs_ListenPort := vh_ListenPort v11hs,
             hs_Loopback := vh_Loopback v11hs, hs_Network := vh_Network v11hs,
             hs_NodeID := vh_NodeID v11hs, hs_Version := ucast (vh_Version v11hs)\<rparr>;
           hs = (if length (vh_Alternatives v11hs) > 0
                 then hs\<lparr>hs_Alternatives := map endpoint_of_V11 (vh_Alternatives v11hs)\<rparr> else hs)
       in Inr (hs, rw)))"

definition V11_Send :: "(V11Msg \<Rightarrow> bytes result) \<Rightarrow> Parcel \<Rightarrow> 'g conn \<Rightarrow> 'g conn result" where
  "V11_Send pm p rw =
     writeMessage pm (new_V11Msg\<lparr>vm_Type := ucast (ptype p), vm_Payload := Payload p\<rparr>) rw"

definition V11_Receive :: "(bytes \<Rightarrow> V11Msg result) \<Rightarrow> 'g conn \<Rightarrow> (Parcel \<times> 'g conn) result" where
  "V11_Receive pu rw =
     bindR (readMessage pu rw) (\<lambda>(msg, rw). Inr (newParcel (ucast (vm_Type msg)) (vm_Payload msg), rw))"

definition V11_Version :: "16 word" where "V11_Version = 11"

text \<open>The generated \<open>Marshal\<close> cannot fail otherwise than by a panic (\<open>None\<close>).\<close>

definition V11_MakePeerShare :: "Endpoint list \<Rightarrow> bytes option" where
  "V11_MakePeerShare ps = V11Share_Marshal (new_V11Share\<lparr>vs_Share := map endpoint_to_V11 ps\<rparr>)"

definition V11_ParsePeerShare :: "bytes \<Rightarrow> Endpoint list result" where
  "V11_ParsePeerShare payload =
     (case V11Share_Unmarshal new_V11Share payload of
        Inl e \<Rightarrow> Inl (Pb e)
      | Inr v11share \<Rightarrow> Inr (map endpoint_of_V11 (vs_Share v11share)))"

subsection \<open>Framing is reversible\<close>

text \<open>The documented behaviour of the protobuf package: \<open>proto.Marshal\<close> returns what the message's own
  marshalling method writes, \<open>proto.Unmarshal\<close> resets the message and calls its own \<open>Unmarshal\<close>.\<close>

definition proto_dispatch ::
  "('m \<Rightarrow> bytes option) \<Rightarrow> (bytes \<Rightarrow> pb_error + 'm) \<Rightarrow> ('m \<Rightarrow> bytes result) \<Rightarrow> (bytes \<Rightarrow> 'm result) \<Rightarrow> bool" where
  "proto_dispatch Marshal Unmarshal pm pu \<longleftrightarrow>
     (\<forall>m bs. Marshal m = Some bs \<longrightarrow> pm m = Inr bs)
     \<and> (\<forall>d. pu d = (case Unmarshal d of Inl e \<Rightarrow> Inl (Pb e) | Inr m \<Rightarrow> Inr m))"

text \<open>The instance the program runs with.\<close>

definition gen_Marshal :: "('m \<Rightarrow> bytes option) \<Rightarrow> 'm \<Rightarrow> bytes result" where
  "gen_Marshal Marshal m = (case Marshal m of None \<Rightarrow> Inl (Sys ErrIO) | Some bs \<Rightarrow> Inr bs)"

definition gen_Unmarshal :: "(bytes \<Rightarrow> pb_error + 'm) \<Rightarrow> bytes \<Rightarrow> 'm result" where
  "gen_Unmarshal Unmarshal d = (case Unmarshal d of Inl e \<Rightarrow> Inl (Pb e) | Inr m \<Rightarrow> Inr m)"

lemma gen_dispatch: "proto_dispatch M U (gen_Marshal M) (gen_Unmarshal U)"
  by (simp add: proto_dispatch_def gen_Marshal_def gen_Unmarshal_def)

lemma proto_dispatch_eq:
  assumes "proto_dispatch M U pm pu" and "\<And>m. M m \<noteq> None"
  shows "pm = gen_Marshal M" and "pu = gen_Unmarshal U"
proof
  fix m
  from assms(2) obtain bs where "M m = Some bs" by auto
  with assms(1) show "pm m = gen_Marshal M m" by (simp add: proto_dispatch_def gen_Marshal_def)
next
  show "pu = gen_Unmarshal U"
    using assms(1) by (auto simp: proto_dispatch_def gen_Unmarshal_def)
qed

lemma writeCheck_Inr: "writeCheck data rw = Inr rw' \<Longrightarrow> rw_out rw' = rw_out rw @ map Byte data"
  by (auto simp: writeCheck_def Write_def Let_def split: if_splits prod.splits)

lemma readCheck_append [simp]:
  "rw_in r = map Byte x @ rest \<Longrightarrow> length x = n \<Longrightarrow> readCheck n r = Inr (x, r\<lparr>rw_in := rest\<rparr>)"
  by (simp add: readCheck_def)

lemma readCheck_Inr_iff:
  "readCheck n r = Inr (x, r') \<longleftrightarrow>
     (\<exists>rest. rw_in r = map Byte x @ rest \<and> length x = n \<and> r' = r\<lparr>rw_in := rest\<rparr>)" (is "?read \<longleftrightarrow> ?front")
proof
  assume ?read
  then have n: "\<not> length (rw_in r) < n" and x: "take n (rw_in r) = map Byte x"
    and r': "r' = r\<lparr>rw_in := drop n (rw_in r)\<rparr>"
    by (auto simp: readCheck_def ReadFull_def items_bytes_Some_iff split: if_splits option.splits)
  from x n have "length x = n" by (metis length_map length_take min.absorb2 not_less)
  with x r' append_take_drop_id [of n "rw_in r"] show ?front by metis
qed auto

definition v11_frame :: "bytes \<Rightarrow> 'g item list" where
  "v11_frame data = map Byte (BigEndian_PutUint32 (of_nat (length data)) @ data)"

lemma writeMessage_Inr:
  assumes "writeMessage pm msg w = Inr w'" and "pm msg = Inr data"
  shows "rw_out w' = rw_out w @ v11_frame data" and "length data \<le> V11MaxParcelSize"
  using assms by (auto simp: writeMessage_def v11_frame_def bindR_Inr_iff split: if_splits
      dest!: writeCheck_Inr)

lemma unat_of_nat_size: "n \<le> V11MaxParcelSize \<Longrightarrow> unat (of_nat n :: 32 word) = n"
  by (simp add: unat_of_nat V11MaxParcelSize_def)

lemma readMessage_frame:
  assumes "rw_in r = v11_frame data @ rest" and "length data \<le> V11MaxParcelSize"
  shows "readMessage pu r = bindR (pu data) (\<lambda>msg. Inr (msg, r\<lparr>rw_in := rest\<rparr>))"
proof -
  have "\<not> of_nat V11MaxParcelSize < (of_nat (length data) :: 32 word)"
    using assms(2) by (simp add: word_less_nat_alt unat_of_nat_size)
  moreover have "readCheck 4 r
      = Inr (BigEndian_PutUint32 (of_nat (length data)), r\<lparr>rw_in := map Byte data @ rest\<rparr>)"
    using assms(1) by (intro readCheck_append) (simp_all add: v11_frame_def)
  ultimately show ?thesis
    using assms(2) by (simp add: readMessage_def BigEndian_roundtrip unat_of_nat_size)
qed

lemma less_2_63: "n \<le> V11MaxParcelSize \<Longrightarrow> n < 2 ^ 63"
  by (simp add: V11MaxParcelSize_def)

lemma ucast_16_32 [simp]: "(ucast (ucast (x :: 16 word) :: 32 word) :: 16 word) = x"
  by (simp add: ucast_up_ucast_id is_up)

lemma V11_Send_frame:
  assumes "V11_Send (gen_Marshal V11Msg_Marshal) p w = Inr w'"
  defines "m \<equiv> new_V11Msg\<lparr>vm_Type := ucast (ptype p), vm_Payload := Payload p\<rparr>"
  shows "rw_out w' = rw_out w @ v11_frame (enc_V11Msg m)" and "length (enc_V11Msg m) \<le> V11MaxParcelSize"
  using writeMessage_Inr [of "gen_Marshal V11Msg_Marshal" m w w' "enc_V11Msg m"] assms
  by (simp_all add: V11_Send_def m_def gen_Marshal_def V11_Marshal_eq)

lemma V11_Receive_frame:
  defines "m \<equiv> \<lambda>p. new_V11Msg\<lparr>vm_Type := ucast (ptype p), vm_Payload := Payload p\<rparr>"
  assumes "rw_in r = v11_frame (enc_V11Msg (m p)) @ rest" and "length (enc_V11Msg (m p)) \<le> V11MaxParcelSize"
  shows "V11_Receive (gen_Unmarshal (V11Msg_Unmarshal new_V11Msg)) r
    = Inr (newParcel (ptype p) (Payload p), r\<lparr>rw_in := rest\<rparr>)"
proof -
  have "V11Msg_Unmarshal new_V11Msg (enc_V11Msg (m p)) = Inr (m p)"
    using less_2_63 [OF assms(3)] by (intro msg_unmarshal_enc) (simp_all add: m_def new_V11Msg_def)
  then have "readMessage (gen_Unmarshal (V11Msg_Unmarshal new_V11Msg)) r = Inr (m p, r\<lparr>rw_in := rest\<rparr>)"
    using readMessage_frame [OF assms(2,3), of "gen_Unmarshal (V11Msg_Unmarshal new_V11Msg)"]
    by (simp add: gen_Unmarshal_def)
  then show ?thesis
    by (simp add: V11_Receive_def m_def)
qed

interpretation v11: parcel_protocol "V11_Send (gen_Marshal V11Msg_Marshal)"
  "V11_Receive (gen_Unmarshal (V11Msg_Unmarshal new_V11Msg))" rw_out rw_in "\<lambda>_ _. True"
  "\<lambda>p. newParcel (ptype p) (Payload p)" "\<lambda>_. True"
proof
  fix p :: Parcel and w w' :: "'g conn"
  assume "V11_Send (gen_Marshal V11Msg_Marshal) p w = Inr w'"
  from V11_Send_frame [OF this] V11_Receive_frame
  show "\<exists>f. rw_out w' = rw_out w @ f \<and> (\<forall>r rest. True \<longrightarrow> rw_in (r :: 'g conn) = f @ rest \<longrightarrow>
      (\<exists>r'. V11_Receive (gen_Unmarshal (V11Msg_Unmarshal new_V11Msg)) r
        = Inr (newParcel (ptype p) (Payload p), r') \<and> rw_in r' = rest \<and> True))"
    by fastforce
qed

definition handshake_to_V11 :: "Handshake \<Rightarrow> V11Handshake" where
  "handshake_to_V11 hs = new_V11Handshake\<lparr>vh_Type := ucast (hs_Type hs), vh_ListenPort := hs_ListenPort hs,
     vh_Loopback := hs_Loopback hs, vh_Network := hs_Network hs, vh_NodeID := hs_NodeID hs,
     vh_Version := ucast (hs_Version hs), vh_Alternatives := map endpoint_to_V11 (hs_Alternatives hs)\<rparr>"

lemma V11_SendHandshake_eq:
  "V11_SendHandshake pm hs rw = bindR (writeCheck V11Signature rw) (writeMessage pm (handshake_to_V11 hs))"
  by (cases "hs_Alternatives hs")
    (simp_all add: V11_SendHandshake_def handshake_to_V11_def new_V11Handshake_def)

lemma endpoint_of_to_V11 [simp]: "endpoint_of_V11 (endpoint_to_V11 e) = e"
  by (simp add: endpoint_of_V11_def endpoint_to_V11_def)

lemma plain_endpoint_to_V11 [simp]: "plain_endpoint (endpoint_to_V11 e)"
  by (simp add: plain_endpoint_def endpoint_to_V11_def new_V11Endpoint_def)

lemma handshake_unmarshal_to_V11:
  "length (enc_V11Handshake (handshake_to_V11 hs)) \<le> V11MaxParcelSize \<Longrightarrow>
    V11Handshake_Unmarshal new_V11Handshake (enc_V11Handshake (handshake_to_V11 hs)) = Inr (handshake_to_V11 hs)"
  by (intro handshake_unmarshal_enc less_2_63)
    (simp_all add: handshake_to_V11_def new_V11Handshake_def list_all_iff)

lemma readMessage_handshake:
  assumes "rw_in r = v11_frame (enc_V11Handshake (handshake_to_V11 hs)) @ rest"
    and "length (enc_V11Handshake (handshake_to_V11 hs)) \<le> V11MaxParcelSize"
  shows "readMessage (gen_Unmarshal (V11Handshake_Unmarshal new_V11Handshake)) r
    = Inr (handshake_to_V11 hs, r\<lparr>rw_in := rest\<rparr>)"
  using readMessage_frame [OF assms, of "gen_Unmarshal (V11Handshake_Unmarshal new_V11Handshake)"]
  by (simp add: gen_Unmarshal_def handshake_unmarshal_to_V11 [OF assms(2)])

lemma V11_ReadHandshake_of:
  assumes "rw_in r = map Byte V11Signature @ rest"
    and "readMessage pu (r\<lparr>rw_in := rest\<rparr>) = Inr (handshake_to_V11 hs, r')"
  shows "V11_ReadHandshake pu r = Inr (hs, r')"
proof -
  have "readCheck 4 r = Inr (V11Signature, r\<lparr>rw_in := rest\<rparr>)"
    using assms(1) by (intro readCheck_append) (simp_all add: V11Signature_def)
  with assms(2) show ?thesis
    by (cases hs) (simp add: V11_ReadHandshake_def handshake_to_V11_def zero_Handshake_def
        new_V11Handshake_def comp_def Let_def)
qed

lemma V11_handshake_frame:
  assumes "proto_dispatch V11Handshake_Marshal (V11Handshake_Unmarshal new_V11Handshake) pm pu"
    and "V11_SendHandshake pm hs w = Inr w'"
  shows "\<exists>f. rw_out w' = rw_out w @ map Byte V11Signature @ f
    \<and> (\<forall>r rest. rw_in r = map Byte V11Signature @ f @ rest \<longrightarrow> V11_ReadHandshake pu r = Inr (hs, r\<lparr>rw_in := rest\<rparr>))"
proof -
  let ?d = "enc_V11Handshake (handshake_to_V11 hs)"
  have eqs: "pm = gen_Marshal V11Handshake_Marshal"
    "pu = gen_Unmarshal (V11Handshake_Unmarshal new_V11Handshake)"
    using proto_dispatch_eq [OF assms(1)] by (simp_all add: V11_Marshal_eq)
  from assms(2) obtain w1 where w1: "writeCheck V11Signature w = Inr w1"
    and m: "writeMessage pm (handshake_to_V11 hs) w1 = Inr w'"
    by (auto simp: V11_SendHandshake_eq bindR_Inr_iff)
  have "pm (handshake_to_V11 hs) = Inr ?d" by (simp add: eqs(1) gen_Marshal_def V11_Marshal_eq)
  from writeMessage_Inr [OF m this] writeCheck_Inr [OF w1]
  have out: "rw_out w' = rw_out w @ map Byte V11Signature @ v11_frame ?d" and len: "length ?d \<le> V11MaxParcelSize"
    by simp_all
  have "V11_ReadHandshake pu r = Inr (hs, r\<lparr>rw_in := rest\<rparr>)"
    if r: "rw_in r = map Byte V11Signature @ v11_frame ?d @ rest" for r rest
    using readMessage_handshake [of "r\<lparr>rw_in := v11_frame ?d @ rest\<rparr>" hs rest] len
    by (intro V11_ReadHandshake_of [OF r]) (simp add: eqs(2))
  with out show ?thesis by blast
qed

subsection \<open>Properties\<close>

text \<open>Version 11 delivers parcels: if one side sends a sequence of parcels without an error, the
  other side, reading the bytes that were written, receives exactly these parcels, in order, each with
  its type and payload (the address is not transmitted), and what follows stays unread.\<close>

theorem V11_parcels_delivered:
  assumes "proto_dispatch V11Msg_Marshal (V11Msg_Unmarshal new_V11Msg) pm pu"
    and "send_all (V11_Send pm) ps w = Inr w'" and "rw_out w = []" and "rw_in r = rw_out w' @ rest"
  shows "\<exists>r'. recv_n (V11_Receive pu) (length ps) r
      = Inr (map (\<lambda>p. newParcel (ptype p) (Payload p)) ps, r') \<and> rw_in r' = rest"
proof -
  have "pm = gen_Marshal V11Msg_Marshal" "pu = gen_Unmarshal (V11Msg_Unmarshal new_V11Msg)"
    using proto_dispatch_eq [OF assms(1)] by (simp_all add: V11_Marshal_eq)
  with v11.stream_delivered [of ps w w' r rest] assms(2-4) show ?thesis by (simp add: list_all_iff)
qed

theorem V11_parcels_delivered_witness:
  "\<exists>w' r'. send_all (V11_Send (gen_Marshal V11Msg_Marshal)) [newParcel TypeMessage [7], newParcel TypePing [1]]
      (open_rw []) = Inr w'
    \<and> recv_n (V11_Receive (gen_Unmarshal (V11Msg_Unmarshal new_V11Msg))) 2 (open_rw (rw_out w' @ [Byte 5]))
      = Inr ([newParcel TypeMessage [7], newParcel TypePing [1]], r')
    \<and> rw_in r' = [Byte 5 :: unit item]"
proof -
  let ?ps = "[newParcel TypeMessage [7], newParcel TypePing [1]]"
  obtain w' :: "unit conn" where
    w': "send_all (V11_Send (gen_Marshal V11Msg_Marshal)) ?ps (open_rw []) = Inr w'"
    using sov_le_10 [of 6] sov_le_10 [of 1]
    by (simp add: V11_Send_def writeMessage_def gen_Marshal_def V11_Marshal_eq writeCheck_def Write_def
        open_rw_def newParcel_def ParcelType_defs V11MaxParcelSize_def new_V11Msg_def Let_def
        V11Msg_Size_def size_varint_field_def size_len_field_def size_len_def flip: V11Msg_Size_eq)
  from V11_parcels_delivered [OF gen_dispatch w', of "open_rw (rw_out w' @ [Byte 5])" "[Byte 5]"] w'
  show ?thesis by (auto simp: open_rw_def newParcel_def numeral_2_eq_2)
qed

text \<open>The handshake of version 11 survives the connection: what \<open>SendHandshake\<close> wrote, in front of any
  other bytes, is read back by \<open>ReadHandshake\<close> as the same handshake, and the other bytes stay unread.\<close>

theorem V11_handshake_delivered:
  assumes "proto_dispatch V11Handshake_Marshal (V11Handshake_Unmarshal new_V11Handshake) pm pu"
    and "V11_SendHandshake pm hs w = Inr w'" and "rw_out w = []" and "rw_in r = rw_out w' @ rest"
  shows "V11_ReadHandshake pu r = Inr (hs, r\<lparr>rw_in := rest\<rparr>)"
  using V11_handshake_frame [OF assms(1,2)] assms(3,4) by auto

theorem V11_handshake_delivered_witness:
  "\<exists>w'. V11_SendHandshake (gen_Marshal V11Handshake_Marshal) (newHandshake DefaultP2PConfiguration 5)
      (open_rw []) = Inr w'
    \<and> V11_ReadHandshake (gen_Unmarshal (V11Handshake_Unmarshal new_V11Handshake))
        (open_rw (rw_out w' @ [Byte 9 :: unit item]))
      = Inr (newHandshake DefaultP2PConfiguration 5, open_rw [Byte 9])"
proof -
  let ?hs = "newHandshake DefaultP2PConfiguration 5"
  have "length (enc_V11Handshake (handshake_to_V11 ?hs)) \<le> V11MaxParcelSize"
    using sov_le_10 [of "ucast TypeHandshake"] sov_le_10 [of "ucast MainNet"] sov_le_10 [of 10]
      sov_le_10 [of 4] sov_le_10 [of 5]
    by (simp flip: V11Handshake_Size_eq add: V11Handshake_Size_def size_varint_field_def size_len_field_def
        size_len_def handshake_to_V11_def new_V11Handshake_def DefaultP2PConfiguration_def ParcelType_defs
        V11MaxParcelSize_def MainNet_def)
  then obtain w' :: "unit conn" where w': "V11_SendHandshake (gen_Marshal V11Handshake_Marshal) ?hs (open_rw []) = Inr w'"
    by (simp add: V11_SendHandshake_eq writeMessage_def gen_Marshal_def V11_Marshal_eq writeCheck_def Write_def
        open_rw_def Let_def)
  from V11_handshake_delivered [OF gen_dispatch w', of "open_rw (rw_out w' @ [Byte 9])" "[Byte 9]"] w' show ?thesis
    by (simp add: open_rw_def)
qed

text \<open>C24: \<open>readMessage\<close> accepts exactly the frames of the format: it returns a message if and only if the
  input starts with a 4-byte big-endian size of at most 128 MiB, followed by that many bytes that
  unmarshal to the message; it consumes exactly those bytes.\<close>

theorem readMessage_exact:
  "readMessage pu r = Inr (m, r') \<longleftrightarrow>
     (\<exists>hdr data rest. rw_in r = map Byte hdr @ map Byte data @ rest \<and> r' = r\<lparr>rw_in := rest\<rparr> \<and> length hdr = 4
       \<and> unat (BigEndian_Uint32 hdr) = length data \<and> length data \<le> V11MaxParcelSize \<and> pu data = Inr m)"
  (is "?read \<longleftrightarrow> ?frame")
proof
  assume ?read
  then obtain hdr r1 data where h: "readCheck 4 r = Inr (hdr, r1)"
    and s: "\<not> of_nat V11MaxParcelSize < BigEndian_Uint32 hdr"
    and d: "readCheck (unat (BigEndian_Uint32 hdr)) r1 = Inr (data, r')" and m: "pu data = Inr m"
    by (auto simp: readMessage_def bindR_Inr_iff Let_def split: if_splits)
  from s have "unat (BigEndian_Uint32 hdr) \<le> V11MaxParcelSize"
    by (simp add: word_less_nat_alt unat_of_nat_size)
  with h d m obtain rest where "rw_in r = map Byte hdr @ map Byte data @ rest" "r' = r\<lparr>rw_in := rest\<rparr>" "length hdr = 4"
    "unat (BigEndian_Uint32 hdr) = length data" "length data \<le> V11MaxParcelSize" "pu data = Inr m"
    by (auto simp: readCheck_Inr_iff)
  then show ?frame by blast
next
  assume ?frame
  then obtain hdr data rest where f: "rw_in r = map Byte hdr @ map Byte data @ rest" "r' = r\<lparr>rw_in := rest\<rparr>"
    "length hdr = 4" "unat (BigEndian_Uint32 hdr) = length data" "length data \<le> V11MaxParcelSize"
    "pu data = Inr m" by blast
  from f have "readCheck 4 r = Inr (hdr, r\<lparr>rw_in := map Byte data @ rest\<rparr>)" by (intro readCheck_append) simp_all
  moreover have "\<not> of_nat V11MaxParcelSize < BigEndian_Uint32 hdr"
    using f by (simp add: word_less_nat_alt unat_of_nat_size)
  ultimately show ?read using f by (simp add: readMessage_def)
qed

text \<open>Peer shares of version 11 survive the wire format: the payload is always built, and if it has less
  than \<open>2 ^ 63\<close> bytes the remote side parses the same endpoints in the same order from it.\<close>

lemma V11_peer_share_roundtrip:
  "\<exists>d. V11_MakePeerShare ps = Some d \<and> (length d < 2 ^ 63 \<longrightarrow> V11_ParsePeerShare d = Inr ps)"
  using share_unmarshal_enc [of "new_V11Share\<lparr>vs_Share := map endpoint_to_V11 ps\<rparr>"]
  by (auto simp: V11_MakePeerShare_def V11_ParsePeerShare_def V11_Marshal_eq new_V11Share_def list_all_iff
      comp_def)

end
