(* ===== verification/Protocols.thy ===== *)
theory Protocols
  imports ProtoGob ProtoV11
begin

section \<open>The protocol interface\<close>

text \<open>
  \<open>protocol.go\<close>: the interface \<open>Protocol\<close> with its three implementations is a datatype, a method call a
  case distinction. \<open>Lib\<close> collects the packages outside the repository's own code that the
  implementations call: the protobuf package and JSON, as pairs of arguments, and SHA-1.
\<close>

record Lib =
  lib_pmH :: "V11Handshake \<Rightarrow> bytes result"
  lib_puH :: "bytes \<Rightarrow> V11Handshake result"
  lib_pmM :: "V11Msg \<Rightarrow> bytes result"
  lib_puM :: "bytes \<Rightarrow> V11Msg result"
  lib_jmE :: "Endpoint list \<Rightarrow> bytes result"
  lib_juE :: "bytes \<Rightarrow> Endpoint list result"
  lib_jmS :: "V9Share list \<Rightarrow> bytes result"
  lib_juS :: "bytes \<Rightarrow> V9Share list result"
  lib_sha1 :: "bytes \<Rightarrow> bytes"

datatype Protocol = PV9 ProtocolV9 | PV10 ProtocolV10 | PV11

type_synonym prot_conn = "Protocol \<times> gob_conn"

definition Prot_SendHandshake :: "Lib \<Rightarrow> Handshake \<Rightarrow> prot_conn \<Rightarrow> prot_conn result" where
  "Prot_SendHandshake lib hs s =
     (case s of
        (PV9 v9, rw) \<Rightarrow> bindR (V9_SendHandshake (lib_jmE lib) hs (v9, rw)) (\<lambda>(v9, rw). Inr (PV9 v9, rw))
      | (PV10 v10, rw) \<Rightarrow> bindR (V10_SendHandshake (lib_jmE lib) hs (v10, rw)) (\<lambda>(v10, rw). Inr (PV10 v10, rw))
      | (PV11, rw) \<Rightarrow> bindR (V11_SendHandshake (lib_pmH lib) hs rw) (\<lambda>rw. Inr (PV11, rw)))"

definition Prot_ReadHandshake :: "Lib \<Rightarrow> prot_conn \<Rightarrow> (Handshake \<times> prot_conn) result" where
  "Prot_ReadHandshake lib s =
     (case s of
        (PV9 v9, rw) \<Rightarrow> bindR (V9_ReadHandshake (lib_juE lib) (v9, rw)) (\<lambda>(hs, v9, rw). Inr (hs, PV9 v9, rw))
      | (PV10 v10, rw) \<Rightarrow> bindR (V10_ReadHandshake (v10, rw)) (\<lambda>(hs, v10, rw). Inr (hs, PV10 v10, rw))
      | (PV11, rw) \<Rightarrow> bindR (V11_ReadHandshake (lib_puH lib) rw) (\<lambda>(hs, rw). Inr (hs, PV11, rw)))"

definition Prot_Send :: "Lib \<Rightarrow> Parcel \<Rightarrow> prot_conn \<Rightarrow> prot_conn result" where
  "Prot_Send lib p s =
     (case s of
        (PV9 v9, rw) \<Rightarrow> bindR (V9_Send p (v9, rw)) (\<lambda>(v9, rw). Inr (PV9 v9, rw))
      | (PV10 v10, rw) \<Rightarrow> bindR (V10_Send p (v10, rw)) (\<lambda>(v10, rw). Inr (PV10 v10, rw))
      | (PV11, rw) \<Rightarrow> bindR (V11_Send (lib_pmM lib) p rw) (\<lambda>rw. Inr (PV11, rw)))"

definition Prot_Receive :: "Lib \<Rightarrow> prot_conn \<Rightarrow> (Parcel \<times> prot_conn) result" where
  "Prot_Receive lib s =
     (case s of
        (PV9 v9, rw) \<Rightarrow> bindR (V9_Receive (v9, rw)) (\<lambda>(p, v9, rw). Inr (p, PV9 v9, rw))
      | (PV10 v10, rw) \<Rightarrow> bindR (V10_Receive (v10, rw)) (\<lambda>(p, v10, rw). Inr (p, PV10 v10, rw))
      | (PV11, rw) \<Rightarrow> bindR (V11_Receive (lib_puM lib) rw) (\<lambda>(p, rw). Inr (p, PV11, rw)))"

text \<open>The marshaller of version 11 does not fail (it could only panic, which \<open>V11_Marshal_eq\<close> excludes).\<close>

definition Prot_MakePeerShare :: "Lib \<Rightarrow> Protocol \<Rightarrow> Endpoint list \<Rightarrow> bytes result" where
  "Prot_MakePeerShare lib prot eps =
     (case prot of
        PV9 v9 \<Rightarrow> V9_MakePeerShare (lib_jmS lib) v9 eps
      | PV10 v10 \<Rightarrow> V10_MakePeerShare (lib_jmE lib) eps
      | PV11 \<Rightarrow> (case V11_MakePeerShare eps of None \<Rightarrow> Inl (Sys ErrIO) | Some d \<Rightarrow> Inr d))"

definition Prot_ParsePeerShare :: "Lib \<Rightarrow> Protocol \<Rightarrow> bytes \<Rightarrow> Endpoint list result" where
  "Prot_ParsePeerShare lib prot payload =
     (case prot of
        PV9 v9 \<Rightarrow> V9_ParsePeerShare (lib_juS lib) payload
      | PV10 v10 \<Rightarrow> V10_ParsePeerShare (lib_juE lib) payload
      | PV11 \<Rightarrow> V11_ParsePeerShare payload)"

definition Prot_Version :: "Protocol \<Rightarrow> 16 word" where
  "Prot_Version prot = (case prot of PV9 _ \<Rightarrow> V9_Version | PV10 _ \<Rightarrow> V10_Version | PV11 \<Rightarrow> V11_Version)"

definition V9_String :: string where "V9_String = ''9''"
definition V10_String :: string where "V10_String = ''10''"
definition V11_String :: string where "V11_String = ''11''"

definition Prot_String :: "Protocol \<Rightarrow> string" where
  "Prot_String prot = (case prot of PV9 _ \<Rightarrow> V9_String | PV10 _ \<Rightarrow> V10_String | PV11 \<Rightarrow> V11_String)"

text \<open>The libraries behave as documented.\<close>

definition lib_ok :: "Lib \<Rightarrow> bool" where
  "lib_ok lib \<longleftrightarrow>
     proto_dispatch V11Handshake_Marshal (V11Handshake_Unmarshal new_V11Handshake) (lib_pmH lib) (lib_puH lib)
     \<and> proto_dispatch V11Msg_Marshal (V11Msg_Unmarshal new_V11Msg) (lib_pmM lib) (lib_puM lib)
     \<and> json_codec ascii_endpoint (lib_jmE lib) (lib_juE lib)"

text \<open>An instance for examples.\<close>

definition sample_lib :: Lib where
  "sample_lib = \<lparr>lib_pmH = gen_Marshal V11Handshake_Marshal,
     lib_puH = gen_Unmarshal (V11Handshake_Unmarshal new_V11Handshake),
     lib_pmM = gen_Marshal V11Msg_Marshal, lib_puM = gen_Unmarshal (V11Msg_Unmarshal new_V11Msg),
     lib_jmE = sample_jm, lib_juE = sample_ju,
     lib_jmS = sample_jmS, lib_juS = (\<lambda>d. Inr (sample_shares d)), lib_sha1 = take 20\<rparr>"

lemma sample_lib_ok: "lib_ok sample_lib"
  by (simp add: lib_ok_def sample_lib_def gen_dispatch sample_codec)

lemma lib_ok_V11:
  assumes "lib_ok lib"
  shows "lib_pmM lib = gen_Marshal V11Msg_Marshal" "lib_puM lib = gen_Unmarshal (V11Msg_Unmarshal new_V11Msg)"
  using assms proto_dispatch_eq [of V11Msg_Marshal "V11Msg_Unmarshal new_V11Msg" "lib_pmM lib" "lib_puM lib"]
  by (simp_all add: lib_ok_def V11_Marshal_eq)

text \<open>Both ends speak the same version, and the receiver has seen the types the sender has defined.\<close>

fun prot_in_step :: "prot_conn \<Rightarrow> prot_conn \<Rightarrow> bool" where
  "prot_in_step (PV9 s, w) (PV9 r, w') \<longleftrightarrow> v9_in_step (s, w) (r, w')"
| "prot_in_step (PV10 s, w) (PV10 r, w') \<longleftrightarrow> v10_in_step (s, w) (r, w')"
| "prot_in_step (PV11, w) (PV11, w') \<longleftrightarrow> True"
| "prot_in_step _ _ \<longleftrightarrow> False"

text \<open>What arrives of a parcel: only version 9 transmits the address. The receiving node overwrites it.\<close>

definition same_message :: "Parcel \<Rightarrow> Parcel \<Rightarrow> bool" where
  "same_message p q \<longleftrightarrow> ptype p = ptype q \<and> Payload p = Payload q"

lemma Prot_lift:
  "Prot_Send lib p (PV9 v9, rw) = bindR (V9_Send p (v9, rw)) (\<lambda>s. Inr (map_prod PV9 id s))"
  "Prot_Send lib p (PV10 v10, rw) = bindR (V10_Send p (v10, rw)) (\<lambda>s. Inr (map_prod PV10 id s))"
  "Prot_Send lib p (PV11, rw) = bindR (V11_Send (lib_pmM lib) p rw) (\<lambda>rw. Inr (PV11, rw))"
  "Prot_Receive lib (PV9 v9, rw) = bindR (V9_Receive (v9, rw)) (\<lambda>(p, s). Inr (p, map_prod PV9 id s))"
  "Prot_Receive lib (PV10 v10, rw) = bindR (V10_Receive (v10, rw)) (\<lambda>(p, s). Inr (p, map_prod PV10 id s))"
  "Prot_Receive lib (PV11, rw) = bindR (V11_Receive (lib_puM lib) rw) (\<lambda>(p, rw). Inr (p, PV11, rw))"
  by (auto simp: Prot_Send_def Prot_Receive_def bindR_def split: sum.splits)

lemma Prot_send_all:
  "send_all (Prot_Send lib) ps (map_prod PV9 id s9) = bindR (send_all V9_Send ps s9) (\<lambda>s. Inr (map_prod PV9 id s))"
  "send_all (Prot_Send lib) ps (map_prod PV10 id s10)
    = bindR (send_all V10_Send ps s10) (\<lambda>s. Inr (map_prod PV10 id s))"
  "send_all (Prot_Send lib) ps (Pair PV11 w)
    = bindR (send_all (V11_Send (lib_pmM lib)) ps w) (\<lambda>w. Inr (Pair PV11 w))"
  by (rule send_all_lift; auto simp: Prot_lift map_prod_def split: prod.splits)+

lemma Prot_recv_n:
  "recv_n (Prot_Receive lib) n (map_prod PV9 id s9) = bindR (recv_n V9_Receive n s9) (\<lambda>(ps, s). Inr (ps, map_prod PV9 id s))"
  "recv_n (Prot_Receive lib) n (map_prod PV10 id s10)
    = bindR (recv_n V10_Receive n s10) (\<lambda>(ps, s). Inr (ps, map_prod PV10 id s))"
  "recv_n (Prot_Receive lib) n (Pair PV11 w)
    = bindR (recv_n (V11_Receive (lib_puM lib)) n w) (\<lambda>(ps, w). Inr (ps, Pair PV11 w))"
  by (rule recv_n_lift; auto simp: Prot_lift map_prod_def split: prod.splits)+

lemma same_message_refl: "list_all2 same_message ps ps"
  by (simp add: list_all2_same same_message_def)

lemma same_message_newParcel: "list_all2 same_message ps (map (\<lambda>p. newParcel (ptype p) (Payload p)) ps)"
  by (simp add: list_all2_conv_all_nth same_message_def newParcel_def)

lemma V9_prot_delivered:
  assumes "send_all (Prot_Send lib) ps (PV9 v, w) = Inr s'" and "list_all has_payload ps"
    and "prot_in_step (PV9 v, w) r" and "rw_in (snd r) = drop (length (rw_out w)) (rw_out (snd s')) @ rest"
  shows "\<exists>r'. recv_n (Prot_Receive lib) (length ps) r = Inr (ps, r') \<and> rw_in (snd r') = rest \<and> prot_in_step s' r'"
proof -
  obtain u rd where r: "r = map_prod PV9 id (u, rd)" and i: "v9_in_step (v, w) (u, rd)"
    using assms(3) by (cases r; cases "fst r") auto
  have "send_all (Prot_Send lib) ps (map_prod PV9 id (v, w)) = Inr s'" using assms(1) by simp
  then obtain t' where t': "send_all V9_Send ps (v, w) = Inr t'" "s' = map_prod PV9 id t'"
    unfolding Prot_send_all bindR_Inr_iff by blast
  have "rw_in (snd (u, rd)) = drop (length (rw_out (snd (v, w)))) (rw_out (snd t')) @ rest"
    using assms(4) r t'(2) by simp
  from v9.stream_delivered_from [OF t'(1) assms(2) i this] obtain u' where
    "recv_n V9_Receive (length ps) (u, rd) = Inr (ps, u')" "rw_in (snd u') = rest" "v9_in_step t' u'" by auto
  then show ?thesis
    unfolding r Prot_recv_n t'(2) by (cases t'; cases u') simp
qed

lemma V10_prot_delivered:
  assumes "send_all (Prot_Send lib) ps (PV10 v, w) = Inr s'" and "list_all has_payload ps"
    and "prot_in_step (PV10 v, w) r" and "rw_in (snd r) = drop (length (rw_out w)) (rw_out (snd s')) @ rest"
  shows "\<exists>r'. recv_n (Prot_Receive lib) (length ps) r = Inr (map (\<lambda>p. newParcel (ptype p) (Payload p)) ps, r')
    \<and> rw_in (snd r') = rest \<and> prot_in_step s' r'"
proof -
  obtain u rd where r: "r = map_prod PV10 id (u, rd)" and i: "v10_in_step (v, w) (u, rd)"
    using assms(3) by (cases r; cases "fst r") auto
  have "send_all (Prot_Send lib) ps (map_prod PV10 id (v, w)) = Inr s'" using assms(1) by simp
  then obtain t' where t': "send_all V10_Send ps (v, w) = Inr t'" "s' = map_prod PV10 id t'"
    unfolding Prot_send_all bindR_Inr_iff by blast
  have "rw_in (snd (u, rd)) = drop (length (rw_out (snd (v, w)))) (rw_out (snd t')) @ rest"
    using assms(4) r t'(2) by simp
  from v10.stream_delivered_from [OF t'(1) assms(2) i this] obtain u' where
    "recv_n V10_Receive (length ps) (u, rd) = Inr (map (\<lambda>p. newParcel (ptype p) (Payload p)) ps, u')"
    "rw_in (snd u') = rest" "v10_in_step t' u'" by auto
  then show ?thesis
    unfolding r Prot_recv_n t'(2) by (cases t'; cases u') simp
qed

lemma V11_prot_delivered:
  assumes "lib_ok lib" and "send_all (Prot_Send lib) ps (PV11, w) = Inr s'"
    and "prot_in_step (PV11, w) r" and "rw_in (snd r) = drop (length (rw_out w)) (rw_out (snd s')) @ rest"
  shows "\<exists>r'. recv_n (Prot_Receive lib) (length ps) r = Inr (map (\<lambda>p. newParcel (ptype p) (Payload p)) ps, r')
    \<and> rw_in (snd r') = rest \<and> prot_in_step s' r'"
proof -
  obtain u where r: "r = (PV11, u)" using assms(3) by (cases r; cases "fst r") auto
  from assms(2) obtain w' where w': "send_all (V11_Send (lib_pmM lib)) ps w = Inr w'" "s' = (PV11, w')"
    unfolding Prot_send_all bindR_Inr_iff by blast
  have "rw_in u = drop (length (rw_out w)) (rw_out w') @ rest" "list_all (\<lambda>_. True) ps"
    using assms(4) r w'(2) by (simp_all add: list_all_iff)
  from v11.stream_delivered_from [OF w'(1) [unfolded lib_ok_V11 [OF assms(1)]] this(2) TrueI this(1)]
  obtain u' where "recv_n (V11_Receive (lib_puM lib)) (length ps) u
      = Inr (map (\<lambda>p. newParcel (ptype p) (Payload p)) ps, u')" "rw_in u' = rest"
    unfolding lib_ok_V11 [OF assms(1)] by blast
  then show ?thesis
    unfolding r Prot_recv_n w'(2) by simp
qed

lemma Prot_stream:
  assumes "lib_ok lib" and "send_all (Prot_Send lib) ps s = Inr s'" and "list_all has_payload ps"
    and "prot_in_step s r" and "rw_in (snd r) = drop (length (rw_out (snd s))) (rw_out (snd s')) @ rest"
  shows "\<exists>qs r'. recv_n (Prot_Receive lib) (length ps) r = Inr (qs, r') \<and> list_all2 same_message ps qs
    \<and> rw_in (snd r') = rest \<and> prot_in_step s' r'"
proof -
  obtain prot w where s: "s = (prot, w)" by (rule prod.exhaust)
  show ?thesis
  proof (cases prot)
    case (PV9 v)
    from V9_prot_delivered [of lib ps v w s' r rest] assms same_message_refl show ?thesis
      unfolding s PV9 snd_conv by blast
  next
    case (PV10 v)
    from V10_prot_delivered [of lib ps v w s' r rest] assms same_message_newParcel show ?thesis
      unfolding s PV10 snd_conv by blast
  next
    case PV11
    from V11_prot_delivered [OF assms(1), of ps w s' r rest] assms same_message_newParcel show ?thesis
      unfolding s PV11 snd_conv by blast
  qed
qed

subsection \<open>Properties\<close>

text \<open>C4: every version of the protocol delivers: between two peers that speak the same version and are in
  step, the parcels one of them sends without an error, none of them empty, are received by the other in
  order, with the same type and payload, whatever was exchanged before, and the two stay in step.\<close>

theorem Prot_parcels_delivered:
  assumes "lib_ok lib" and "send_all (Prot_Send lib) ps s = Inr s'" and "list_all has_payload ps"
    and "prot_in_step s r" and "rw_in (snd r) = drop (length (rw_out (snd s))) (rw_out (snd s')) @ rest"
  shows "\<exists>qs r'. recv_n (Prot_Receive lib) (length ps) r = Inr (qs, r') \<and> list_all2 same_message ps qs
    \<and> rw_in (snd r') = rest \<and> prot_in_step s' r'"
  by (rule Prot_stream [OF assms])

theorem Prot_parcels_delivered_witness:
  "\<exists>s' qs r'. send_all (Prot_Send sample_lib) [newParcel TypeMessage [1]] (PV10 (newProtocolV10 [] []), open_rw []) = Inr s'
    \<and> recv_n (Prot_Receive sample_lib) 1 (PV10 (newProtocolV10 [] []), open_rw (rw_out (snd s'))) = Inr (qs, r')
    \<and> list_all2 same_message [newParcel TypeMessage [1]] qs"
proof -
  let ?s = "(PV10 (newProtocolV10 [] []), open_rw [])"
  obtain s' where s': "send_all (Prot_Send sample_lib) [newParcel TypeMessage [1]] ?s = Inr s'"
    by (simp add: Prot_Send_def V10_Send_def newProtocolV10_def Encode_def gob_write_def Write_def open_rw_def Let_def)
  from Prot_parcels_delivered [OF sample_lib_ok s', of "(PV10 (newProtocolV10 [] []), open_rw (rw_out (snd s')))" "[]"] s'
  show ?thesis
    by (auto simp: has_payload_def v10_in_step_def newProtocolV10_def open_rw_def newParcel_def)
qed

end
