(* ===== verification/PeerStores.thy ===== *)
theory PeerStores
  imports Endpoints "HOL-Library.AList"
begin

section \<open>The peer store\<close>

text \<open>
  \<open>peerStore.go\<close>. Peers are shared objects: a peer is a reference into a heap, and the store compares
  references where the code compares pointers. Of the peer it reads only the three fields that never
  change after the handshake, \<open>PeerConsts\<close>, which the record \<open>Peer\<close> of theory \<open>Peers\<close> extends; the
  heap is an argument of the operations that read them. Go's map of peers is an association list, read
  in an arbitrary order by \<open>Slice\<close>; the map of counters keeps the absence of a key apart from zero.

  The locale \<open>keyed_store\<close> is the contract the controller relies on: a set of references, at most one
  for each hash. Replacing a peer by another with the same hash, as \<open>manageOnline\<close> does, is proved
  there.
\<close>

record PeerConsts =
  pk_Hash :: string
  pk_Endpoint :: Endpoint
  pk_IsIncoming :: bool

type_synonym peer_ref = nat

record PeerStore =
  ps_peers :: "(string \<times> peer_ref) list"
  ps_connected :: "string \<Rightarrow> int option"
  ps_curSlice :: "peer_ref list option"
  ps_incoming :: int
  ps_outgoing :: int

definition NewPeerStore :: PeerStore where
  "NewPeerStore = \<lparr>ps_peers = [], ps_connected = Map.empty, ps_curSlice = None, ps_incoming = 0,
     ps_outgoing = 0\<rparr>"

text \<open>Reading, incrementing and decrementing an entry of a \<open>map[string]int\<close>.\<close>

definition count_at :: "(string \<Rightarrow> int option) \<Rightarrow> string \<Rightarrow> int" where
  "count_at m k = (case m k of None \<Rightarrow> 0 | Some n \<Rightarrow> n)"

definition incr :: "string \<Rightarrow> (string \<Rightarrow> int option) \<Rightarrow> string \<Rightarrow> int option" where
  "incr k m = m(k := Some (count_at m k + 1))"

definition decr :: "string \<Rightarrow> (string \<Rightarrow> int option) \<Rightarrow> string \<Rightarrow> int option" where
  "decr k m =
     (let m = m(k := Some (count_at m k - 1)) in if count_at m k = 0 then m(k := None) else m)"

type_synonym 'a heap = "peer_ref \<Rightarrow> 'a PeerConsts_scheme"

definition PeerStore_Add :: "'a heap \<Rightarrow> peer_ref option \<Rightarrow> PeerStore \<Rightarrow> conn_error + PeerStore" where
  "PeerStore_Add h mp ps =
     (case mp of
        None \<Rightarrow> Inl ErrAddNil
      | Some r \<Rightarrow>
          (let p = h r in
           if map_of (ps_peers ps) (pk_Hash p) \<noteq> None then Inl ErrPeerExists
           else
             let ps = ps\<lparr>ps_curSlice := None\<rparr>;
                 ps = ps\<lparr>ps_peers := AList.update (pk_Hash p) r (ps_peers ps)\<rparr>;
                 ps = ps\<lparr>ps_connected := incr (IP (pk_Endpoint p)) (ps_connected ps)\<rparr>;
                 ps = ps\<lparr>ps_connected := incr (Endpoint_String (pk_Endpoint p)) (ps_connected ps)\<rparr>
             in Inr (if pk_IsIncoming p then ps\<lparr>ps_incoming := ps_incoming ps + 1\<rparr>
                     else ps\<lparr>ps_outgoing := ps_outgoing ps + 1\<rparr>)))"

definition PeerStore_Remove :: "'a heap \<Rightarrow> peer_ref option \<Rightarrow> PeerStore \<Rightarrow> PeerStore" where
  "PeerStore_Remove h mp ps =
     (case mp of
        None \<Rightarrow> ps
      | Some r \<Rightarrow>
          (let p = h r in
           if map_of (ps_peers ps) (pk_Hash p) = Some r then
             let ps = ps\<lparr>ps_connected := decr (IP (pk_Endpoint p)) (ps_connected ps)\<rparr>;
                 ps = ps\<lparr>ps_connected := decr (Endpoint_String (pk_Endpoint p)) (ps_connected ps)\<rparr>;
                 ps = (if pk_IsIncoming p then ps\<lparr>ps_incoming := ps_incoming ps - 1\<rparr>
                       else ps\<lparr>ps_outgoing := ps_outgoing ps - 1\<rparr>);
                 ps = ps\<lparr>ps_curSlice := None\<rparr>
             in ps\<lparr>ps_peers := AList.delete (pk_Hash p) (ps_peers ps)\<rparr>
           else ps))"

definition PeerStore_Total :: "PeerStore \<Rightarrow> nat" where
  "PeerStore_Total ps = length (ps_peers ps)"

definition PeerStore_Outgoing :: "PeerStore \<Rightarrow> int" where
  "PeerStore_Outgoing ps = ps_outgoing ps"

definition PeerStore_Incoming :: "PeerStore \<Rightarrow> int" where
  "PeerStore_Incoming ps = ps_incoming ps"

definition PeerStore_Get :: "PeerStore \<Rightarrow> string \<Rightarrow> peer_ref option" where
  "PeerStore_Get ps hsh = map_of (ps_peers ps) hsh"

definition PeerStore_Connections :: "PeerStore \<Rightarrow> string \<Rightarrow> int" where
  "PeerStore_Connections ps addr = count_at (ps_connected ps) addr"

definition PeerStore_Connected :: "PeerStore \<Rightarrow> Endpoint \<Rightarrow> bool" where
  "PeerStore_Connected ps ep \<longleftrightarrow> count_at (ps_connected ps) (Endpoint_String ep) > 0"

definition PeerStore_Count :: "PeerStore \<Rightarrow> string \<Rightarrow> int" where
  "PeerStore_Count ps addr = count_at (ps_connected ps) addr"

text \<open>The order in which Go ranges over the map is drawn from the random supply.\<close>

definition PeerStore_Slice :: "rng \<Rightarrow> PeerStore \<Rightarrow> peer_ref list \<times> PeerStore \<times> rng" where
  "PeerStore_Slice rnd ps =
     (case ps_curSlice ps of
        Some xs \<Rightarrow> (xs, ps, rnd)
      | None \<Rightarrow>
          (let (r, rnd') = Shuffle rnd (map snd (ps_peers ps))
           in (r, ps\<lparr>ps_curSlice := Some r\<rparr>, rnd')))"

subsection \<open>The invariant\<close>

definition peers_of :: "PeerStore \<Rightarrow> peer_ref list" where
  "peers_of ps = map snd (ps_peers ps)"

text \<open>How many peers an address (an ip or ip:port) stands for.\<close>

definition tally :: "'a heap \<Rightarrow> peer_ref list \<Rightarrow> string \<Rightarrow> nat" where
  "tally h rs k = length (filter (\<lambda>r. IP (pk_Endpoint (h r)) = k) rs)
     + length (filter (\<lambda>r. Endpoint_String (pk_Endpoint (h r)) = k) rs)"

definition counts_ok :: "(string \<Rightarrow> int option) \<Rightarrow> (string \<Rightarrow> nat) \<Rightarrow> bool" where
  "counts_ok m t \<longleftrightarrow> (\<forall>k. m k = (if t k = 0 then None else Some (int (t k))))"

definition store_inv :: "'a heap \<Rightarrow> PeerStore \<Rightarrow> bool" where
  "store_inv h ps \<longleftrightarrow>
     distinct (map fst (ps_peers ps))
     \<and> (\<forall>(k, r) \<in> set (ps_peers ps). pk_Hash (h r) = k)
     \<and> counts_ok (ps_connected ps) (tally h (peers_of ps))
     \<and> ps_incoming ps = int (length (filter (\<lambda>r. pk_IsIncoming (h r)) (peers_of ps)))
     \<and> ps_outgoing ps = int (length (filter (\<lambda>r. \<not> pk_IsIncoming (h r)) (peers_of ps)))
     \<and> (\<forall>xs. ps_curSlice ps = Some xs \<longrightarrow> mset xs = mset (peers_of ps))"

lemma count_at_ok: "counts_ok m t \<Longrightarrow> count_at m k = int (t k)"
  by (simp add: counts_ok_def count_at_def)

lemma incr_ok:
  "counts_ok m t \<Longrightarrow> counts_ok (incr k m) (\<lambda>x. if x = k then Suc (t x) else t x)"
  by (auto simp: counts_ok_def incr_def count_at_def)

lemma decr_ok:
  "counts_ok m (\<lambda>x. if x = k then Suc (t x) else t x) \<Longrightarrow> counts_ok (decr k m) t"
  by (auto simp: counts_ok_def decr_def count_at_def Let_def)

lemma length_filter_add_mset:
  assumes "mset rs' = add_mset r (mset rs)"
  shows "length (filter P rs') = (if P r then 1 else 0) + length (filter P rs)"
proof -
  have "size (filter_mset P (mset rs')) = (if P r then 1 else 0) + size (filter_mset P (mset rs))"
    by (simp add: assms)
  then show ?thesis by (metis mset_filter size_mset)
qed

lemma tally_Cons_mset:
  assumes "mset rs' = add_mset r (mset rs)"
  shows "tally h rs' = (\<lambda>x. if x = Endpoint_String (pk_Endpoint (h r))
    then Suc ((if x = IP (pk_Endpoint (h r)) then Suc (tally h rs x) else tally h rs x))
    else (if x = IP (pk_Endpoint (h r)) then Suc (tally h rs x) else tally h rs x))"
proof
  fix x
  show "tally h rs' x = (if x = Endpoint_String (pk_Endpoint (h r))
    then Suc ((if x = IP (pk_Endpoint (h r)) then Suc (tally h rs x) else tally h rs x))
    else (if x = IP (pk_Endpoint (h r)) then Suc (tally h rs x) else tally h rs x))"
    by (auto simp: tally_def length_filter_add_mset [OF assms])
qed

lemma alist_update_new: "map_of xs k = None \<Longrightarrow> AList.update k v xs = xs @ [(k, v)]"
  by (induction xs) (auto split: if_splits)

lemma mset_alist_delete:
  "distinct (map fst xs) \<Longrightarrow> map_of xs k = Some v \<Longrightarrow>
    mset (map snd xs) = add_mset v (mset (map snd (AList.delete k xs)))"
proof (induction xs)
  case (Cons x xs)
  show ?case
  proof (cases "fst x = k")
    case True
    with Cons.prems have "AList.delete k xs = xs" by (intro AList.delete_id) auto
    with True Cons.prems show ?thesis by (cases x) simp
  next
    case False
    with Cons show ?thesis by (cases x) simp
  qed
qed simp

lemma store_inv_New: "store_inv h NewPeerStore"
  by (simp add: store_inv_def NewPeerStore_def counts_ok_def tally_def peers_of_def)

lemma Add_result:
  assumes "PeerStore_Add h (Some r) ps = Inr ps'"
  shows "map_of (ps_peers ps) (pk_Hash (h r)) = None" and "ps_peers ps' = ps_peers ps @ [(pk_Hash (h r), r)]"
    and "ps_connected ps' = incr (Endpoint_String (pk_Endpoint (h r)))
      (incr (IP (pk_Endpoint (h r))) (ps_connected ps))"
    and "ps_curSlice ps' = None"
    and "ps_incoming ps' = ps_incoming ps + (if pk_IsIncoming (h r) then 1 else 0)"
    and "ps_outgoing ps' = ps_outgoing ps + (if pk_IsIncoming (h r) then 0 else 1)"
  using assms by (auto simp: PeerStore_Add_def Let_def alist_update_new split: if_splits)

lemma Add_inv:
  assumes "store_inv h ps" and "PeerStore_Add h (Some r) ps = Inr ps'"
  shows "store_inv h ps'"
proof -
  note add = Add_result [OF assms(2)]
  have m: "mset (peers_of ps') = add_mset r (mset (peers_of ps))" by (simp add: peers_of_def add(2))
  have "counts_ok (ps_connected ps') (tally h (peers_of ps'))"
    unfolding tally_Cons_mset [OF m] add(3) using assms(1) by (intro incr_ok) (simp add: store_inv_def)
  moreover have "distinct (map fst (ps_peers ps'))"
    using assms(1) add(1,2) by (auto simp: store_inv_def map_of_eq_None_iff)
  moreover have "\<forall>(k, r) \<in> set (ps_peers ps'). pk_Hash (h r) = k"
    using assms(1) add(2) by (auto simp: store_inv_def)
  ultimately show ?thesis
    using assms(1) add(4-6) by (simp add: store_inv_def length_filter_add_mset [OF m])
qed

lemma Remove_result:
  assumes "map_of (ps_peers ps) (pk_Hash (h r)) = Some r"
  defines "ps' \<equiv> PeerStore_Remove h (Some r) ps"
  shows "ps_peers ps' = AList.delete (pk_Hash (h r)) (ps_peers ps)"
    and "ps_connected ps' = decr (Endpoint_String (pk_Endpoint (h r)))
      (decr (IP (pk_Endpoint (h r))) (ps_connected ps))"
    and "ps_curSlice ps' = None"
    and "ps_incoming ps' = ps_incoming ps - (if pk_IsIncoming (h r) then 1 else 0)"
    and "ps_outgoing ps' = ps_outgoing ps - (if pk_IsIncoming (h r) then 0 else 1)"
  using assms by (simp_all add: PeerStore_Remove_def Let_def)

lemma Remove_other: "map_of (ps_peers ps) (pk_Hash (h r)) \<noteq> Some r \<Longrightarrow> PeerStore_Remove h (Some r) ps = ps"
  by (simp add: PeerStore_Remove_def Let_def)

lemma tally_IP_first:
  assumes "mset rs' = add_mset r (mset rs)"
  shows "tally h rs' = (\<lambda>x. if x = IP (pk_Endpoint (h r))
    then Suc (if x = Endpoint_String (pk_Endpoint (h r)) then Suc (tally h rs x) else tally h rs x)
    else (if x = Endpoint_String (pk_Endpoint (h r)) then Suc (tally h rs x) else tally h rs x))"
  unfolding tally_Cons_mset [OF assms] by auto

lemma Remove_inv:
  assumes "store_inv h ps"
  shows "store_inv h (PeerStore_Remove h mr ps)"
proof (cases "\<exists>r. mr = Some r \<and> map_of (ps_peers ps) (pk_Hash (h r)) = Some r")
  case True
  then obtain r where mr: "mr = Some r" and r: "map_of (ps_peers ps) (pk_Hash (h r)) = Some r" by blast
  note rem = Remove_result [where h = h and r = r and ps = ps, OF r]
  let ?ps = "PeerStore_Remove h (Some r) ps"
  have m: "mset (peers_of ps) = add_mset r (mset (peers_of ?ps))"
    using assms mset_alist_delete [OF _ r] by (simp add: peers_of_def rem(1) store_inv_def)
  have "counts_ok (ps_connected ps) (tally h (peers_of ps))" using assms by (simp add: store_inv_def)
  then have "counts_ok (ps_connected ?ps) (tally h (peers_of ?ps))"
    unfolding rem(2) tally_IP_first [OF m] by (intro decr_ok)
  moreover have "distinct (map fst (ps_peers ?ps))" "\<forall>(k, r) \<in> set (ps_peers ?ps). pk_Hash (h r) = k"
    using assms rem(1) by (auto simp: store_inv_def distinct_delete AList.delete_eq distinct_map_filter)
  ultimately show ?thesis
    using assms rem(3-5) by (simp add: mr store_inv_def length_filter_add_mset [OF m])
next
  case False
  then have "PeerStore_Remove h mr ps = ps"
    by (cases mr) (auto simp: PeerStore_Remove_def Let_def)
  with assms show ?thesis by simp
qed

lemma Slice_inv:
  assumes "store_inv h ps" and "PeerStore_Slice rnd ps = (xs, ps', rnd')"
  shows "store_inv h ps'" and "mset xs = mset (peers_of ps)" and "ps_peers ps' = ps_peers ps"
  using assms Shuffle_mset [of rnd "map snd (ps_peers ps)" xs rnd']
  by (auto simp: PeerStore_Slice_def store_inv_def peers_of_def split: option.splits prod.splits)

lemma store_inv_cong:
  assumes "\<And>r. r \<in> set (peers_of ps) \<Longrightarrow> PeerConsts.truncate (h' r) = PeerConsts.truncate (h r)"
  shows "store_inv h' ps = store_inv h ps"
proof -
  have c: "pk_Hash (h' r) = pk_Hash (h r)" "pk_Endpoint (h' r) = pk_Endpoint (h r)"
    "pk_IsIncoming (h' r) = pk_IsIncoming (h r)" if "r \<in> set (peers_of ps)" for r
    using assms [OF that] by (simp_all add: PeerConsts.truncate_def)
  then have "tally h' (peers_of ps) = tally h (peers_of ps)"
    by (auto simp: tally_def fun_eq_iff cong: filter_cong)
  moreover have "(\<forall>(k, r) \<in> set (ps_peers ps). pk_Hash (h' r) = k) \<longleftrightarrow> (\<forall>(k, r) \<in> set (ps_peers ps). pk_Hash (h r) = k)"
    using c(1) by (force simp: peers_of_def)
  ultimately show ?thesis
    using c(3) by (simp add: store_inv_def cong: filter_cong)
qed

lemma Get_iff:
  assumes "store_inv h ps"
  shows "PeerStore_Get ps k = Some r \<longleftrightarrow> r \<in> set (peers_of ps) \<and> pk_Hash (h r) = k"
proof -
  from assms have d: "distinct (map fst (ps_peers ps))"
    and k: "\<And>k r. (k, r) \<in> set (ps_peers ps) \<Longrightarrow> pk_Hash (h r) = k" by (auto simp: store_inv_def)
  have "PeerStore_Get ps k = Some r \<longleftrightarrow> (k, r) \<in> set (ps_peers ps)"
    using d by (simp add: PeerStore_Get_def)
  with k show ?thesis by (force simp: peers_of_def)
qed

lemma distinct_peers:
  assumes "store_inv h ps"
  shows "distinct (peers_of ps)"
proof -
  from assms have "distinct (map fst (ps_peers ps))" and
    k: "\<And>k r. (k, r) \<in> set (ps_peers ps) \<Longrightarrow> pk_Hash (h r) = k" by (auto simp: store_inv_def)
  moreover have "inj_on snd (set (ps_peers ps))"
    using k by (intro inj_onI) (metis prod.collapse)
  ultimately show ?thesis by (simp add: peers_of_def distinct_map)
qed

subsection \<open>The contract of the store\<close>

locale keyed_store =
  fixes add :: "'r \<Rightarrow> 's \<Rightarrow> 'e + 's"
    and remove :: "'r \<Rightarrow> 's \<Rightarrow> 's"
    and get :: "'s \<Rightarrow> 'k \<Rightarrow> 'r option"
    and refs :: "'s \<Rightarrow> 'r set"
    and key :: "'r \<Rightarrow> 'k"
    and inv :: "'s \<Rightarrow> bool"
  assumes get_iff: "inv s \<Longrightarrow> get s k = Some r \<longleftrightarrow> r \<in> refs s \<and> key r = k"
    and add_new: "inv s \<Longrightarrow> get s (key r) = None \<Longrightarrow>
      \<exists>s'. add r s = Inr s' \<and> inv s' \<and> refs s' = insert r (refs s)"
    and add_known: "get s (key r) \<noteq> None \<Longrightarrow> \<exists>e. add r s = Inl e"
    and remove_inv: "inv s \<Longrightarrow> inv (remove r s)"
    and remove_refs: "inv s \<Longrightarrow> refs (remove r s) = refs s - {r}"
begin

lemma key_unique: "inv s \<Longrightarrow> r \<in> refs s \<Longrightarrow> q \<in> refs s \<Longrightarrow> key r = key q \<Longrightarrow> r = q"
  using get_iff [of s "key q" r] get_iff [of s "key q" q] by simp

lemma get_None_iff: "inv s \<Longrightarrow> get s k = None \<longleftrightarrow> (\<forall>r \<in> refs s. key r \<noteq> k)"
  using get_iff [of s k] by (cases "get s k") auto

lemma replace:
  assumes "inv s"
  shows "\<exists>s'. add r (case get s (key r) of None \<Rightarrow> s | Some old \<Rightarrow> remove old s) = Inr s'
    \<and> inv s' \<and> refs s' = insert r {q \<in> refs s. key q \<noteq> key r}"
proof (cases "get s (key r)")
  case None
  with assms have "{q \<in> refs s. key q \<noteq> key r} = refs s" by (auto simp: get_None_iff)
  with add_new [OF assms None] None show ?thesis by simp
next
  case (Some old)
  with assms have old: "old \<in> refs s" "key old = key r" by (simp_all add: get_iff)
  with assms have "{q \<in> refs s. key q \<noteq> key r} = refs (remove old s)"
    using key_unique [OF assms] by (auto simp: remove_refs)
  moreover from this have "get (remove old s) (key r) = None"
    using remove_inv [OF assms] by (auto simp: get_None_iff)
  ultimately show ?thesis
    using add_new [OF remove_inv [OF assms]] Some by simp
qed

end

lemma Remove_refs:
  assumes "store_inv h ps"
  shows "set (peers_of (PeerStore_Remove h (Some r) ps)) = set (peers_of ps) - {r}"
proof (cases "PeerStore_Get ps (pk_Hash (h r)) = Some r")
  case True
  then have r: "map_of (ps_peers ps) (pk_Hash (h r)) = Some r" by (simp add: PeerStore_Get_def)
  have m: "mset (peers_of ps) = add_mset r (mset (peers_of (PeerStore_Remove h (Some r) ps)))"
    using assms mset_alist_delete [OF _ r] Remove_result(1) [where h = h and r = r and ps = ps, OF r]
    by (simp add: peers_of_def store_inv_def)
  with distinct_peers [OF assms] have "r \<notin> set (peers_of (PeerStore_Remove h (Some r) ps))"
    by (metis distinct.simps(2) mset.simps(2) mset_eq_imp_distinct_iff)
  with m show ?thesis by (metis Diff_insert_absorb set_mset_add_mset_insert set_mset_mset)
next
  case False
  then have "PeerStore_Remove h (Some r) ps = ps" by (simp add: Remove_other PeerStore_Get_def)
  moreover have "r \<notin> set (peers_of ps)" using False Get_iff [OF assms] by blast
  ultimately show ?thesis by simp
qed

interpretation peer_store: keyed_store "\<lambda>r. PeerStore_Add h (Some r)" "\<lambda>r. PeerStore_Remove h (Some r)"
  PeerStore_Get "\<lambda>ps. set (peers_of ps)" "\<lambda>r. pk_Hash (h r)" "store_inv h" for h :: "'a heap"
proof
  fix s :: PeerStore and r and k :: string
  assume inv: "store_inv h s"
  show "PeerStore_Get s k = Some r \<longleftrightarrow> r \<in> set (peers_of s) \<and> pk_Hash (h r) = k" by (rule Get_iff [OF inv])
  show "store_inv h (PeerStore_Remove h (Some r) s)" by (rule Remove_inv [OF inv])
  show "set (peers_of (PeerStore_Remove h (Some r) s)) = set (peers_of s) - {r}" by (rule Remove_refs [OF inv])
  assume "PeerStore_Get s (pk_Hash (h r)) = None"
  then obtain s' where s': "PeerStore_Add h (Some r) s = Inr s'"
    by (auto simp: PeerStore_Add_def PeerStore_Get_def Let_def)
  with inv Add_inv [OF inv s'] Add_result(2) [OF s']
  show "\<exists>s'. PeerStore_Add h (Some r) s = Inr s' \<and> store_inv h s' \<and> set (peers_of s') = insert r (set (peers_of s))"
    by (simp add: peers_of_def)
next
  fix s :: PeerStore and r
  assume "PeerStore_Get s (pk_Hash (h r)) \<noteq> None"
  then show "\<exists>e. PeerStore_Add h (Some r) s = Inl e"
    by (simp add: PeerStore_Add_def PeerStore_Get_def Let_def)
qed

subsection \<open>Properties\<close>

text \<open>Sequences of operations, a failed \<open>Add\<close> leaving the store as it was.\<close>

datatype store_op = Op_Add peer_ref | Op_Remove peer_ref | Op_Slice rng

fun store_step :: "'a heap \<Rightarrow> store_op \<Rightarrow> PeerStore \<Rightarrow> PeerStore" where
  "store_step h (Op_Add r) ps = (case PeerStore_Add h (Some r) ps of Inl _ \<Rightarrow> ps | Inr ps' \<Rightarrow> ps')"
| "store_step h (Op_Remove r) ps = PeerStore_Remove h (Some r) ps"
| "store_step h (Op_Slice rnd) ps = fst (snd (PeerStore_Slice rnd ps))"

lemma store_step_inv: "store_inv h ps \<Longrightarrow> store_inv h (store_step h op ps)"
proof (cases op)
  case (Op_Add r)
  assume "store_inv h ps"
  with Op_Add Add_inv [of h ps r] show ?thesis by (auto split: sum.splits)
next
  case (Op_Slice rnd)
  assume "store_inv h ps"
  moreover obtain xs ps' rnd' where "PeerStore_Slice rnd ps = (xs, ps', rnd')" by (rule prod_cases3)
  ultimately show ?thesis using Op_Slice Slice_inv(1) [of h ps rnd xs ps' rnd'] by simp
qed (simp add: Remove_inv)

lemma store_run_inv: "store_inv h (fold (store_step h) ops NewPeerStore)"
  by (rule fold_invariant [where Q = "\<lambda>_. True"]) (simp_all add: store_inv_New store_step_inv)

text \<open>C9: the bookkeeping of the peer store is exact after every sequence of additions, removals and reads:
  no peer is listed twice, the counters of incoming and outgoing peers add up to the total, the counter
  of an address is the number of peers it stands for (as ip or as ip:port), addresses nobody is
  connected from leave nothing behind, \<open>Slice\<close> lists every peer exactly once, and \<open>Get\<close> finds the peer
  with a given hash.\<close>

theorem PeerStore_bookkeeping:
  fixes h :: "'a heap" and ops :: "store_op list"
  defines "ps \<equiv> fold (store_step h) ops NewPeerStore"
  shows "distinct (peers_of ps) \<and> PeerStore_Total ps = length (peers_of ps)
    \<and> PeerStore_Incoming ps + PeerStore_Outgoing ps = int (PeerStore_Total ps)
    \<and> PeerStore_Count ps addr = int (tally h (peers_of ps) addr)
    \<and> dom (ps_connected ps) = {k. tally h (peers_of ps) k \<noteq> 0}
    \<and> mset (fst (PeerStore_Slice rnd ps)) = mset (peers_of ps)
    \<and> (PeerStore_Get ps hsh = Some r \<longleftrightarrow> r \<in> set (peers_of ps) \<and> pk_Hash (h r) = hsh)"
proof -
  have inv: "store_inv h ps" unfolding ps_def by (rule store_run_inv)
  then have c: "counts_ok (ps_connected ps) (tally h (peers_of ps))" by (simp add: store_inv_def)
  have "PeerStore_Incoming ps + PeerStore_Outgoing ps = int (PeerStore_Total ps)"
    using inv sum_length_filter_compl [of "\<lambda>r. pk_IsIncoming (h r)" "peers_of ps"]
    by (simp add: store_inv_def PeerStore_Incoming_def PeerStore_Outgoing_def PeerStore_Total_def peers_of_def
        flip: of_nat_add)
  moreover have "mset (fst (PeerStore_Slice rnd ps)) = mset (peers_of ps)"
    using Slice_inv(2) [OF inv, of rnd] by (cases "PeerStore_Slice rnd ps") auto
  moreover have "dom (ps_connected ps) = {k. tally h (peers_of ps) k \<noteq> 0}"
    using c by (auto simp: counts_ok_def split: if_splits)
  ultimately show ?thesis
    using distinct_peers [OF inv] Get_iff [OF inv] count_at_ok [OF c]
    by (simp add: PeerStore_Count_def PeerStore_Total_def peers_of_def)
qed

text \<open>Adding and removing peers follows the hash and the pointer: a peer is added unless its hash is
  taken, and then the hash leads to it; removing takes out exactly that object, so that removing another
  object with the same hash, or a peer that was never added, changes nothing.\<close>

theorem PeerStore_Add_Remove:
  assumes "store_inv h ps"
  shows "(PeerStore_Get ps (pk_Hash (h r)) = None \<longrightarrow>
      (\<exists>ps'. PeerStore_Add h (Some r) ps = Inr ps' \<and> store_inv h ps'
        \<and> set (peers_of ps') = insert r (set (peers_of ps))
        \<and> (\<forall>k. PeerStore_Get ps' k = (if k = pk_Hash (h r) then Some r else PeerStore_Get ps k))))
    \<and> (PeerStore_Get ps (pk_Hash (h r)) \<noteq> None \<longrightarrow> PeerStore_Add h (Some r) ps = Inl ErrPeerExists)
    \<and> (r \<notin> set (peers_of ps) \<longrightarrow> PeerStore_Remove h (Some r) ps = ps)
    \<and> set (peers_of (PeerStore_Remove h (Some r) ps)) = set (peers_of ps) - {r}
    \<and> store_inv h (PeerStore_Remove h (Some r) ps)"
proof (intro conjI impI)
  assume new: "PeerStore_Get ps (pk_Hash (h r)) = None"
  from peer_store.add_new [OF assms new] obtain ps' where
    ps': "PeerStore_Add h (Some r) ps = Inr ps'" "store_inv h ps'" "set (peers_of ps') = insert r (set (peers_of ps))"
    by blast
  moreover have "PeerStore_Get ps' k = (if k = pk_Hash (h r) then Some r else PeerStore_Get ps k)" for k
    using Add_result(1,2) [OF ps'(1)] by (auto simp: PeerStore_Get_def map_add_def split: option.splits)
  ultimately show "\<exists>ps'. PeerStore_Add h (Some r) ps = Inr ps' \<and> store_inv h ps'
      \<and> set (peers_of ps') = insert r (set (peers_of ps))
      \<and> (\<forall>k. PeerStore_Get ps' k = (if k = pk_Hash (h r) then Some r else PeerStore_Get ps k))" by blast
next
  assume "PeerStore_Get ps (pk_Hash (h r)) \<noteq> None"
  then show "PeerStore_Add h (Some r) ps = Inl ErrPeerExists"
    by (simp add: PeerStore_Add_def PeerStore_Get_def Let_def)
next
  assume "r \<notin> set (peers_of ps)"
  then have "PeerStore_Get ps (pk_Hash (h r)) \<noteq> Some r" using Get_iff [OF assms] by blast
  then show "PeerStore_Remove h (Some r) ps = ps" by (simp add: Remove_other PeerStore_Get_def)
qed (simp_all add: Remove_refs [OF assms] Remove_inv [OF assms])

definition sample_heap :: "unit heap" where
  "sample_heap r = \<lparr>pk_Hash = ''h'', pk_Endpoint = \<lparr>IP = ''1.2.3.4'', Port = ''80''\<rparr>, pk_IsIncoming = (r = 0)\<rparr>"

theorem PeerStore_Add_Remove_witness:
  "\<exists>ps. PeerStore_Add sample_heap (Some 0) NewPeerStore = Inr ps
     \<and> PeerStore_Add sample_heap (Some 1) ps = Inl ErrPeerExists
     \<and> PeerStore_Remove sample_heap (Some 1) ps = ps
     \<and> peers_of (PeerStore_Remove sample_heap (Some 0) ps) = []"
proof -
  have get: "PeerStore_Get NewPeerStore k = None" for k by (simp add: PeerStore_Get_def NewPeerStore_def)
  have refs: "set (peers_of NewPeerStore) = {}" by (simp add: peers_of_def NewPeerStore_def)
  from PeerStore_Add_Remove [OF store_inv_New, of sample_heap 0] get refs obtain ps where ps:
    "PeerStore_Add sample_heap (Some 0) NewPeerStore = Inr ps" "store_inv sample_heap ps" "set (peers_of ps) = {0}"
    "PeerStore_Get ps ''h'' = Some 0"
    by (auto simp: sample_heap_def)
  from PeerStore_Add_Remove [OF ps(2), of 1] PeerStore_Add_Remove [OF ps(2), of 0] ps(3,4)
  have "PeerStore_Add sample_heap (Some 1) ps = Inl ErrPeerExists" "PeerStore_Remove sample_heap (Some 1) ps = ps"
    "set (peers_of (PeerStore_Remove sample_heap (Some 0) ps)) = {}"
    by (simp_all add: sample_heap_def)
  with ps(1) show ?thesis by auto
qed

text \<open>C30: what the connection limits rely on: in a store of valid endpoints whose addresses are not IPv6,
  \<open>Connected\<close> holds exactly for the endpoints of the peers in the store, and \<open>Count\<close> of an ip is the
  number of peers from that ip.\<close>

theorem PeerStore_Connected_exact:
  assumes "store_inv h ps" and "list_all (\<lambda>r. Endpoint_Valid (pk_Endpoint (h r))
      \<and> CHR '':'' \<notin> set (IP (pk_Endpoint (h r)))) (peers_of ps)"
    and "Endpoint_Valid ep" and "CHR '':'' \<notin> set ip"
  shows "(PeerStore_Connected ps ep \<longleftrightarrow> (\<exists>r \<in> set (peers_of ps). pk_Endpoint (h r) = ep))
    \<and> PeerStore_Count ps ip = int (length (filter (\<lambda>r. IP (pk_Endpoint (h r)) = ip) (peers_of ps)))"
proof -
  have "counts_ok (ps_connected ps) (tally h (peers_of ps))" using assms(1) by (simp add: store_inv_def)
  note at = count_at_ok [OF this]
  have colon: "CHR '':'' \<in> set (Endpoint_String e)" for e by (simp add: Endpoint_String_def)
  have noIP: "filter (\<lambda>r. IP (pk_Endpoint (h r)) = Endpoint_String ep) (peers_of ps) = []"
    using assms(2) colon [of ep] by (auto simp: filter_empty_conv list_all_iff)
  have "(filter (\<lambda>r. Endpoint_String (pk_Endpoint (h r)) = Endpoint_String ep) (peers_of ps) \<noteq> [])
      \<longleftrightarrow> (\<exists>r \<in> set (peers_of ps). pk_Endpoint (h r) = ep)"
    using assms(2,3) Endpoint_String_inj by (auto simp: filter_empty_conv list_all_iff)
  then have "PeerStore_Connected ps ep \<longleftrightarrow> (\<exists>r \<in> set (peers_of ps). pk_Endpoint (h r) = ep)"
    by (simp add: PeerStore_Connected_def at tally_def noIP)
  moreover have "filter (\<lambda>r. Endpoint_String (pk_Endpoint (h r)) = ip) (peers_of ps) = []"
    using assms(4) colon by (auto simp: filter_empty_conv)
  ultimately show ?thesis by (simp add: PeerStore_Count_def at tally_def)
qed

lemma sample_valid: "Endpoint_Valid \<lparr>IP = ''a'', Port = ''80''\<rparr>"
proof -
  have "Atoi ''80'' = Some 80" by (simp add: Atoi_def digits_val_def digit_val_def is_digit_def)
  moreover have "hostnameRegex ''a''" by (simp add: hostnameRegex_def is_label_def is_alnum_def)
  ultimately show ?thesis by (auto simp: Endpoint_Valid_def split: option.splits)
qed

theorem PeerStore_Connected_exact_witness:
  "\<exists>ps. PeerStore_Add (\<lambda>_. \<lparr>pk_Hash = ''h'', pk_Endpoint = \<lparr>IP = ''a'', Port = ''80''\<rparr>, pk_IsIncoming = True\<rparr>)
       (Some 0) NewPeerStore = Inr ps
     \<and> PeerStore_Connected ps \<lparr>IP = ''a'', Port = ''80''\<rparr> \<and> PeerStore_Count ps ''a'' = 1"
proof -
  let ?h = "(\<lambda>_. \<lparr>pk_Hash = ''h'', pk_Endpoint = \<lparr>IP = ''a'', Port = ''80''\<rparr>, pk_IsIncoming = True\<rparr>) :: unit heap"
  obtain ps where ps: "PeerStore_Add ?h (Some 0) NewPeerStore = Inr ps" and r: "peers_of ps = [0]"
    by (simp add: PeerStore_Add_def NewPeerStore_def peers_of_def)
  from PeerStore_Connected_exact [OF Add_inv [OF store_inv_New ps], of "\<lparr>IP = ''a'', Port = ''80''\<rparr>" "''a''"] ps r
  show ?thesis by (auto simp: sample_valid)
qed

text \<open>With IPv6 addresses the two kinds of keys of the counter map collide: a node connected to one peer,
  at the address \<open>::1:5\<close>, takes itself to be connected to port 5 of the different address \<open>::1\<close>.\<close>

theorem PeerStore_Connected_ipv6_collision:
  "\<exists>(h :: unit heap) ps. store_inv h ps
     \<and> map (\<lambda>r. pk_Endpoint (h r)) (peers_of ps) = [\<lparr>IP = ''::1:5'', Port = ''80''\<rparr>]
     \<and> Endpoint_Valid \<lparr>IP = ''::1:5'', Port = ''80''\<rparr> \<and> Endpoint_Valid \<lparr>IP = ''::1'', Port = ''5''\<rparr>
     \<and> PeerStore_Connected ps \<lparr>IP = ''::1'', Port = ''5''\<rparr>"
proof -
  let ?h = "(\<lambda>_. \<lparr>pk_Hash = ''h'', pk_Endpoint = \<lparr>IP = ''::1:5'', Port = ''80''\<rparr>, pk_IsIncoming = True\<rparr>) :: unit heap"
  obtain ps where ps: "PeerStore_Add ?h (Some 0) NewPeerStore = Inr ps" and r: "peers_of ps = [0]"
    and c: "ps_connected ps ''::1:5'' = Some 1"
    by (simp add: PeerStore_Add_def NewPeerStore_def peers_of_def incr_def count_at_def Endpoint_String_def)
  have "xtoi ''1'' = Some (1, 1)" "xtoi ''1:5'' = Some (1, 1)" "xtoi ''5'' = Some (5, 1)"
    by (simp_all add: xtoi_def hex_val_def)
  then have ip: "ParseIP ''::1:5'' \<noteq> None" "ParseIP ''::1'' \<noteq> None"
    by (simp_all add: ParseIP_def parseIPv6_def parse_groups.simps)
  have "Atoi ''80'' = Some 80" "Atoi ''5'' = Some 5"
    by (simp_all add: Atoi_def digits_val_def digit_val_def is_digit_def)
  with ip have "Endpoint_Valid \<lparr>IP = ''::1:5'', Port = ''80''\<rparr>" "Endpoint_Valid \<lparr>IP = ''::1'', Port = ''5''\<rparr>"
    by (auto simp: Endpoint_Valid_def)
  moreover have "PeerStore_Connected ps \<lparr>IP = ''::1'', Port = ''5''\<rparr>"
    by (simp add: PeerStore_Connected_def Endpoint_String_def count_at_def c)
  ultimately show ?thesis
    using Add_inv [OF store_inv_New ps] r by (intro exI [of _ ?h] exI [of _ ps]) simp
qed

end
