(* ===== verification/HashCache.thy ===== *)
theory HashCache
  imports P2P_Prelude
begin

section \<open>The resend filter\<close>

text \<open>
  \<open>peerHashCache.go\<close>: a ring of buckets of hashes. \<open>pc\<close> is the index of the current bucket; at the end
  of every interval it moves one down and the bucket found there, the oldest, is emptied. A \<open>None\<close> is a
  panic: an index out of range when there are no buckets, or a second \<open>Stop\<close>.

  What the cache promises is the locale \<open>sliding_window\<close>: a list of sets, the newest first, of which
  adding extends the first and an interval drops the last. That a hash is remembered for exactly the
  configured number of intervals is proved there, for every sequence of operations.
\<close>

type_synonym hash = bytes

record PeerHashCache =
  hc_buckets :: "hash set list"
  hc_pc :: int
  hc_stopped :: bool

definition newphcBucket :: "hash set" where "newphcBucket = {}"

definition phcBucket_Has :: "hash set \<Rightarrow> hash \<Rightarrow> bool" where
  "phcBucket_Has b h \<longleftrightarrow> h \<in> b"

definition phcBucket_Add :: "hash \<Rightarrow> hash set \<Rightarrow> hash set" where
  "phcBucket_Add h b = insert h b"

text \<open>\<open>make\<close> panics on a negative length. The goroutine \<open>cleanup\<close>, which is started here, panics at once if the
  interval of its ticker is not positive.\<close>

definition NewPeerHashCache :: "int \<Rightarrow> duration \<Rightarrow> PeerHashCache option" where
  "NewPeerHashCache buckets interval =
     (if buckets < 0 \<or> interval \<le> 0 then None
      else Some \<lparr>hc_buckets = replicate (nat buckets) newphcBucket, hc_pc = 0, hc_stopped = False\<rparr>)"

definition ptr :: "PeerHashCache \<Rightarrow> int \<Rightarrow> int" where
  "ptr pr off = (hc_pc pr + off) mod int (length (hc_buckets pr))"

definition HashCache_Has :: "PeerHashCache \<Rightarrow> hash \<Rightarrow> bool" where
  "HashCache_Has pr h =
     list_ex (\<lambda>i. phcBucket_Has (hc_buckets pr ! nat (ptr pr (int i))) h) [0..<length (hc_buckets pr)]"

definition HashCache_Add :: "hash \<Rightarrow> PeerHashCache \<Rightarrow> PeerHashCache option" where
  "HashCache_Add h pr =
     (if 0 \<le> hc_pc pr \<and> hc_pc pr < int (length (hc_buckets pr))
      then Some (pr\<lparr>hc_buckets := (hc_buckets pr)[nat (hc_pc pr) :=
                  phcBucket_Add h (hc_buckets pr ! nat (hc_pc pr))]\<rparr>)
      else None)"

definition HashCache_Stop :: "PeerHashCache \<Rightarrow> PeerHashCache option" where
  "HashCache_Stop pr = (if hc_stopped pr then None else Some (pr\<lparr>hc_stopped := True\<rparr>))"

definition dropOldestBucket :: "PeerHashCache \<Rightarrow> PeerHashCache option" where
  "dropOldestBucket pr =
     (let pc = hc_pc pr - 1; pc = (if pc < 0 then pc + int (length (hc_buckets pr)) else pc)
      in if 0 \<le> pc \<and> pc < int (length (hc_buckets pr))
         then Some (pr\<lparr>hc_pc := pc, hc_buckets := (hc_buckets pr)[nat pc := newphcBucket]\<rparr>)
         else None)"

text \<open>One turn of \<open>cleanup\<close>: the loop ends when the cache is stopped, otherwise the ticker drops a bucket. If the
  ticker has fired before the loop sees that the cache is stopped, either may happen; \<open>quit\<close> decides.\<close>

definition cleanup_step :: "bool \<Rightarrow> PeerHashCache \<Rightarrow> PeerHashCache option" where
  "cleanup_step quit pr = (if hc_stopped pr \<and> quit then Some pr else dropOldestBucket pr)"

subsection \<open>A sliding window of sets\<close>

datatype 'h cache_op = Add_hash 'h | Drop_oldest

definition drops :: "'h cache_op list \<Rightarrow> nat" where
  "drops ops = length (filter (\<lambda>x. x = Drop_oldest) ops)"

primrec run_ops :: "('h \<Rightarrow> 'c \<Rightarrow> 'c option) \<Rightarrow> ('c \<Rightarrow> 'c option) \<Rightarrow> 'h cache_op list \<Rightarrow> 'c \<Rightarrow> 'c option" where
  "run_ops add tick [] c = Some c"
| "run_ops add tick (op # ops) c =
     Option.bind (case op of Add_hash h \<Rightarrow> add h c | Drop_oldest \<Rightarrow> tick c) (run_ops add tick ops)"

text \<open>A hash is remembered if it was added and fewer than \<open>n\<close> intervals have ended since.\<close>

definition remembered :: "nat \<Rightarrow> 'h cache_op list \<Rightarrow> 'h \<Rightarrow> bool" where
  "remembered n ops h \<longleftrightarrow> (\<exists>pre post. ops = pre @ Add_hash h # post \<and> drops post < n)"

lemma Bex_set_nth: "(\<exists>x \<in> set xs. P x) \<longleftrightarrow> (\<exists>i < length xs. P (xs ! i))"
  by (metis in_set_conv_nth)

locale sliding_window =
  fixes add :: "'h \<Rightarrow> 'c \<Rightarrow> 'c option"
    and tick :: "'c \<Rightarrow> 'c option"
    and has :: "'c \<Rightarrow> 'h \<Rightarrow> bool"
    and win :: "'c \<Rightarrow> 'h set list"
    and inv :: "'c \<Rightarrow> bool"
  assumes win_nonempty: "inv c \<Longrightarrow> win c \<noteq> []"
    and add_win: "inv c \<Longrightarrow> \<exists>c'. add h c = Some c' \<and> inv c' \<and> win c' = insert h (hd (win c)) # tl (win c)"
    and tick_win: "inv c \<Longrightarrow> \<exists>c'. tick c = Some c' \<and> inv c' \<and> win c' = {} # butlast (win c)"
    and has_win: "inv c \<Longrightarrow> has c h \<longleftrightarrow> (\<exists>b \<in> set (win c). h \<in> b)"
begin

text \<open>The window after a sequence of operations: what was there moves towards the end, and the \<open>k\<close>-th set
  from the front holds in addition what was added \<open>k\<close> intervals ago.\<close>

lemma run_ops_window:
  assumes "inv c"
  shows "\<exists>c'. run_ops add tick ops c = Some c' \<and> inv c' \<and> length (win c') = length (win c)
    \<and> (\<forall>k < length (win c). \<forall>h. h \<in> win c' ! k \<longleftrightarrow>
         (drops ops \<le> k \<and> h \<in> win c ! (k - drops ops))
         \<or> (\<exists>pre post. ops = pre @ Add_hash h # post \<and> drops post = k))"
  using assms
proof (induction ops arbitrary: c)
  case Nil
  then show ?case by (simp add: drops_def)
next
  case (Cons op ops)
  have ex: "(\<exists>pre post. op # ops = pre @ Add_hash h # post \<and> drops post = k) \<longleftrightarrow>
      (op = Add_hash h \<and> drops ops = k) \<or> (\<exists>pre post. ops = pre @ Add_hash h # post \<and> drops post = k)" for h k
    by (auto simp: Cons_eq_append_conv)
  show ?case
  proof (cases op)
    case (Add_hash x)
    from add_win [OF Cons.prems, of x] obtain c1 where c1: "add x c = Some c1" "inv c1"
      "win c1 = insert x (hd (win c)) # tl (win c)" by blast
    from win_nonempty [OF Cons.prems] c1(3) have len: "length (win c1) = length (win c)"
      and nth: "\<And>k h. k < length (win c) \<Longrightarrow> h \<in> win c1 ! k \<longleftrightarrow> h \<in> win c ! k \<or> (k = 0 \<and> h = x)"
      by (cases "win c"; auto simp: nth_Cons split: nat.splits)+
    from Cons.IH [OF c1(2)] obtain c' where "run_ops add tick ops c1 = Some c'" "inv c'"
      "length (win c') = length (win c1)"
      "\<And>k h. k < length (win c1) \<Longrightarrow> h \<in> win c' ! k \<longleftrightarrow> (drops ops \<le> k \<and> h \<in> win c1 ! (k - drops ops))
         \<or> (\<exists>pre post. ops = pre @ Add_hash h # post \<and> drops post = k)" by blast
    moreover have "drops (op # ops) = drops ops" using Add_hash by (simp add: drops_def)
    ultimately show ?thesis
      using c1(1) len nth Add_hash unfolding ex by auto
  next
    case Drop_oldest
    from tick_win [OF Cons.prems] obtain c1 where c1: "tick c = Some c1" "inv c1"
      "win c1 = {} # butlast (win c)" by blast
    from win_nonempty [OF Cons.prems] c1(3) have len: "length (win c1) = length (win c)"
      and nth: "\<And>k h. k < length (win c) \<Longrightarrow> h \<in> win c1 ! k \<longleftrightarrow> 1 \<le> k \<and> h \<in> win c ! (k - 1)"
      by (auto simp: nth_Cons nth_butlast split: nat.splits)
    from Cons.IH [OF c1(2)] obtain c' where "run_ops add tick ops c1 = Some c'" "inv c'"
      "length (win c') = length (win c1)"
      "\<And>k h. k < length (win c1) \<Longrightarrow> h \<in> win c' ! k \<longleftrightarrow> (drops ops \<le> k \<and> h \<in> win c1 ! (k - drops ops))
         \<or> (\<exists>pre post. ops = pre @ Add_hash h # post \<and> drops post = k)" by blast
    moreover have "drops (op # ops) = Suc (drops ops)" using Drop_oldest by (simp add: drops_def)
    ultimately show ?thesis
      using c1(1) len nth Drop_oldest unfolding ex by auto
  qed
qed

text \<open>What was added stays as long as fewer intervals end than the window has sets.\<close>

lemma added_kept:
  assumes "inv c" and "drops ops < length (win c)"
  shows "\<exists>c1 c'. add h c = Some c1 \<and> run_ops add tick ops c1 = Some c' \<and> inv c' \<and> has c' h"
proof -
  from add_win [OF assms(1), of h] obtain c1 where c1: "add h c = Some c1" "inv c1"
    "win c1 = insert h (hd (win c)) # tl (win c)" by blast
  have len: "length (win c1) = length (win c)" using c1(3) win_nonempty [OF assms(1)] by simp
  from run_ops_window [OF c1(2), of ops] obtain c' where c': "run_ops add tick ops c1 = Some c'" "inv c'"
    "length (win c') = length (win c1)"
    "\<forall>k < length (win c1). \<forall>h. h \<in> win c' ! k \<longleftrightarrow> (drops ops \<le> k \<and> h \<in> win c1 ! (k - drops ops))
         \<or> (\<exists>pre post. ops = pre @ Add_hash h # post \<and> drops post = k)" by blast
  then have "h \<in> win c' ! drops ops" using assms(2) len c1(3) by simp
  then have "has c' h" using has_win [OF c'(2)] assms(2) len c'(3) by (auto simp: Bex_set_nth)
  with c1 c' show ?thesis by blast
qed

lemma has_iff_remembered:
  assumes "inv c" and "win c = replicate n {}"
  shows "\<exists>c'. run_ops add tick ops c = Some c' \<and> (\<forall>h. has c' h \<longleftrightarrow> remembered n ops h)"
proof -
  from run_ops_window [OF assms(1), of ops] assms(2) obtain c' where c': "run_ops add tick ops c = Some c'" "inv c'"
    "length (win c') = n"
    "\<And>k h. k < n \<Longrightarrow> h \<in> win c' ! k \<longleftrightarrow> (\<exists>pre post. ops = pre @ Add_hash h # post \<and> drops post = k)"
    by auto
  have "has c' h \<longleftrightarrow> remembered n ops h" for h
  proof -
    have "has c' h \<longleftrightarrow> (\<exists>k < n. \<exists>pre post. ops = pre @ Add_hash h # post \<and> drops post = k)"
      using has_win [OF c'(2), of h] c'(3,4) by (simp add: Bex_set_nth cong: conj_cong)
    then show ?thesis by (auto simp: remembered_def)
  qed
  with c'(1) show ?thesis by blast
qed

end

subsection \<open>The ring is a sliding window\<close>

definition HashCache_inv :: "PeerHashCache \<Rightarrow> bool" where
  "HashCache_inv pr \<longleftrightarrow> 0 \<le> hc_pc pr \<and> hc_pc pr < int (length (hc_buckets pr))"

definition HashCache_window :: "PeerHashCache \<Rightarrow> hash set list" where
  "HashCache_window pr = rotate (nat (hc_pc pr)) (hc_buckets pr)"

lemma window_add:
  assumes "n < length bs"
  shows "rotate n (bs[n := insert h (bs ! n)]) = insert h (hd (rotate n bs)) # tl (rotate n bs)"
  using assms by (simp add: rotate_drop_take drop_update_swap hd_drop_conv_nth flip: Cons_nth_drop_Suc)

lemma window_drop:
  assumes "n < length bs"
  shows "rotate (if n = 0 then length bs - 1 else n - 1)
      (bs[(if n = 0 then length bs - 1 else n - 1) := {}]) = {} # butlast (rotate n bs)"
proof (cases n)
  case 0
  with assms obtain ys y where "bs = ys @ [y]" by (metis append_butlast_last_id length_greater_0_conv)
  with 0 show ?thesis by (simp add: rotate_drop_take)
next
  case (Suc k)
  with assms have k: "k < length bs" "Suc k < length bs" by simp_all
  have t: "take (Suc k) bs = take k bs @ [bs ! k]" using k by (simp add: take_Suc_conv_app_nth)
  have "drop k (bs[k := {}]) = {} # drop (Suc k) bs"
    using k by (simp add: drop_update_swap flip: Cons_nth_drop_Suc)
  then show ?thesis using Suc k t by (simp add: rotate_drop_take butlast_append)
qed

lemma window_has:
  assumes "HashCache_inv pr"
  shows "HashCache_Has pr h \<longleftrightarrow> (\<exists>b \<in> set (HashCache_window pr). h \<in> b)"
proof -
  obtain n where n: "hc_pc pr = int n" "n < length (hc_buckets pr)"
    using assms unfolding HashCache_inv_def by (metis nat_int of_nat_less_iff zero_le_imp_eq_int)
  have "nat (ptr pr (int i)) = (n + i) mod length (hc_buckets pr)" for i
    using n by (simp add: ptr_def flip: of_nat_add zmod_int)
  then have "HashCache_Has pr h \<longleftrightarrow> (\<exists>i < length (hc_buckets pr). h \<in> rotate n (hc_buckets pr) ! i)"
    by (auto simp: HashCache_Has_def list_ex_iff phcBucket_Has_def nth_rotate)
  with n show ?thesis
    unfolding HashCache_window_def Bex_set_nth by simp
qed

interpretation hash_window: sliding_window HashCache_Add dropOldestBucket HashCache_Has
  HashCache_window HashCache_inv
proof
  fix c :: PeerHashCache and h
  assume inv: "HashCache_inv c"
  then obtain n where n: "hc_pc c = int n" "n < length (hc_buckets c)"
    unfolding HashCache_inv_def by (metis nat_int of_nat_less_iff zero_le_imp_eq_int)
  show "HashCache_window c \<noteq> []" using n by (auto simp: HashCache_window_def)
  show "\<exists>c'. HashCache_Add h c = Some c' \<and> HashCache_inv c'
      \<and> HashCache_window c' = insert h (hd (HashCache_window c)) # tl (HashCache_window c)"
    using n window_add [OF n(2), of h]
    by (simp add: HashCache_Add_def HashCache_inv_def HashCache_window_def phcBucket_Add_def)
  show "HashCache_Has c h \<longleftrightarrow> (\<exists>b \<in> set (HashCache_window c). h \<in> b)" by (rule window_has [OF inv])
  show "\<exists>c'. dropOldestBucket c = Some c' \<and> HashCache_inv c' \<and> HashCache_window c' = {} # butlast (HashCache_window c)"
  proof -
    let ?m = "if n = 0 then length (hc_buckets c) - 1 else n - 1"
    have pc: "(if hc_pc c - 1 < 0 then hc_pc c - 1 + int (length (hc_buckets c)) else hc_pc c - 1) = int ?m"
      using n by auto
    have "?m < length (hc_buckets c)" using n(2) by auto
    then have "dropOldestBucket c = Some (c\<lparr>hc_pc := int ?m, hc_buckets := (hc_buckets c)[?m := {}]\<rparr>)"
      unfolding dropOldestBucket_def Let_def pc by (simp add: newphcBucket_def)
    with \<open>?m < length (hc_buckets c)\<close> window_drop [OF n(2)] n(1) show ?thesis
      by (simp add: HashCache_inv_def HashCache_window_def del: rotate_Suc)
  qed
qed

subsection \<open>Properties\<close>

text \<open>C10: the resend filter remembers a hash for exactly the configured number of intervals: for every
  sequence of additions and ends of intervals, starting from a new cache with at least one bucket, no
  operation panics, and \<open>Has\<close> answers true exactly for the hashes that were added with fewer than
  \<open>buckets\<close> intervals ending since.\<close>

theorem HashCache_remembers:
  assumes "0 < buckets" and "0 < interval"
  shows "\<exists>c c'. NewPeerHashCache buckets interval = Some c
    \<and> run_ops HashCache_Add dropOldestBucket ops c = Some c'
    \<and> (\<forall>h. HashCache_Has c' h \<longleftrightarrow> remembered (nat buckets) ops h)"
proof -
  let ?c = "\<lparr>hc_buckets = replicate (nat buckets) {}, hc_pc = 0, hc_stopped = False\<rparr>"
  have "HashCache_inv ?c" "HashCache_window ?c = replicate (nat buckets) {}"
    using assms(1) by (simp_all add: HashCache_inv_def HashCache_window_def)
  from hash_window.has_iff_remembered [OF this, of ops] assms show ?thesis
    by (simp add: NewPeerHashCache_def newphcBucket_def)
qed

theorem HashCache_remembers_witness:
  "\<exists>c c'. NewPeerHashCache 2 1 = Some c
    \<and> run_ops HashCache_Add dropOldestBucket [Add_hash [1], Drop_oldest, Add_hash [2], Drop_oldest] c = Some c'
    \<and> HashCache_Has c' [2] \<and> \<not> HashCache_Has c' [1]"
proof -
  let ?ops = "[Add_hash [1], Drop_oldest, Add_hash [2], Drop_oldest] :: hash cache_op list"
  have "remembered 2 ?ops [2]"
    unfolding remembered_def
    by (intro exI [of _ "[Add_hash [1], Drop_oldest]"] exI [of _ "[Drop_oldest]"]) (simp add: drops_def)
  moreover have "\<not> remembered 2 ?ops [1]"
    by (auto simp: remembered_def drops_def Cons_eq_append_conv)
  ultimately show ?thesis
    using HashCache_remembers [of 2 1 ?ops] by auto
qed

end
