(* ===== verification/Floats.thy ===== *)
theory Floats
  imports P2P_Prelude "HOL-Library.Log_Nat"
begin

section \<open>Floating point numbers\<close>

text \<open>
  Go's \<open>float64\<close> as far as the program uses it: rates, sums of rates and ratios, none of them negative. A number is
  the rational it stands for, and the result of every operation is rounded to 53 significant bits, to the even
  neighbour when it lies in the middle. The numbers are far from the limits of the exponent.
\<close>

type_synonym float64 = rat

definition round_even :: "rat \<Rightarrow> int" where
  "round_even x =
     (let n = \<lfloor>x\<rfloor>; f = x - of_int n
      in if f < 1 / 2 \<or> f = 1 / 2 \<and> even n then n else n + 1)"

text \<open>The exponent: \<open>2 powi ilog2 x \<le> x < 2 powi (ilog2 x + 1)\<close>.\<close>

definition ilog2 :: "rat \<Rightarrow> int" where
  "ilog2 x =
     (let (a, b) = quotient_of x; k = bitlen a - bitlen b
      in if 2 powi k \<le> x then k else k - 1)"

definition round64 :: "rat \<Rightarrow> float64" where
  "round64 x =
     (if x \<le> 0 then 0
      else let u = 2 powi (ilog2 x - 52) in of_int (round_even (x / u)) * u)"

text \<open>The conversions \<open>float64(n)\<close> and \<open>uint64(x)\<close>; a float that is too big for the result does not occur.\<close>

definition float64_of :: "nat \<Rightarrow> float64" where
  "float64_of n = round64 (of_nat n)"

definition uint64_of :: "float64 \<Rightarrow> 64 word" where
  "uint64_of x = word_of_int \<lfloor>x\<rfloor>"

definition f64_add :: "float64 \<Rightarrow> float64 \<Rightarrow> float64" where
  "f64_add x y = round64 (x + y)"

definition f64_div :: "float64 \<Rightarrow> float64 \<Rightarrow> float64" where
  "f64_div x y = round64 (x / y)"

text \<open>\<open>for ... { sum += x }\<close>.\<close>

definition f64_sum :: "float64 list \<Rightarrow> float64" where
  "f64_sum xs = foldl f64_add 0 xs"

subsection \<open>Facts\<close>

lemma round_even_bounds: "x - 1 / 2 \<le> of_int (round_even x)" "of_int (round_even x) \<le> x + 1 / 2"
proof -
  define n where "n = \<lfloor>x\<rfloor>"
  have "of_int n \<le> x" "x < of_int n + 1" unfolding n_def by linarith+
  then show "x - 1 / 2 \<le> of_int (round_even x)" "of_int (round_even x) \<le> x + 1 / 2"
    unfolding round_even_def Let_def n_def [symmetric] by auto
qed

lemma round_even_of_int [simp]: "round_even (of_int n) = n"
  by (simp add: round_even_def)

lemma round_even_mono:
  assumes "x \<le> y"
  shows "round_even x \<le> round_even y"
proof (cases "\<lfloor>x\<rfloor> = \<lfloor>y\<rfloor>")
  case True
  with assms show ?thesis by (auto simp: round_even_def Let_def)
next
  case False
  then have "\<lfloor>x\<rfloor> + 1 \<le> \<lfloor>y\<rfloor>" using floor_mono [OF assms] by linarith
  then show ?thesis by (auto simp: round_even_def Let_def)
qed

lemma bitlen_powi:
  assumes "0 < (a :: int)"
  shows "2 powi (bitlen a - 1) \<le> (of_int a :: rat)" "(of_int a :: rat) < 2 powi bitlen a"
proof -
  have pos: "0 < bitlen a" using assms bitlen_nonneg [of a] bitlen_eq_zero_iff [of a] by linarith
  from bitlen_bounds [OF assms] have b: "2 ^ nat (bitlen a - 1) \<le> a" "a < 2 ^ nat (bitlen a)" by auto
  have "(2 :: rat) powi (bitlen a - 1) = of_int (2 ^ nat (bitlen a - 1))" "(2 :: rat) powi bitlen a = of_int (2 ^ nat (bitlen a))"
    using pos by (simp_all add: power_int_def)
  with b show "2 powi (bitlen a - 1) \<le> (of_int a :: rat)" "(of_int a :: rat) < 2 powi bitlen a"
    by (simp_all only: of_int_le_iff of_int_less_iff)
qed

lemma powi_pos [simp]: "0 < (2 :: rat) powi k"
  by simp

lemma ilog2_bounds:
  assumes "0 < x"
  shows "2 powi ilog2 x \<le> x" "x < 2 powi (ilog2 x + 1)"
proof -
  obtain a b where q: "quotient_of x = (a, b)" by (rule prod.exhaust)
  have b: "0 < b" by (rule quotient_of_denom_pos [OF q])
  have x: "x = of_int a / of_int b" by (rule quotient_of_div [OF q])
  with assms b have a: "0 < a" by (simp add: zero_less_divide_iff)
  let ?k = "bitlen a - bitlen b"
  have "x < 2 powi bitlen a / 2 powi (bitlen b - 1)"
    unfolding x using bitlen_powi [OF a] bitlen_powi [OF b] a b by (intro frac_less) (auto intro: less_imp_le)
  also have "\<dots> = 2 powi (?k + 1)" by (simp add: power_int_diff power_int_add)
  finally have up: "x < 2 powi (?k + 1)" .
  have "(2 :: rat) powi (?k - 1) = 2 powi (bitlen a - 1) / 2 powi bitlen b" by (simp add: power_int_diff)
  also have "\<dots> \<le> x" unfolding x using bitlen_powi [OF a] bitlen_powi [OF b] a b by (intro frac_le) auto
  finally show "2 powi ilog2 x \<le> x" "x < 2 powi (ilog2 x + 1)" using up q by (auto simp: ilog2_def Let_def)
qed

lemma ilog2_less:
  assumes "0 < x" and "x < 2 powi k"
  shows "ilog2 x < k"
proof -
  have "\<not> (2 :: rat) powi k \<le> 2 powi ilog2 x" using ilog2_bounds(1) [OF assms(1)] assms(2) by simp
  then show ?thesis using power_int_increasing [of k "ilog2 x" "2 :: rat"] by fastforce
qed

text \<open>Natural numbers of up to 53 bits are exact.\<close>

lemma round64_of_nat:
  assumes "n < 2 ^ 53"
  shows "round64 (of_nat n) = of_nat n"
proof (cases "n = 0")
  case False
  let ?e = "ilog2 (of_nat n)" and ?x = "of_nat n :: rat"
  have "?x < of_nat (2 ^ 53)" using assms by (simp only: of_nat_less_iff)
  then have "?e < 53" using False by (intro ilog2_less) (simp_all add: power_int_def)
  then have p: "(2 :: rat) powi (?e - 52) = 1 / 2 ^ nat (52 - ?e)" by (auto simp: power_int_def power_one_over)
  have "?x / 2 powi (?e - 52) = of_int (int n * 2 ^ nat (52 - ?e))" unfolding p by simp
  then have "round_even (?x / 2 powi (?e - 52)) = int n * 2 ^ nat (52 - ?e)" by (simp only: round_even_of_int)
  with False show ?thesis by (simp add: round64_def Let_def) (simp add: p)
qed (simp add: round64_def)

text \<open>Rounding moves a number by at most its \<open>2 ^ 53\<close>-th part.\<close>

lemma round64_error:
  assumes "0 \<le> x"
  shows "\<bar>round64 x - x\<bar> \<le> x / 2 ^ 53"
proof (cases "x = 0")
  case False
  let ?u = "2 powi (ilog2 x - 52) :: rat"
  have x: "0 < x" using assms False by simp
  have "\<bar>of_int (round_even (x / ?u)) - x / ?u\<bar> \<le> 1 / 2" using round_even_bounds [of "x / ?u"] by linarith
  then have "\<bar>of_int (round_even (x / ?u)) - x / ?u\<bar> * ?u \<le> 1 / 2 * ?u" by (rule mult_right_mono) simp
  also have "\<bar>of_int (round_even (x / ?u)) - x / ?u\<bar> * ?u = \<bar>(of_int (round_even (x / ?u)) - x / ?u) * ?u\<bar>"
    by (simp add: abs_mult)
  also have "(of_int (round_even (x / ?u)) - x / ?u) * ?u = round64 x - x"
    using x by (simp add: round64_def Let_def left_diff_distrib)
  also have "1 / 2 * ?u = 2 powi ilog2 x / 2 ^ 53" using power_int_diff [of "2 :: rat" "ilog2 x" 52] by simp
  also have "\<dots> \<le> x / 2 ^ 53" using ilog2_bounds(1) [OF x] by (intro divide_right_mono) simp_all
  finally show ?thesis .
qed (simp add: round64_def)

text \<open>Rounding stays between the two powers of two around a number, and keeps the order.\<close>

lemma powi_scale: "(2 :: rat) powi (k + int m) = of_int (2 ^ m) * 2 powi k"
  by (simp add: power_int_add)

lemma round64_range:
  assumes "0 < x"
  shows "2 powi ilog2 x \<le> round64 x" "round64 x \<le> 2 powi (ilog2 x + 1)"
proof -
  let ?u = "2 powi (ilog2 x - 52) :: rat"
  have lo: "2 powi ilog2 x = of_int (2 ^ 52) * ?u" and hi: "2 powi (ilog2 x + 1) = of_int (2 ^ 53) * ?u"
    using powi_scale [of "ilog2 x - 52" 52] powi_scale [of "ilog2 x - 52" 53] by (simp_all add: add.commute)
  have "of_int (2 ^ 52) \<le> x / ?u" "x / ?u \<le> of_int (2 ^ 53)"
    using ilog2_bounds [OF assms] unfolding lo hi by (simp_all only: pos_le_divide_eq pos_divide_le_eq powi_pos less_imp_le)
  from round_even_mono [OF this(1)] round_even_mono [OF this(2)]
  have "2 ^ 52 \<le> round_even (x / ?u)" "round_even (x / ?u) \<le> 2 ^ 53" by (simp_all only: round_even_of_int)
  then show "2 powi ilog2 x \<le> round64 x" "round64 x \<le> 2 powi (ilog2 x + 1)"
    unfolding lo hi using assms by (simp_all add: round64_def Let_def mult_right_mono del: of_int_power)
qed

lemma round64_nonneg: "0 \<le> round64 x"
proof (cases "x \<le> 0")
  case False
  then show ?thesis using round64_range(1) [of x] powi_pos [of "ilog2 x"] by linarith
qed (simp add: round64_def)

lemma round64_mono:
  assumes "x \<le> y"
  shows "round64 x \<le> round64 y"
proof (cases "x \<le> 0")
  case False
  then have x: "0 < x" and y: "0 < y" using assms by simp_all
  have "\<not> ilog2 y < ilog2 x"
  proof
    assume "ilog2 y < ilog2 x"
    then have "(2 :: rat) powi (ilog2 y + 1) \<le> 2 powi ilog2 x" by (intro power_int_increasing) simp_all
    with ilog2_bounds [OF x] ilog2_bounds [OF y] assms show False by linarith
  qed
  then consider "ilog2 x = ilog2 y" | "ilog2 x + 1 \<le> ilog2 y" by linarith
  then show ?thesis
  proof cases
    case 1
    have "round_even (x / 2 powi (ilog2 y - 52)) \<le> round_even (y / 2 powi (ilog2 y - 52))"
      using assms by (intro round_even_mono divide_right_mono) simp_all
    with 1 x y show ?thesis by (simp add: round64_def Let_def mult_right_mono)
  next
    case 2
    then have "(2 :: rat) powi (ilog2 x + 1) \<le> 2 powi ilog2 y" by (intro power_int_increasing) simp_all
    with round64_range [OF x] round64_range [OF y] show ?thesis by linarith
  qed
next
  case True
  then have "round64 x = 0" by (simp add: round64_def)
  then show ?thesis by (simp add: round64_nonneg)
qed

lemma round64_le_1: "x \<le> 1 \<Longrightarrow> round64 x \<le> 1"
  using round64_mono [of x 1] round64_of_nat [of 1] by simp

lemma float64_of_mono: "m \<le> n \<Longrightarrow> float64_of m \<le> float64_of n"
  by (simp add: float64_of_def round64_mono)

lemma float64_of_pos: "0 < n \<Longrightarrow> 0 < float64_of n"
  using float64_of_mono [of 1 n] round64_of_nat [of 1] by (simp add: float64_of_def)

text \<open>Sums of whole numbers are exact, and so do not depend on the order, as long as they stay below \<open>2 ^ 53\<close>.\<close>

lemma f64_sum_exact:
  assumes "sum_list ns < 2 ^ 53"
  shows "f64_sum (map of_nat ns) = of_nat (sum_list ns)"
proof -
  have "foldl f64_add (of_nat m) (map of_nat ns) = of_nat (m + sum_list ns)" if "m + sum_list ns < 2 ^ 53" for m
    using that
  proof (induction ns arbitrary: m)
    case (Cons n ns)
    then have "f64_add (of_nat m) (of_nat n) = of_nat (m + n)"
      using round64_of_nat [of "m + n"] by (simp add: f64_add_def)
    with Cons.IH [of "m + n"] Cons.prems show ?case by (simp add: add.assoc)
  qed simp
  from this [of 0] assms show ?thesis by (simp add: f64_sum_def)
qed

lemma uint64_of_exact:
  assumes "unat w < 2 ^ 53"
  shows "uint64_of (float64_of (unat w)) = w"
  using round64_of_nat [OF assms] by (simp only: uint64_of_def float64_of_def floor_of_nat) simp

end
