(* ===== verification/ParcelChan.thy ===== *)
theory ParcelChan
  imports Floats "HOL-Library.Sublist"
begin

section \<open>Parcel channels\<close>

text \<open>
  \<open>parcelChannel.go\<close>: a buffered Go channel with a non-blocking \<open>Send\<close> that makes room by dropping the
  older half. A channel is its capacity, its buffer (the oldest element first) and whether it has been
  closed; sending on a closed channel panics (\<open>None\<close>). An operation of one goroutine is one step here;
  \<open>Peer.Send\<close>, where what happens between two steps matters, is split up in \<open>Peers\<close>.
\<close>

record 'a channel =
  ch_cap :: nat
  ch_buf :: "'a list"
  ch_closed :: bool

definition newParcelChannel :: "nat \<Rightarrow> 'a channel" where
  "newParcelChannel capacity = \<lparr>ch_cap = capacity, ch_buf = [], ch_closed = False\<rparr>"

text \<open>\<open>select { case ch <- x: ... default: ... }\<close>: whether the element was taken.\<close>

definition try_send :: "'a \<Rightarrow> 'a channel \<Rightarrow> (bool \<times> 'a channel) option" where
  "try_send x ch =
     (if ch_closed ch then None
      else if length (ch_buf ch) < ch_cap ch then Some (True, ch\<lparr>ch_buf := ch_buf ch @ [x]\<rparr>)
      else Some (False, ch))"

text \<open>The loop \<open>for len(pc) > cap(pc)/2 { <-pc; dropped++ }\<close>.\<close>

fun drain :: "nat \<Rightarrow> 'a list \<Rightarrow> nat \<Rightarrow> 'a list \<times> nat" where
  "drain half [] dropped = ([], dropped)"
| "drain half (x # xs) dropped =
     (if half < length (x # xs) then drain half xs (Suc dropped) else (x # xs, dropped))"

definition ParcelChannel_Send :: "'a \<Rightarrow> 'a channel \<Rightarrow> (bool \<times> nat \<times> 'a channel) option" where
  "ParcelChannel_Send x ch =
     (case try_send x ch of
        None \<Rightarrow> None
      | Some (True, ch') \<Rightarrow> Some (True, 0, ch')
      | Some (False, ch') \<Rightarrow>
          (let (buf, dropped) = drain (ch_cap ch' div 2) (ch_buf ch') 0
           in case try_send x (ch'\<lparr>ch_buf := buf\<rparr>) of
                None \<Rightarrow> None
              | Some (ok, ch'') \<Rightarrow> Some (ok, dropped, ch'')))"

text \<open>Receiving: \<open>None\<close> while the channel is open and empty (the receiver waits). From a closed and empty
  channel a receiver gets the zero value, which is the inner \<open>None\<close>.\<close>

definition Channel_Receive :: "'a channel \<Rightarrow> ('a option \<times> 'a channel) option" where
  "Channel_Receive ch =
     (case ch_buf ch of
        x # xs \<Rightarrow> Some (Some x, ch\<lparr>ch_buf := xs\<rparr>)
      | [] \<Rightarrow> if ch_closed ch then Some (None, ch) else None)"

text \<open>\<open>close(ch)\<close> panics on a closed channel.\<close>

definition Channel_Close :: "'a channel \<Rightarrow> 'a channel option" where
  "Channel_Close ch = (if ch_closed ch then None else Some (ch\<lparr>ch_closed := True\<rparr>))"

definition FillRatio :: "'a channel \<Rightarrow> float64" where
  "FillRatio ch = f64_div (float64_of (length (ch_buf ch))) (float64_of (ch_cap ch))"

subsection \<open>A queue that drops its oldest elements\<close>

primrec send_list :: "('a \<Rightarrow> 'q \<Rightarrow> (bool \<times> nat \<times> 'q) option) \<Rightarrow> 'a list \<Rightarrow> 'q \<Rightarrow> (nat \<times> 'q) option" where
  "send_list send [] q = Some (0, q)"
| "send_list send (x # xs) q =
     (case send x q of
        None \<Rightarrow> None
      | Some (_, d, q') \<Rightarrow> map_option (\<lambda>(d', q''). (d + d', q'')) (send_list send xs q'))"

locale dropping_queue =
  fixes send :: "'a \<Rightarrow> 'q \<Rightarrow> (bool \<times> nat \<times> 'q) option"
    and items :: "'q \<Rightarrow> 'a list"
    and room :: "'q \<Rightarrow> nat"
    and usable :: "'q \<Rightarrow> bool"
  assumes send_usable: "usable q \<Longrightarrow> \<exists>d q'. send x q = Some (True, d, q') \<and> usable q' \<and> room q' = room q
      \<and> d \<le> length (items q) \<and> items q' = drop d (items q) @ [x] \<and> length (items q') \<le> room q"
begin

lemma send_list_suffix:
  assumes "usable q"
  shows "\<exists>d q'. send_list send xs q = Some (d, q') \<and> usable q' \<and> d \<le> length (items q @ xs)
    \<and> items q' = drop d (items q @ xs) \<and> (xs \<noteq> [] \<longrightarrow> items q' \<noteq> [] \<and> length (items q') \<le> room q)"
  using assms
proof (induction xs arbitrary: q)
  case Nil
  then show ?case by simp
next
  case (Cons x xs)
  from send_usable [OF Cons.prems, of x] obtain d q1 where q1: "send x q = Some (True, d, q1)"
    "usable q1" "room q1 = room q" "d \<le> length (items q)" "items q1 = drop d (items q) @ [x]"
    "length (items q1) \<le> room q" by blast
  from Cons.IH [OF q1(2)] obtain d' q' where q': "send_list send xs q1 = Some (d', q')" "usable q'"
    "d' \<le> length (items q1 @ xs)" "items q' = drop d' (items q1 @ xs)"
    "xs \<noteq> [] \<longrightarrow> items q' \<noteq> [] \<and> length (items q') \<le> room q1" by blast
  have "xs = [] \<Longrightarrow> d' = 0 \<and> q' = q1" using q'(1) by auto
  with q1 q' show ?case by (cases "xs = []") (auto simp: add.commute)
qed

end

lemma drain_eq: "drain half xs d = (drop (length xs - half) xs, d + (length xs - half))"
proof (induction xs arbitrary: d)
  case Nil
  then show ?case by simp
next
  case (Cons x xs)
  then show ?case by (cases "half < length (x # xs)") (simp_all add: Suc_diff_le)
qed

lemma Send_open:
  assumes "\<not> ch_closed ch" and "0 < ch_cap ch" and "length (ch_buf ch) \<le> ch_cap ch"
  defines "d \<equiv> if length (ch_buf ch) < ch_cap ch then 0 else length (ch_buf ch) - ch_cap ch div 2"
  shows "ParcelChannel_Send x ch = Some (True, d, ch\<lparr>ch_buf := drop d (ch_buf ch) @ [x]\<rparr>)"
  using assms by (auto simp: ParcelChannel_Send_def try_send_def drain_eq Let_def)

definition channel_open :: "'a channel \<Rightarrow> bool" where
  "channel_open ch \<longleftrightarrow> \<not> ch_closed ch \<and> 0 < ch_cap ch \<and> length (ch_buf ch) \<le> ch_cap ch"

interpretation parcel_channel: dropping_queue ParcelChannel_Send ch_buf ch_cap channel_open
  by unfold_locales (auto simp: channel_open_def Send_open)

lemma FillRatio_bounds: "channel_open ch \<Longrightarrow> 0 \<le> FillRatio ch \<and> FillRatio ch \<le> 1"
  using float64_of_mono [of "length (ch_buf ch)" "ch_cap ch"] float64_of_pos [of "ch_cap ch"]
  by (simp add: FillRatio_def channel_open_def f64_div_def round64_nonneg round64_le_1)

subsection \<open>Properties\<close>

text \<open>A channel with room loses nothing, a full one loses its older half: on an open channel \<open>Send\<close>
  always takes the parcel, puts it last, keeps the order of the others, drops nothing unless the channel
  is full and then exactly the elements beyond half its capacity, reports that number, and never exceeds
  the capacity.\<close>

theorem ParcelChannel_Send_correct:
  assumes "channel_open ch"
  shows "\<exists>d ch'. ParcelChannel_Send x ch = Some (True, d, ch')
    \<and> d = (if length (ch_buf ch) < ch_cap ch then 0 else ch_cap ch - ch_cap ch div 2)
    \<and> ch_buf ch' = drop d (ch_buf ch) @ [x] \<and> ch_cap ch' = ch_cap ch \<and> channel_open ch'
    \<and> 0 \<le> FillRatio ch' \<and> FillRatio ch' \<le> 1"
proof -
  from assms have full: "length (ch_buf ch) = ch_cap ch" if "\<not> length (ch_buf ch) < ch_cap ch"
    using that by (simp add: channel_open_def)
  define d where "d = (if length (ch_buf ch) < ch_cap ch then 0 else ch_cap ch - ch_cap ch div 2)"
  define ch' where "ch' = ch\<lparr>ch_buf := drop d (ch_buf ch) @ [x]\<rparr>"
  have "ParcelChannel_Send x ch = Some (True, d, ch')"
    using assms full Send_open [of ch x] by (auto simp: channel_open_def d_def ch'_def)
  moreover have "channel_open ch'"
    using assms by (auto simp: channel_open_def ch'_def d_def)
  ultimately show ?thesis
    using FillRatio_bounds [of ch'] by (simp add: d_def ch'_def)
qed

theorem ParcelChannel_Send_correct_witness:
  "\<exists>ch'. ParcelChannel_Send 5 \<lparr>ch_cap = 4, ch_buf = [1, 2, 3, 4 :: nat], ch_closed = False\<rparr> = Some (True, 2, ch')
     \<and> ch_buf ch' = [3, 4, 5]"
  using ParcelChannel_Send_correct [of "\<lparr>ch_cap = 4, ch_buf = [1, 2, 3, 4 :: nat], ch_closed = False\<rparr>" 5]
  by (auto simp: channel_open_def)

text \<open>C28: whatever is sent, and however slowly the other side reads, the channel holds the most recent
  parcels: after any sequence of sends its content is the end of the sequence of what it held and what
  was sent, the last parcel sent is in it, and what is missing from the front is what was reported as
  dropped.\<close>

theorem ParcelChannel_keeps_newest:
  assumes "channel_open ch"
  shows "\<exists>d ch'. send_list ParcelChannel_Send xs ch = Some (d, ch') \<and> channel_open ch'
    \<and> ch_buf ch' = drop d (ch_buf ch @ xs) \<and> d + length (ch_buf ch') = length (ch_buf ch) + length xs
    \<and> suffix (ch_buf ch') (ch_buf ch @ xs) \<and> (xs \<noteq> [] \<longrightarrow> last xs \<in> set (ch_buf ch'))"
proof -
  from parcel_channel.send_list_suffix [OF assms, of xs] obtain d ch' where s:
    "send_list ParcelChannel_Send xs ch = Some (d, ch')" "channel_open ch'" "d \<le> length (ch_buf ch @ xs)"
    "ch_buf ch' = drop d (ch_buf ch @ xs)" "xs \<noteq> [] \<longrightarrow> ch_buf ch' \<noteq> []" by blast
  have "last xs \<in> set (ch_buf ch')" if "xs \<noteq> []"
  proof -
    have "d < length (ch_buf ch @ xs)" using s(4,5) that by (metis drop_all not_less)
    then have "last (ch_buf ch') = last xs" unfolding s(4) using that by (subst last_drop) simp_all
    with s(5) that show ?thesis by (metis last_in_set)
  qed
  moreover have "suffix (ch_buf ch') (ch_buf ch @ xs)" unfolding s(4) by (rule suffix_drop)
  moreover have "d + length (ch_buf ch') = length (ch_buf ch) + length xs" using s(3,4) by simp
  ultimately show ?thesis using s by blast
qed

theorem ParcelChannel_keeps_newest_witness:
  "\<exists>d ch'. send_list ParcelChannel_Send [1, 2, 3 :: nat] (newParcelChannel 2) = Some (d, ch')
     \<and> 3 \<in> set (ch_buf ch')"
  using ParcelChannel_keeps_newest [of "newParcelChannel 2" "[1, 2, 3 :: nat]"]
  by (auto simp: channel_open_def newParcelChannel_def)

end
