(* ===== verification/MetricsRW.thy ===== *)
theory MetricsRW
  imports P2P_Prelude
begin

section \<open>Counting what passes through a connection\<close>

text \<open>
  \<open>metricsReadWriter.go\<close>: a reader and writer that counts calls and bytes in 64-bit counters, which
  \<open>Collect\<close> reads and resets. The wrapped connection is an argument: reading and writing give the number
  of bytes, whether there was an error, and its next state.
\<close>

record 'c MetricsReadWriter =
  mx_rw :: 'c
  mx_messagesWritten :: "64 word"
  mx_messagesRead :: "64 word"
  mx_bytesWritten :: "64 word"
  mx_bytesRead :: "64 word"

definition NewMetricsReadWriter :: "'c \<Rightarrow> 'c MetricsReadWriter" where
  "NewMetricsReadWriter rw =
     \<lparr>mx_rw = rw, mx_messagesWritten = 0, mx_messagesRead = 0, mx_bytesWritten = 0, mx_bytesRead = 0\<rparr>"

definition Metrics_Write :: "(bytes \<Rightarrow> 'c \<Rightarrow> nat \<times> bool \<times> 'c) \<Rightarrow> bytes \<Rightarrow> 'c MetricsReadWriter \<Rightarrow>
    nat \<times> bool \<times> 'c MetricsReadWriter" where
  "Metrics_Write wr p sc =
     (let (n, e, rw) = wr p (mx_rw sc)
      in (n, e, sc\<lparr>mx_rw := rw, mx_messagesWritten := mx_messagesWritten sc + 1,
            mx_bytesWritten := mx_bytesWritten sc + of_nat n\<rparr>))"

definition Metrics_Read :: "(nat \<Rightarrow> 'c \<Rightarrow> nat \<times> bool \<times> 'c) \<Rightarrow> nat \<Rightarrow> 'c MetricsReadWriter \<Rightarrow>
    nat \<times> bool \<times> 'c MetricsReadWriter" where
  "Metrics_Read rd len sc =
     (let (n, e, rw) = rd len (mx_rw sc)
      in (n, e, sc\<lparr>mx_rw := rw, mx_messagesRead := mx_messagesRead sc + 1,
            mx_bytesRead := mx_bytesRead sc + of_nat n\<rparr>))"

definition Collect_metrics :: "'c MetricsReadWriter \<Rightarrow>
    (64 word \<times> 64 word \<times> 64 word \<times> 64 word) \<times> 'c MetricsReadWriter" where
  "Collect_metrics sc =
     ((mx_messagesWritten sc, mx_messagesRead sc, mx_bytesWritten sc, mx_bytesRead sc),
      sc\<lparr>mx_messagesWritten := 0, mx_messagesRead := 0, mx_bytesWritten := 0, mx_bytesRead := 0\<rparr>)"

subsection \<open>Nothing is counted twice or forgotten\<close>

text \<open>A sequence of uses; the totals are what \<open>Collect\<close> has handed out so far, and the bytes the connection
  really took and gave.\<close>

datatype metrics_op = M_Write bytes | M_Read nat | M_Collect

record metrics_totals =
  mt_bytesWritten :: "64 word"
  mt_bytesRead :: "64 word"
  mt_realWritten :: nat
  mt_realRead :: nat

definition zero_totals :: metrics_totals where
  "zero_totals = \<lparr>mt_bytesWritten = 0, mt_bytesRead = 0, mt_realWritten = 0, mt_realRead = 0\<rparr>"

fun metrics_step :: "(bytes \<Rightarrow> 'c \<Rightarrow> nat \<times> bool \<times> 'c) \<Rightarrow> (nat \<Rightarrow> 'c \<Rightarrow> nat \<times> bool \<times> 'c) \<Rightarrow> metrics_op \<Rightarrow>
    'c MetricsReadWriter \<times> metrics_totals \<Rightarrow> 'c MetricsReadWriter \<times> metrics_totals" where
  "metrics_step wr rd (M_Write p) (sc, mt) =
     (let (n, _, sc') = Metrics_Write wr p sc in (sc', mt\<lparr>mt_realWritten := mt_realWritten mt + n\<rparr>))"
| "metrics_step wr rd (M_Read len) (sc, mt) =
     (let (n, _, sc') = Metrics_Read rd len sc in (sc', mt\<lparr>mt_realRead := mt_realRead mt + n\<rparr>))"
| "metrics_step wr rd M_Collect (sc, mt) =
     (let ((_, _, bw, br), sc') = Collect_metrics sc
      in (sc', mt\<lparr>mt_bytesWritten := mt_bytesWritten mt + bw, mt_bytesRead := mt_bytesRead mt + br\<rparr>))"

lemma metrics_step_sum:
  assumes "metrics_step wr rd op (sc, mt) = (sc', mt')"
    and "mt_bytesWritten mt + mx_bytesWritten sc = of_nat (mt_realWritten mt)"
    and "mt_bytesRead mt + mx_bytesRead sc = of_nat (mt_realRead mt)"
  shows "mt_bytesWritten mt' + mx_bytesWritten sc' = of_nat (mt_realWritten mt')"
    and "mt_bytesRead mt' + mx_bytesRead sc' = of_nat (mt_realRead mt')"
  using assms
  by (cases op; auto simp: Metrics_Write_def Metrics_Read_def Collect_metrics_def Let_def add.assoc [symmetric]
      split: prod.splits)+

text \<open>The traffic totals are exact: in every sequence of reads, writes and collections, what has been
  collected plus what is still in the counters is the number of bytes that really passed, modulo the
  width of the counters.\<close>

theorem metrics_exact:
  assumes "fold (metrics_step wr rd) ops (NewMetricsReadWriter rw, zero_totals) = (sc, mt)"
  shows "mt_bytesWritten mt + mx_bytesWritten sc = of_nat (mt_realWritten mt)
    \<and> mt_bytesRead mt + mx_bytesRead sc = of_nat (mt_realRead mt)"
proof -
  let ?I = "\<lambda>(sc :: 'a MetricsReadWriter, mt :: metrics_totals). mt_bytesWritten mt + mx_bytesWritten sc = of_nat (mt_realWritten mt)
    \<and> mt_bytesRead mt + mx_bytesRead sc = of_nat (mt_realRead mt)"
  have "?I (fold (metrics_step wr rd) ops (NewMetricsReadWriter rw, zero_totals))"
  proof (rule fold_invariant [where Q = "\<lambda>_. True"])
    show "?I (NewMetricsReadWriter rw, zero_totals)"
      by (simp add: NewMetricsReadWriter_def zero_totals_def)
  next
    fix x s assume "?I s"
    then show "?I (metrics_step wr rd x s)"
      using metrics_step_sum [of wr rd x "fst s" "snd s"]
      by (cases s; cases "metrics_step wr rd x s") simp
  qed simp
  with assms show ?thesis by simp
qed

theorem metrics_exact_witness:
  "\<exists>sc mt. fold (metrics_step (\<lambda>p c. (length p, False, c)) (\<lambda>n c. (n, False, c)))
      [M_Write [1, 2], M_Collect, M_Read 5] (NewMetricsReadWriter (), zero_totals) = (sc, mt)
    \<and> mt_bytesWritten mt + mx_bytesWritten sc = 2"
proof -
  let ?f = "fold (metrics_step (\<lambda>p c. (length p, False, c)) (\<lambda>n c. (n, False, c)))
      [M_Write [1, 2], M_Collect, M_Read 5] (NewMetricsReadWriter (), zero_totals)"
  obtain sc mt where r: "?f = (sc, mt)" by (rule prod.exhaust)
  then have "mt_realWritten mt = 2"
    by (auto simp: Metrics_Write_def Metrics_Read_def Collect_metrics_def zero_totals_def)
  with metrics_exact [OF r] r show ?thesis by simp
qed

end
