(* ===== verification/Peers.thy ===== *)
theory Peers
  imports Protocols PeerStores HashCache ParcelChan MetricsRW
begin

section \<open>Peers\<close>

text \<open>
  \<open>peer.go\<close> and \<open>peerUtil.go\<close>: one lifetime of a connection. The record extends the three constants of
  \<open>PeerConsts\<close> with everything that changes. Its goroutines are one step per turn of their loop:
  \<open>readLoop_step\<close>, \<open>sendLoop_step\<close> and \<open>statLoop_step\<close>; \<open>None\<close> is a panic, which ends the whole program.
  How many reads and writes the buffered connection issues is not modelled, so the traffic counters change
  only in \<open>statLoop_step\<close>, by what \<open>Collect\<close> hands out. The deadlines of the connection are not modelled: a deadline that passes is an
  error of reading or writing.

  \<open>Peer_Stop_local\<close> is what \<open>Stop\<close> does to the peer itself; that it tells the controller is added where
  the controller's channels are known (theory \<open>Controller\<close>).
\<close>

record Peer = PeerConsts +
  p_conn :: gob_conn
  p_connClosed :: bool
  p_metrics :: "unit MetricsReadWriter"
  p_prot :: Protocol
  p_resend :: "PeerHashCache option"
  p_stopped :: bool
  p_lastPeerRequest :: time
  p_lastPeerSend :: time
  p_send :: "Parcel option channel"
  p_connected :: time
  p_lastReceive :: time
  p_lastSend :: time
  p_totalParcelsSent :: "64 word"
  p_totalParcelsReceived :: "64 word"
  p_totalBytesSent :: "64 word"
  p_totalBytesReceived :: "64 word"
  p_bpsDown :: float64
  p_bpsUp :: float64
  p_mpsDown :: float64
  p_mpsUp :: float64
  p_dropped :: "64 word"

record PeerMetrics =
  pm_Hash :: string
  pm_PeerAddress :: string
  pm_MomentConnected :: time
  pm_PeerQuality :: int
  pm_LastReceive :: time
  pm_LastSend :: time
  pm_MessagesSent :: "64 word"
  pm_BytesSent :: "64 word"
  pm_MessagesReceived :: "64 word"
  pm_BytesReceived :: "64 word"
  pm_Incoming :: bool
  pm_PeerType :: string
  pm_ConnectionState :: string
  pm_MPSDown :: float64
  pm_MPSUp :: float64
  pm_BPSDown :: float64
  pm_BPSUp :: float64
  pm_SendFillRatio :: float64
  pm_Dropped :: "64 word"

definition peer_hash :: "Endpoint \<Rightarrow> 32 word \<Rightarrow> string" where
  "peer_hash ep nodeid = IP ep @ '':'' @ Port ep @ '' '' @ show_hex8 (unat nodeid)"

text \<open>\<open>newPeer\<close> panics if the resend filter is on with a negative number of buckets, or an interval that is not
  positive.\<close>

definition newPeer :: "Configuration \<Rightarrow> time \<Rightarrow> 32 word \<Rightarrow> Endpoint \<Rightarrow> gob_conn \<Rightarrow> Protocol \<Rightarrow> unit MetricsReadWriter
    \<Rightarrow> bool \<Rightarrow> Peer option" where
  "newPeer conf now nodeid ep conn prot metrics incoming =
     (case (if cf_PeerResendFilter conf then map_option Some (NewPeerHashCache (cf_PeerResendBuckets conf) (cf_PeerResendInterval conf))
            else Some None) of
        None \<Rightarrow> None
      | Some resend \<Rightarrow> Some
          \<lparr>pk_Hash = peer_hash ep nodeid, pk_Endpoint = ep, pk_IsIncoming = incoming,
           p_conn = conn, p_connClosed = False, p_metrics = metrics, p_prot = prot, p_resend = resend,
           p_stopped = False, p_lastPeerRequest = 0, p_lastPeerSend = 0,
           p_send = newParcelChannel (unat (cf_ChannelCapacity conf)),
           p_connected = now, p_lastReceive = 0, p_lastSend = 0,
           p_totalParcelsSent = 0, p_totalParcelsReceived = 0, p_totalBytesSent = 0, p_totalBytesReceived = 0,
           p_bpsDown = 0, p_bpsUp = 0, p_mpsDown = 0, p_mpsUp = 0, p_dropped = 0\<rparr>)"

text \<open>\<open>stopper.Do\<close>: the body runs once. Stopping a cache twice would panic.\<close>

definition Peer_Stop_local :: "Peer \<Rightarrow> Peer option" where
  "Peer_Stop_local p =
     (if p_stopped p then Some p
      else case (case p_resend p of None \<Rightarrow> Some None | Some c \<Rightarrow> map_option Some (HashCache_Stop c)) of
             None \<Rightarrow> None
           | Some resend \<Rightarrow> Some (p\<lparr>p_resend := resend, p_stopped := True, p_connClosed := True\<rparr>))"

definition Peer_String :: "Peer \<Rightarrow> string" where
  "Peer_String p = pk_Hash p"

definition Peer_Send :: "Parcel option \<Rightarrow> Peer \<Rightarrow> Peer option" where
  "Peer_Send parcel p =
     (if p_stopped p then Some p
      else case ParcelChannel_Send parcel (p_send p) of
             None \<Rightarrow> None
           | Some (_, dropped, ch) \<Rightarrow> Some (p\<lparr>p_send := ch, p_dropped := p_dropped p + of_nat dropped\<rparr>))"

text \<open>A turn of \<open>statLoop\<close>: if the peer is stopped and the ticker has fired, either may be seen first; \<open>quit\<close> decides.\<close>

definition statLoop_step :: "bool \<Rightarrow> Peer \<Rightarrow> Peer" where
  "statLoop_step quit p =
     (if p_stopped p \<and> quit then p
      else
        let ((mw, mr, bw, br), metrics) = Collect_metrics (p_metrics p)
        in p\<lparr>p_metrics := metrics, p_bpsDown := float64_of (unat br), p_bpsUp := float64_of (unat bw),
             p_totalBytesReceived := p_totalBytesReceived p + br, p_totalBytesSent := p_totalBytesSent p + bw,
             p_mpsDown := float64_of (unat mr), p_mpsUp := float64_of (unat mw),
             p_totalParcelsReceived := p_totalParcelsReceived p + mr,
             p_totalParcelsSent := p_totalParcelsSent p + mw\<rparr>)"

text \<open>One turn of a loop of the peer: the loop goes on, hands a parcel to the controller, or returns, which
  stops the peer.\<close>

datatype loop_result = Loop_Continue Peer | Loop_Deliver Peer Parcel | Loop_Return Peer

text \<open>\<open>deliver\<close> waits until the parcel is taken or the peer is stopped; if both are possible it may do
  either, which \<open>take_it\<close> decides.\<close>

definition deliver :: "bool \<Rightarrow> Peer \<Rightarrow> Parcel \<Rightarrow> loop_result" where
  "deliver take_it p parcel =
     (if p_stopped p \<and> \<not> take_it then Loop_Return p else Loop_Deliver p parcel)"

text \<open>From a closed connection only what is in the read buffer already can still be read (\<open>buffered\<close>).\<close>

definition readLoop_step :: "Lib \<Rightarrow> time \<Rightarrow> bool \<Rightarrow> bool \<Rightarrow> Peer \<Rightarrow> loop_result option" where
  "readLoop_step lib now buffered take_it p =
     (if p_connClosed p \<and> \<not> buffered then Some (Loop_Return p)
      else case Prot_Receive lib (p_prot p, p_conn p) of
        Inl e \<Rightarrow> Some (Loop_Return p)
      | Inr (msg, prot, conn) \<Rightarrow>
          (let p = p\<lparr>p_prot := prot, p_conn := conn\<rparr>
           in if Parcel_Valid (Some msg) \<noteq> Inr () then Some (Loop_Return p)
              else
                let p = p\<lparr>p_lastReceive := now\<rparr>
                in case (case p_resend p of
                           Some c \<Rightarrow> if IsApplicationMessage msg
                                     then map_option Some (HashCache_Add (lib_sha1 lib (Payload msg)) c)
                                     else Some (Some c)
                         | None \<Rightarrow> Some None) of
                     None \<Rightarrow> None
                   | Some resend \<Rightarrow>
                       Some (deliver take_it (p\<lparr>p_resend := resend\<rparr>) (msg\<lparr>Address := pk_Hash p\<rparr>))))"

text \<open>A turn of \<open>sendLoop\<close>: when the network or the peer is stopped the loop may return even if there is a
  parcel in the channel, which \<open>quit\<close> decides; when there is none it waits. The parcel may be nil.\<close>

definition sendLoop_step :: "Lib \<Rightarrow> time \<Rightarrow> bool \<Rightarrow> bool \<Rightarrow> Peer \<Rightarrow> loop_result" where
  "sendLoop_step lib now net_stopped quit p =
     (if (net_stopped \<or> p_stopped p) \<and> (quit \<or> ch_buf (p_send p) = []) then Loop_Return p
      else case Channel_Receive (p_send p) of
        None \<Rightarrow> Loop_Continue p
      | Some (x, ch) \<Rightarrow>
          (let p = p\<lparr>p_send := ch\<rparr>
           in case Option.bind x id of
                None \<Rightarrow> Loop_Continue p
              | Some parcel \<Rightarrow>
                  if p_connClosed p then Loop_Return p
                  else case Prot_Send lib parcel (p_prot p, p_conn p) of
                    Inl e \<Rightarrow> Loop_Return p
                  | Inr (prot, conn) \<Rightarrow>
                      Loop_Continue (p\<lparr>p_prot := prot, p_conn := conn, p_lastSend := now\<rparr>)))"

text \<open>The deferred calls of \<open>sendLoop\<close>: \<open>Stop\<close>, then \<open>close(p.send)\<close>.\<close>

definition close_send :: "Peer \<Rightarrow> Peer option" where
  "close_send p = map_option (\<lambda>ch. p\<lparr>p_send := ch\<rparr>) (Channel_Close (p_send p))"

definition LastSendAge :: "time \<Rightarrow> Peer \<Rightarrow> duration" where
  "LastSendAge now p = Since now (p_lastSend p)"

definition SendFillRatio :: "Peer \<Rightarrow> float64" where
  "SendFillRatio p = FillRatio (p_send p)"

text \<open>\<open>special\<close> is the answer of the controller's \<open>isSpecial\<close>.\<close>

definition GetMetrics :: "bool \<Rightarrow> Peer \<Rightarrow> PeerMetrics" where
  "GetMetrics special p =
     \<lparr>pm_Hash = pk_Hash p, pm_PeerAddress = IP (pk_Endpoint p), pm_MomentConnected = p_connected p,
      pm_PeerQuality = 0, pm_LastReceive = p_lastReceive p, pm_LastSend = p_lastSend p,
      pm_MessagesSent = p_totalParcelsSent p, pm_BytesSent = p_totalBytesSent p,
      pm_MessagesReceived = p_totalParcelsReceived p, pm_BytesReceived = p_totalBytesReceived p,
      pm_Incoming = pk_IsIncoming p, pm_PeerType = (if special then ''special_config'' else ''regular''),
      pm_ConnectionState = ''v'' @ Prot_String (p_prot p),
      pm_MPSDown = p_mpsDown p, pm_MPSUp = p_mpsUp p, pm_BPSDown = p_bpsDown p, pm_BPSUp = p_bpsUp p,
      pm_SendFillRatio = SendFillRatio p, pm_Dropped = p_dropped p\<rparr>"

text \<open>The ticker of the resend filter's \<open>cleanup\<close>.\<close>

definition resend_tick :: "bool \<Rightarrow> Peer \<Rightarrow> Peer option" where
  "resend_tick quit p =
     (case p_resend p of
        None \<Rightarrow> Some p
      | Some c \<Rightarrow> map_option (\<lambda>c. p\<lparr>p_resend := Some c\<rparr>) (cleanup_step quit c))"

subsection \<open>A peer never panics as long as its operations do not overlap\<close>

text \<open>Everything that may happen to a peer, in any order. A loop of the peer that has returned is over:
  \<open>sendLoop\<close> has then closed the channel.\<close>

datatype peer_op =
    PO_Send "Parcel option" | PO_Stop | PO_Read time bool bool | PO_SendLoop time bool bool | PO_Stat bool | PO_Tick bool

fun peer_step :: "Lib \<Rightarrow> peer_op \<Rightarrow> Peer \<Rightarrow> Peer option" where
  "peer_step lib (PO_Send x) p = Peer_Send x p"
| "peer_step lib PO_Stop p = Peer_Stop_local p"
| "peer_step lib (PO_Read now buffered take_it) p =
     (case readLoop_step lib now buffered take_it p of
        None \<Rightarrow> None
      | Some (Loop_Continue p) \<Rightarrow> Some p
      | Some (Loop_Deliver p _) \<Rightarrow> Some p
      | Some (Loop_Return p) \<Rightarrow> Peer_Stop_local p)"
| "peer_step lib (PO_SendLoop now net_stopped quit) p =
     (if ch_closed (p_send p) then Some p
      else case sendLoop_step lib now net_stopped quit p of
        Loop_Continue p \<Rightarrow> Some p
      | Loop_Deliver p _ \<Rightarrow> Some p
      | Loop_Return p \<Rightarrow> Option.bind (Peer_Stop_local p) close_send)"
| "peer_step lib (PO_Stat quit) p = Some (statLoop_step quit p)"
| "peer_step lib (PO_Tick quit) p = resend_tick quit p"

primrec peer_run :: "Lib \<Rightarrow> peer_op list \<Rightarrow> Peer \<Rightarrow> Peer option" where
  "peer_run lib [] p = Some p"
| "peer_run lib (op # ops) p = Option.bind (peer_step lib op p) (peer_run lib ops)"

definition peer_ok :: "Peer \<Rightarrow> bool" where
  "peer_ok p \<longleftrightarrow> (\<forall>c. p_resend p = Some c \<longrightarrow> hc_stopped c = p_stopped p \<and> HashCache_inv c)
     \<and> p_connClosed p = p_stopped p \<and> (ch_closed (p_send p) \<longrightarrow> p_stopped p)
     \<and> 0 < ch_cap (p_send p) \<and> length (ch_buf (p_send p)) \<le> ch_cap (p_send p)"

text \<open>What the resend filter needs of the configuration; \<open>Check\<close> does not look at it.\<close>

definition resend_ok :: "Configuration \<Rightarrow> bool" where
  "resend_ok conf \<longleftrightarrow> (cf_PeerResendFilter conf \<longrightarrow> 0 < cf_PeerResendBuckets conf \<and> 0 < cf_PeerResendInterval conf)"

lemma resend_ok_default: "cf_ChannelCapacity DefaultP2PConfiguration \<noteq> 0" "resend_ok DefaultP2PConfiguration"
  by (simp_all add: resend_ok_def DefaultP2PConfiguration_def duration_defs)

lemma newPeer_ok:
  assumes "cf_ChannelCapacity conf \<noteq> 0" and "resend_ok conf"
  shows "\<exists>p. newPeer conf now nodeid ep conn prot metrics incoming = Some p \<and> peer_ok p \<and> \<not> p_stopped p"
  using assms
  by (auto simp: newPeer_def NewPeerHashCache_def peer_ok_def HashCache_inv_def newParcelChannel_def unat_gt_0 resend_ok_def)

lemma Peer_Stop_ok:
  assumes "peer_ok p"
  shows "\<exists>p'. Peer_Stop_local p = Some p' \<and> peer_ok p' \<and> p_stopped p' \<and> p_send p' = p_send p
    \<and> PeerConsts.truncate p' = PeerConsts.truncate p"
  using assms
  by (auto simp: Peer_Stop_local_def HashCache_Stop_def peer_ok_def HashCache_inv_def PeerConsts.truncate_def
      split: option.splits)

lemma Peer_Send_ok:
  assumes "peer_ok p"
  shows "\<exists>p'. Peer_Send x p = Some p' \<and> peer_ok p'"
proof (cases "p_stopped p")
  case True
  with assms show ?thesis by (simp add: Peer_Send_def)
next
  case False
  with assms have "channel_open (p_send p)" by (auto simp: peer_ok_def channel_open_def)
  from parcel_channel.send_usable [OF this, of x] obtain d ch where
    "ParcelChannel_Send x (p_send p) = Some (True, d, ch)" "channel_open ch" by blast
  with False assms show ?thesis by (auto simp: Peer_Send_def peer_ok_def channel_open_def)
qed

lemma cleanup_ok:
  assumes "HashCache_inv c"
  shows "\<exists>c'. cleanup_step quit c = Some c' \<and> HashCache_inv c' \<and> hc_stopped c' = hc_stopped c"
proof (cases "hc_stopped c \<and> quit")
  case False
  from hash_window.tick_win [OF assms] obtain c' where "dropOldestBucket c = Some c'" "HashCache_inv c'" by blast
  moreover from this(1) have "hc_stopped c' = hc_stopped c"
    by (auto simp: dropOldestBucket_def Let_def split: if_splits)
  ultimately show ?thesis using False by (auto simp: cleanup_step_def)
qed (simp add: cleanup_step_def assms)

lemma resend_tick_ok: "peer_ok p \<Longrightarrow> \<exists>p'. resend_tick quit p = Some p' \<and> peer_ok p'"
  using cleanup_ok by (fastforce simp: resend_tick_def peer_ok_def split: option.splits)

lemma HashCache_Add_ok:
  assumes "HashCache_inv c"
  shows "\<exists>c'. HashCache_Add h c = Some c' \<and> HashCache_inv c' \<and> hc_stopped c' = hc_stopped c \<and> HashCache_Has c' h"
proof -
  from hash_window.add_win [OF assms, of h] obtain c' where c': "HashCache_Add h c = Some c'" "HashCache_inv c'"
    "HashCache_window c' = insert h (hd (HashCache_window c)) # tl (HashCache_window c)" by blast
  moreover from c'(1) have "hc_stopped c' = hc_stopped c" by (auto simp: HashCache_Add_def split: if_splits)
  moreover have "HashCache_Has c' h" using hash_window.has_win [OF c'(2)] c'(3) by simp
  ultimately show ?thesis by blast
qed

lemma Receive_bounds: "Channel_Receive ch = Some (x, ch') \<Longrightarrow> ch_cap ch' = ch_cap ch \<and> ch_closed ch' = ch_closed ch
    \<and> length (ch_buf ch') \<le> length (ch_buf ch)"
  by (auto simp: Channel_Receive_def split: list.splits if_splits)

lemma sendLoop_ok:
  assumes "peer_ok p"
  shows "case sendLoop_step lib now ns quit p of Loop_Continue p' \<Rightarrow> peer_ok p'
    | Loop_Deliver p' _ \<Rightarrow> False | Loop_Return p' \<Rightarrow> peer_ok p' \<and> ch_closed (p_send p') = ch_closed (p_send p)"
  using assms
  by (auto simp: sendLoop_step_def peer_ok_def Let_def dest!: Receive_bounds split: option.splits sum.splits)

lemma readLoop_ok:
  assumes "peer_ok p"
  shows "\<exists>r. readLoop_step lib now buffered take_it p = Some r
    \<and> (case r of Loop_Continue p' \<Rightarrow> False | Loop_Deliver p' _ \<Rightarrow> peer_ok p' | Loop_Return p' \<Rightarrow> peer_ok p')"
proof (cases "Prot_Receive lib (p_prot p, p_conn p)")
  case (Inr x)
  obtain msg prot conn where x: "x = (msg, prot, conn)" by (rule prod_cases3)
  show ?thesis
  proof (cases "p_resend p")
    case None
    with assms Inr x show ?thesis
      by (auto simp: readLoop_step_def deliver_def peer_ok_def Let_def)
  next
    case (Some c)
    with assms have "HashCache_inv c" "hc_stopped c = p_stopped p" by (auto simp: peer_ok_def)
    with HashCache_Add_ok [of c "lib_sha1 lib (Payload msg)"] obtain c' where
      "HashCache_Add (lib_sha1 lib (Payload msg)) c = Some c'" "HashCache_inv c'" "hc_stopped c' = p_stopped p" by auto
    with assms Inr x Some show ?thesis
      by (auto simp: readLoop_step_def deliver_def peer_ok_def Let_def)
  qed
next
  case (Inl e)
  with assms show ?thesis by (auto simp: readLoop_step_def)
qed

lemma peer_step_ok:
  assumes "peer_ok p"
  shows "\<exists>p'. peer_step lib op p = Some p' \<and> peer_ok p'"
proof (cases op)
  case (PO_Read now buffered take_it)
  from readLoop_ok [OF assms, of lib now buffered take_it] obtain r where
    "readLoop_step lib now buffered take_it p = Some r"
    "case r of Loop_Continue p' \<Rightarrow> False | Loop_Deliver p' _ \<Rightarrow> peer_ok p' | Loop_Return p' \<Rightarrow> peer_ok p'" by blast
  then show ?thesis using PO_Read Peer_Stop_ok by (cases r) fastforce+
next
  case (PO_SendLoop now ns quit)
  show ?thesis
  proof (cases "sendLoop_step lib now ns quit p")
    case (Loop_Return p1)
    with sendLoop_ok [OF assms, of lib now ns quit] have p1: "peer_ok p1" "ch_closed (p_send p1) = ch_closed (p_send p)"
      by simp_all
    from Peer_Stop_ok [OF p1(1)] obtain p2 where p2: "Peer_Stop_local p1 = Some p2" "peer_ok p2" "p_stopped p2"
      "p_send p2 = p_send p1" by blast
    then have "\<not> ch_closed (p_send p) \<Longrightarrow> \<exists>p3. close_send p2 = Some p3 \<and> peer_ok p3"
      using p1(2) by (auto simp: close_send_def Channel_Close_def peer_ok_def)
    with PO_SendLoop Loop_Return p2(1) assms show ?thesis by auto
  qed (use PO_SendLoop assms sendLoop_ok [OF assms, of lib now ns quit] in auto)
next
  case (PO_Stat quit)
  with assms show ?thesis by (auto simp: statLoop_step_def peer_ok_def Let_def Collect_metrics_def)
qed (use assms Peer_Send_ok Peer_Stop_ok resend_tick_ok in fastforce)+

lemma peer_run_ok: "peer_ok p \<Longrightarrow> \<exists>p'. peer_run lib ops p = Some p' \<and> peer_ok p'"
proof (induction ops arbitrary: p)
  case (Cons op ops)
  from peer_step_ok [OF Cons.prems, of lib op] obtain p1 where "peer_step lib op p = Some p1" "peer_ok p1" by blast
  with Cons.IH [of p1] show ?case by simp
qed simp

subsection \<open>Properties\<close>

text \<open>C11: the life of a peer is free of panics: with a configuration that \<open>Check\<close> accepts and at least one
  bucket and a positive interval for the resend filter, a new peer survives every sequence of sends, stops, turns of its three
  loops and ticks of its filter, as long as these do not overlap: no channel is closed twice or used
  after it was closed, the filter is stopped once, no index is out of range; and the send queue stays
  within its capacity.\<close>

theorem peer_never_panics:
  assumes "Check conf = Inr ()" and "resend_ok conf"
  shows "\<exists>p p'. newPeer conf now nodeid ep conn prot metrics incoming = Some p \<and> peer_run lib ops p = Some p'
    \<and> length (ch_buf (p_send p')) \<le> ch_cap (p_send p')"
proof -
  have "cf_ChannelCapacity conf \<noteq> 0" using assms(1) by (simp add: Check_ok_iff)
  from newPeer_ok [OF this assms(2)] obtain p where
    "newPeer conf now nodeid ep conn prot metrics incoming = Some p" "peer_ok p" by blast
  with peer_run_ok [of p lib ops] show ?thesis by (auto simp: peer_ok_def)
qed

theorem peer_never_panics_witness:
  "\<exists>p p'. newPeer DefaultP2PConfiguration 1 2 \<lparr>IP = ''a'', Port = ''1''\<rparr> (open_rw []) PV11 (NewMetricsReadWriter ()) True = Some p
     \<and> peer_run sample_lib [PO_Send None, PO_Stop, PO_Stop, PO_Send None] p = Some p'"
proof -
  from peer_never_panics [OF Check_default resend_ok_default(2)] show ?thesis by blast
qed

text \<open>Without buckets the filter brings the node down: a configuration that \<open>Check\<close> accepts may ask for
  a resend filter with no buckets, and then the first application message a peer sends makes \<open>readLoop\<close>
  panic.\<close>

theorem no_buckets_panics:
  "\<exists>conf p. Check conf = Inr () \<and> cf_PeerResendFilter conf
     \<and> newPeer conf 1 2 \<lparr>IP = ''a'', Port = ''1''\<rparr> (open_rw [Gob (GobType TV10Msg),
         Gob (GobV10 \<lparr>m10_Type = TypeMessage, m10_Payload = [7]\<rparr>)]) (PV10 (newProtocolV10 [] []))
         (NewMetricsReadWriter ()) True = Some p
     \<and> readLoop_step lib 3 False True p = None"
proof -
  let ?conf = "DefaultP2PConfiguration\<lparr>cf_PeerResendBuckets := 0\<rparr>"
  have "Check ?conf = Inr ()" using Check_default by (simp add: Check_def DefaultP2PConfiguration_def)
  moreover have "cf_PeerResendFilter ?conf" by (simp add: DefaultP2PConfiguration_def)
  ultimately show ?thesis
    by (intro exI [of _ ?conf]) (simp add: newPeer_def NewPeerHashCache_def readLoop_step_def Prot_Receive_def
        V10_Receive_def newProtocolV10_def Decode_def open_rw_def newParcel_def Parcel_Valid_def ParcelType_defs
        IsApplicationMessage_def HashCache_Add_def DefaultP2PConfiguration_def duration_defs Let_def)
qed

text \<open>Nor does \<open>Check\<close> look at the interval of the filter: if it is not positive, the first peer brings the node
  down.\<close>

lemma no_interval_panics:
  assumes "cf_PeerResendFilter conf" and "cf_PeerResendInterval conf \<le> 0"
  shows "newPeer conf now nodeid ep conn prot metrics incoming = None \<and> Check (conf\<lparr>cf_PeerResendInterval := d\<rparr>) = Check conf"
  using assms by (simp add: newPeer_def NewPeerHashCache_def Check_def)

text \<open>C29: what a peer hands to the controller is valid, carries the peer's own hash as its address whatever the
  remote side wrote there, and, if it is an application message and the filter is on, the hash of its payload is
  known to the filter at least until as many intervals have ended as the filter has buckets, whatever else is added
  to the filter in the meantime.\<close>

theorem readLoop_delivers:
  assumes "peer_ok p" and "readLoop_step lib now buffered take_it p = Some (Loop_Deliver p' msg)"
  shows "Parcel_Valid (Some msg) = Inr () \<and> Address msg = pk_Hash p \<and> p_lastReceive p' = now
    \<and> (IsApplicationMessage msg \<longrightarrow> p_resend p \<noteq> None \<longrightarrow>
        (\<exists>c. p_resend p' = Some c \<and> (\<forall>ops. drops ops < length (hc_buckets c) \<longrightarrow>
           (\<exists>c'. run_ops HashCache_Add dropOldestBucket ops c = Some c' \<and> HashCache_Has c' (lib_sha1 lib (Payload msg))))))"
proof -
  from assms(2) obtain m prot conn where m: "Prot_Receive lib (p_prot p, p_conn p) = Inr (m, prot, conn)"
    "Parcel_Valid (Some m) = Inr ()"
    by (auto simp: readLoop_step_def Let_def split: sum.splits if_splits)
  have valid: "Parcel_Valid (Some (m\<lparr>Address := a\<rparr>)) = Parcel_Valid (Some m)" for a
    by (simp add: Parcel_Valid_def)
  show ?thesis
  proof (cases "p_resend p")
    case None
    with assms(2) m valid show ?thesis
      by (auto simp: readLoop_step_def deliver_def Let_def split: if_splits)
  next
    case (Some c)
    with assms(1) have "HashCache_inv c" by (simp add: peer_ok_def)
    with HashCache_Add_ok [of c "lib_sha1 lib (Payload m)"] obtain c' where
      c': "HashCache_Add (lib_sha1 lib (Payload m)) c = Some c'" "length (hc_buckets c') = length (hc_buckets c)"
      by (auto simp: HashCache_Add_def split: if_splits)
    have kept: "\<exists>c2. run_ops HashCache_Add dropOldestBucket ops c' = Some c2 \<and> HashCache_Has c2 (lib_sha1 lib (Payload m))"
      if "drops ops < length (hc_buckets c')" for ops
      using hash_window.added_kept [OF \<open>HashCache_inv c\<close>, of ops "lib_sha1 lib (Payload m)"] that c'
      by (auto simp: HashCache_window_def)
    from Some assms(2) m valid c'(1) have "Parcel_Valid (Some msg) = Inr ()" "Address msg = pk_Hash p" "p_lastReceive p' = now"
      "IsApplicationMessage msg \<longrightarrow> p_resend p' = Some c' \<and> Payload msg = Payload m"
      by (auto simp: readLoop_step_def deliver_def Let_def IsApplicationMessage_def split: if_splits)
    with kept show ?thesis by auto
  qed
qed

theorem readLoop_delivers_witness:
  "\<exists>p p' msg. newPeer DefaultP2PConfiguration 1 2 \<lparr>IP = ''a'', Port = ''1''\<rparr> (open_rw [Gob (GobType TV10Msg),
         Gob (GobV10 \<lparr>m10_Type = TypeMessage, m10_Payload = [7]\<rparr>)]) (PV10 (newProtocolV10 [] []))
         (NewMetricsReadWriter ()) True = Some p
     \<and> readLoop_step sample_lib 3 False True p = Some (Loop_Deliver p' msg) \<and> Address msg = pk_Hash p"
proof -
  let ?new = "newPeer DefaultP2PConfiguration 1 2 \<lparr>IP = ''a'', Port = ''1''\<rparr> (open_rw [Gob (GobType TV10Msg),
         Gob (GobV10 \<lparr>m10_Type = TypeMessage, m10_Payload = [7]\<rparr>)]) (PV10 (newProtocolV10 [] []))
         (NewMetricsReadWriter ()) True"
  from newPeer_ok [OF resend_ok_default] obtain p where p: "?new = Some p" "peer_ok p" by blast
  moreover from p(1) obtain p' msg where r: "readLoop_step sample_lib 3 False True p = Some (Loop_Deliver p' msg)"
    by (auto simp: newPeer_def NewPeerHashCache_def readLoop_step_def Prot_Receive_def
        V10_Receive_def newProtocolV10_def Decode_def open_rw_def newParcel_def Parcel_Valid_def ParcelType_defs
        IsApplicationMessage_def HashCache_Add_def DefaultP2PConfiguration_def duration_defs Let_def deliver_def)
  ultimately show ?thesis using readLoop_delivers [OF p(2) r] by blast
qed

subsection \<open>Operations that overlap: \<open>Peer.Send\<close> against the end of \<open>sendLoop\<close>\<close>

text \<open>
  \<open>Peer.Send\<close> first looks whether the peer is stopped and then sends on the channel: two steps of the
  goroutine that calls it. The deferred calls of \<open>sendLoop\<close> stop the peer and close the channel: two
  steps of another goroutine. The relation interleaves them.
\<close>

datatype sender_pc = S_Start "Parcel option" | S_Checked "Parcel option" | S_Done | S_Panic
datatype loop_pc = L_Run | L_Stopped | L_Closed

record send_race =
  sr_peer :: Peer
  sr_sender :: sender_pc
  sr_loop :: loop_pc

inductive race_step :: "send_race \<Rightarrow> send_race \<Rightarrow> bool" where
  check_open: "sr_sender s = S_Start x \<Longrightarrow> \<not> p_stopped (sr_peer s) \<Longrightarrow> race_step s (s\<lparr>sr_sender := S_Checked x\<rparr>)"
| check_stopped: "sr_sender s = S_Start x \<Longrightarrow> p_stopped (sr_peer s) \<Longrightarrow> race_step s (s\<lparr>sr_sender := S_Done\<rparr>)"
| send: "sr_sender s = S_Checked x \<Longrightarrow> ParcelChannel_Send x (p_send (sr_peer s)) = Some (ok, dropped, ch) \<Longrightarrow>
    race_step s (s\<lparr>sr_sender := S_Done, sr_peer := (sr_peer s)\<lparr>p_send := ch,
      p_dropped := p_dropped (sr_peer s) + of_nat dropped\<rparr>\<rparr>)"
| send_panic: "sr_sender s = S_Checked x \<Longrightarrow> ParcelChannel_Send x (p_send (sr_peer s)) = None \<Longrightarrow>
    race_step s (s\<lparr>sr_sender := S_Panic\<rparr>)"
| loop_stop: "sr_loop s = L_Run \<Longrightarrow> Peer_Stop_local (sr_peer s) = Some p \<Longrightarrow>
    race_step s (s\<lparr>sr_loop := L_Stopped, sr_peer := p\<rparr>)"
| loop_close: "sr_loop s = L_Stopped \<Longrightarrow> close_send (sr_peer s) = Some p \<Longrightarrow>
    race_step s (s\<lparr>sr_loop := L_Closed, sr_peer := p\<rparr>)"

text \<open>C36: sending to a peer can bring the node down: from every state in which a peer is running and some
  goroutine is about to send a parcel to it, an interleaving leads to a panic, because the peer's
  \<open>sendLoop\<close> may close the channel between the two steps of \<open>Send\<close>.\<close>

theorem Peer_Send_race:
  assumes "peer_ok p" and "\<not> p_stopped p"
  shows "\<exists>s. race_step\<^sup>*\<^sup>* \<lparr>sr_peer = p, sr_sender = S_Start x, sr_loop = L_Run\<rparr> s \<and> sr_sender s = S_Panic"
proof -
  let ?s0 = "\<lparr>sr_peer = p, sr_sender = S_Start x, sr_loop = L_Run\<rparr>"
  from Peer_Stop_ok [OF assms(1)] obtain p1 where p1: "Peer_Stop_local p = Some p1" "p_send p1 = p_send p" by blast
  have "\<not> ch_closed (p_send p)" using assms by (auto simp: peer_ok_def)
  then obtain p2 where p2: "close_send p1 = Some p2" "ch_closed (p_send p2)"
    using p1(2) by (auto simp: close_send_def Channel_Close_def)
  have "race_step ?s0 (?s0\<lparr>sr_sender := S_Checked x\<rparr>)" using assms(2) by (intro check_open) simp_all
  also have "race_step\<^sup>*\<^sup>* (?s0\<lparr>sr_sender := S_Checked x\<rparr>) \<lparr>sr_peer = p1, sr_sender = S_Checked x, sr_loop = L_Stopped\<rparr>"
    using loop_stop [of "?s0\<lparr>sr_sender := S_Checked x\<rparr>" p1] p1(1) by auto
  also have "race_step \<dots> \<lparr>sr_peer = p2, sr_sender = S_Checked x, sr_loop = L_Closed\<rparr>"
    using loop_close [of "\<lparr>sr_peer = p1, sr_sender = S_Checked x, sr_loop = L_Stopped\<rparr>" p2] p2(1) by simp
  also have "race_step \<dots> \<lparr>sr_peer = p2, sr_sender = S_Panic, sr_loop = L_Closed\<rparr>"
    using send_panic [of "\<lparr>sr_peer = p2, sr_sender = S_Checked x, sr_loop = L_Closed\<rparr>" x] p2(2)
    by (simp add: ParcelChannel_Send_def try_send_def)
  finally show ?thesis by auto
qed

theorem Peer_Send_race_witness:
  "\<exists>p s. newPeer DefaultP2PConfiguration 1 2 \<lparr>IP = ''a'', Port = ''1''\<rparr> (open_rw []) PV11 (NewMetricsReadWriter ()) True = Some p
     \<and> race_step\<^sup>*\<^sup>* \<lparr>sr_peer = p, sr_sender = S_Start None, sr_loop = L_Run\<rparr> s \<and> sr_sender s = S_Panic"
proof -
  from newPeer_ok [OF resend_ok_default] obtain p where
    p: "newPeer DefaultP2PConfiguration 1 2 \<lparr>IP = ''a'', Port = ''1''\<rparr> (open_rw []) PV11 (NewMetricsReadWriter ()) True = Some p"
    "peer_ok p" "\<not> p_stopped p" by blast
  from Peer_Send_race [OF p(2,3), of None] p(1) show ?thesis by blast
qed

end
