(* ===== verification/Dialers.thy ===== *)
theory Dialers
  imports Endpoints
begin

section \<open>The dialer\<close>

text \<open>
  \<open>dialer.go\<close>: dialing with a minimum interval between two attempts to the same endpoint. Resolving the
  local address and opening the connection are up to the operating system (the arguments \<open>Resolve\<close> and
  \<open>os_dial\<close>). The map of attempts is a function to optional times; each \<open>time.Now()\<close> is a reading.
\<close>

record Dialer =
  d_bindTo :: string
  d_interval :: duration
  d_timeout :: duration
  d_attempts :: "Endpoint \<Rightarrow> time option"

definition Dialer_Bind :: "(string \<Rightarrow> sys_error + unit) \<Rightarrow> string \<Rightarrow> Dialer \<Rightarrow> sys_error + Dialer" where
  "Dialer_Bind Resolve to d = bindR (Resolve (to @ '':0'')) (\<lambda>_. Inr (d\<lparr>d_bindTo := to\<rparr>))"

definition NewDialer :: "(string \<Rightarrow> sys_error + unit) \<Rightarrow> string \<Rightarrow> duration \<Rightarrow> duration \<Rightarrow> sys_error + Dialer" where
  "NewDialer Resolve bindTo interval timeout =
     Dialer_Bind Resolve bindTo
       \<lparr>d_bindTo = [], d_interval = interval, d_timeout = timeout, d_attempts = Map.empty\<rparr>"

definition CanDial :: "time \<Rightarrow> Endpoint \<Rightarrow> Dialer \<Rightarrow> bool" where
  "CanDial now ep d = (case d_attempts d ep of None \<Rightarrow> True | Some a \<Rightarrow> d_interval d \<le> Since now a)"

definition Dialer_Dial :: "(string \<Rightarrow> sys_error + 'c) \<Rightarrow> time \<Rightarrow> time \<Rightarrow> Endpoint \<Rightarrow> Dialer \<Rightarrow> 'c result \<times> Dialer" where
  "Dialer_Dial os_dial now1 now2 ep d =
     (if (case d_attempts d ep of None \<Rightarrow> False | Some t \<Rightarrow> Since now1 t < d_interval d)
      then (Inl (Conn ErrDialTooSoon), d)
      else
        let d = d\<lparr>d_attempts := (d_attempts d)(ep \<mapsto> now2)\<rparr>
        in case os_dial (Endpoint_String ep) of
             Inl e \<Rightarrow> (Inl (Sys e), d)
           | Inr con \<Rightarrow> (Inr con, d))"

subsection \<open>A log of the attempts\<close>

record dial_event =
  de_ep :: Endpoint
  de_check :: time
  de_set :: time

text \<open>The log holds the attempts that reached the operating system, the most recent first.\<close>

definition dial_step :: "(string \<Rightarrow> sys_error + 'c) \<Rightarrow> dial_event \<Rightarrow> Dialer \<times> dial_event list \<Rightarrow>
    Dialer \<times> dial_event list" where
  "dial_step os_dial e s =
     (let (res, d) = Dialer_Dial os_dial (de_check e) (de_set e) (de_ep e) (fst s)
      in (d, if res = Inl (Conn ErrDialTooSoon) then snd s else e # snd s))"

fun dial_clock_ok :: "time \<Rightarrow> dial_event list \<Rightarrow> bool" where
  "dial_clock_ok t [] \<longleftrightarrow> True"
| "dial_clock_ok t (e # es) \<longleftrightarrow> t \<le> de_check e \<and> de_check e \<le> de_set e \<and> dial_clock_ok (de_set e) es"

text \<open>Two attempts to the same endpoint are at least the interval apart.\<close>

definition spaced :: "duration \<Rightarrow> dial_event list \<Rightarrow> bool" where
  "spaced n = sorted_wrt (\<lambda>later earlier. de_ep later = de_ep earlier \<longrightarrow> de_set earlier + n \<le> de_check later)"

text \<open>The map of attempts holds the time of the most recent attempt in the log.\<close>

definition dialer_ok :: "time \<Rightarrow> Dialer \<times> dial_event list \<Rightarrow> bool" where
  "dialer_ok t s \<longleftrightarrow> spaced (d_interval (fst s)) (snd s)
     \<and> sorted_wrt (\<lambda>a b. de_set b \<le> de_set a) (snd s) \<and> (\<forall>e \<in> set (snd s). de_set e \<le> t)
     \<and> d_attempts (fst s) = (\<lambda>ep. map_option de_set (find (\<lambda>e. de_ep e = ep) (snd s)))"

lemma find_first:
  "sorted_wrt (\<lambda>a b. de_set b \<le> de_set a) xs \<Longrightarrow> find (\<lambda>e. de_ep e = ep) xs = Some x \<Longrightarrow>
    y \<in> set xs \<Longrightarrow> de_ep y = ep \<Longrightarrow> de_set y \<le> de_set x"
  by (induction xs) (auto split: if_splits)

lemma Dial_too_soon_iff:
  "fst (Dialer_Dial os_dial now1 now2 ep d) = Inl (Conn ErrDialTooSoon) \<longleftrightarrow>
     (\<exists>t. d_attempts d ep = Some t \<and> Since now1 t < d_interval d)"
  by (auto simp: Dialer_Dial_def Let_def split: option.splits sum.splits)

lemma Dial_dialer:
  "snd (Dialer_Dial os_dial now1 now2 ep d) =
     (if \<exists>t. d_attempts d ep = Some t \<and> Since now1 t < d_interval d then d
      else d\<lparr>d_attempts := (d_attempts d)(ep \<mapsto> now2)\<rparr>)"
  by (auto simp: Dialer_Dial_def Let_def split: option.splits sum.splits)

lemma dial_step_eq:
  "dial_step os_dial e s =
     (if \<exists>t. d_attempts (fst s) (de_ep e) = Some t \<and> Since (de_check e) t < d_interval (fst s) then s
      else ((fst s)\<lparr>d_attempts := (d_attempts (fst s))(de_ep e \<mapsto> de_set e)\<rparr>, e # snd s))"
  using Dial_too_soon_iff [of os_dial "de_check e" "de_set e" "de_ep e" "fst s"]
    Dial_dialer [of os_dial "de_check e" "de_set e" "de_ep e" "fst s"]
  by (auto simp: dial_step_def Let_def split: prod.splits)

lemma dial_step_ok:
  assumes "dialer_ok t s" and "t \<le> de_check e" and "de_check e \<le> de_set e"
    and "d_interval (fst s) \<le> max_duration" and "min_duration < d_interval (fst s)"
  shows "dialer_ok (de_set e) (dial_step os_dial e s)"
proof (cases "\<exists>t. d_attempts (fst s) (de_ep e) = Some t \<and> Since (de_check e) t < d_interval (fst s)")
  case True
  then have "dial_step os_dial e s = s" by (simp only: dial_step_eq if_True)
  moreover have "dialer_ok (de_set e) s" using assms(1-3) by (auto simp: dialer_ok_def)
  ultimately show ?thesis by simp
next
  case False
  let ?n = "d_interval (fst s)"
  have sp: "de_set y + ?n \<le> de_check e" if "y \<in> set (snd s)" "de_ep y = de_ep e" for y
  proof -
    from that obtain x where x: "find (\<lambda>a. de_ep a = de_ep e) (snd s) = Some x"
      by (cases "find (\<lambda>a. de_ep a = de_ep e) (snd s)") (auto simp: find_None_iff)
    with assms(1) have "d_attempts (fst s) (de_ep e) = Some (de_set x)" by (simp add: dialer_ok_def)
    with False have "\<not> Since (de_check e) (de_set x) < ?n" by blast
    then have "?n \<le> Since (de_check e) (de_set x)" by simp
    then have "de_set x + ?n \<le> de_check e" using Since_ge_iff [OF assms(5,4)] by simp
    moreover have "de_set y \<le> de_set x"
      using assms(1) by (intro find_first [OF _ x that]) (simp add: dialer_ok_def)
    ultimately show ?thesis by simp
  qed
  have eq: "dial_step os_dial e s = ((fst s)\<lparr>d_attempts := (d_attempts (fst s))(de_ep e \<mapsto> de_set e)\<rparr>, e # snd s)"
    using False by (simp only: dial_step_eq if_False)
  have "spaced ?n (e # snd s)"
    using assms(1) sp by (simp add: dialer_ok_def spaced_def)
  moreover have le: "\<forall>y \<in> set (snd s). de_set y \<le> de_set e" using assms(1-3) by (auto simp: dialer_ok_def)
  moreover have "sorted_wrt (\<lambda>a b. de_set b \<le> de_set a) (e # snd s)" using assms(1) le by (simp add: dialer_ok_def)
  moreover have "(d_attempts (fst s))(de_ep e \<mapsto> de_set e)
      = (\<lambda>ep. map_option de_set (find (\<lambda>a. de_ep a = ep) (e # snd s)))"
    using assms(1) by (auto simp: dialer_ok_def fun_eq_iff)
  ultimately show ?thesis by (simp add: eq dialer_ok_def)
qed

lemma dial_interval: "d_interval (fst (dial_step os_dial e s)) = d_interval (fst s)"
  by (simp add: dial_step_eq)

lemma dial_run_ok:
  "dialer_ok t s \<Longrightarrow> dial_clock_ok t es \<Longrightarrow> d_interval (fst s) \<le> max_duration \<Longrightarrow>
    min_duration < d_interval (fst s) \<Longrightarrow> \<exists>t'. dialer_ok t' (fold (dial_step os_dial) es s)"
proof (induction es arbitrary: t s)
  case (Cons e es)
  then show ?case using dial_step_ok [of t s e os_dial] by (simp add: dial_interval)
qed auto

subsection \<open>Properties\<close>

text \<open>C12: the dialer keeps its distance: in every sequence of \<open>Dial\<close> calls with a clock that does not run
  backwards, any two attempts to the same endpoint that reach the network are at least the interval
  apart; and an endpoint may be dialed exactly when \<open>CanDial\<close> says so.\<close>

theorem Dialer_spacing:
  assumes "NewDialer Resolve bindTo interval timeout = Inr d" and "dial_clock_ok t es"
    and "min_duration < interval" and "interval \<le> max_duration"
    and "fold (dial_step os_dial) es (d, []) = (d', lg)"
  shows "spaced interval lg
    \<and> (CanDial now ep d' \<longleftrightarrow> fst (Dialer_Dial os_dial now now' ep d') \<noteq> Inl (Conn ErrDialTooSoon))"
proof -
  from assms(1) have d: "d_interval d = interval" "d_attempts d = Map.empty"
    by (auto simp: NewDialer_def Dialer_Bind_def bindR_Inr_iff)
  then have "dialer_ok t (d, [])" by (simp add: dialer_ok_def spaced_def)
  with dial_run_ok [of t "(d, [])" es os_dial] assms d obtain t' where "dialer_ok t' (d', lg)" by auto
  moreover have "d_interval (fst (fold (dial_step os_dial) es s)) = d_interval (fst s)" for s
    by (induction es arbitrary: s) (simp_all add: dial_interval)
  from this [of "(d, [])"] have "d_interval d' = interval" using assms(5) d(1) by simp
  moreover have "CanDial now ep d' \<longleftrightarrow> fst (Dialer_Dial os_dial now now' ep d') \<noteq> Inl (Conn ErrDialTooSoon)"
    unfolding Dial_too_soon_iff by (auto simp: CanDial_def split: option.splits)
  ultimately show ?thesis by (simp add: dialer_ok_def)
qed

theorem Dialer_spacing_witness:
  "\<exists>d d' lg. NewDialer (\<lambda>_. Inr ()) [] 10 5 = Inr d
    \<and> fold (dial_step (\<lambda>_. Inr ())) [\<lparr>de_ep = \<lparr>IP = ''a'', Port = ''1''\<rparr>, de_check = 1, de_set = 2\<rparr>,
         \<lparr>de_ep = \<lparr>IP = ''a'', Port = ''1''\<rparr>, de_check = 3, de_set = 4\<rparr>] (d, []) = (d', lg)
    \<and> spaced 10 lg"
proof -
  let ?es = "[\<lparr>de_ep = \<lparr>IP = ''a'', Port = ''1''\<rparr>, de_check = 1, de_set = 2\<rparr>,
         \<lparr>de_ep = \<lparr>IP = ''a'', Port = ''1''\<rparr>, de_check = 3, de_set = 4\<rparr>]"
  obtain d where d: "NewDialer (\<lambda>_. Inr ()) [] 10 5 = Inr d" by (simp add: NewDialer_def Dialer_Bind_def)
  obtain d' lg where r: "fold (dial_step (\<lambda>_. Inr ())) ?es (d, []) = (d', lg)" by (rule prod.exhaust)
  have "dial_clock_ok 0 ?es" "min_duration < 10" "10 \<le> max_duration"
    by (simp_all add: min_duration_def max_duration_def)
  from Dialer_spacing [OF d this r] d r show ?thesis by blast
qed

end
