(* ===== verification/Seeds.thy ===== *)
theory Seeds
  imports Endpoints
begin

section \<open>The seed\<close>

text \<open>
  \<open>seed.go\<close> and \<open>WebScanner\<close> of \<open>util.go\<close>: the list of endpoints published at a URL, cached for a
  while. The web server's answer is an argument: an error, or a status code and the lines of the body.
  A nil cache is \<open>None\<close>; each \<open>time.Now()\<close> is a clock reading.
\<close>

type_synonym web = "string \<Rightarrow> sys_error + (nat \<times> string list)"

definition StatusOK :: nat where "StatusOK = 200"

text \<open>The error, if any, and the state of the closure after it has been applied to the lines.\<close>

definition WebScanner :: "web \<Rightarrow> string \<Rightarrow> (string \<Rightarrow> 's \<Rightarrow> 's) \<Rightarrow> 's \<Rightarrow> sys_error option \<times> 's" where
  "WebScanner http_get url f s =
     (case http_get url of
        Inl e \<Rightarrow> (Some e, s)
      | Inr (status, ls) \<Rightarrow> if status \<noteq> StatusOK then (Some ErrHttpStatus, s) else (None, fold f ls s))"

record seed =
  sd_url :: string
  sd_cache :: "Endpoint list option"
  sd_cacheTTL :: duration
  sd_cacheTime :: time

definition newSeed :: "string \<Rightarrow> duration \<Rightarrow> seed" where
  "newSeed url cacheTTL = \<lparr>sd_url = url, sd_cache = None, sd_cacheTTL = cacheTTL, sd_cacheTime = 0\<rparr>"

text \<open>The closure: lines that are empty, badly formatted or no valid endpoint are skipped.\<close>

definition seed_line :: "string \<Rightarrow> Endpoint list \<Rightarrow> Endpoint list" where
  "seed_line line eps =
     (let line = TrimSpace line in
      if line = [] then eps
      else case SplitHostPort line of
        None \<Rightarrow> eps
      | Some (host, port) \<Rightarrow>
          (case NewEndpoint host port of Inl _ \<Rightarrow> eps | Inr ep \<Rightarrow> eps @ [ep]))"

definition seed_retrieve :: "web \<Rightarrow> time \<Rightarrow> time \<Rightarrow> seed \<Rightarrow> Endpoint list \<times> seed" where
  "seed_retrieve http_get now1 now2 s =
     (case sd_cache s of
        Some eps \<Rightarrow>
          if Since now1 (sd_cacheTime s) \<le> sd_cacheTTL s then (eps, s)
          else (let eps = snd (WebScanner http_get (sd_url s) seed_line [])
                in (eps, s\<lparr>sd_cacheTime := now2, sd_cache := Some eps\<rparr>))
      | None \<Rightarrow>
          (let eps = snd (WebScanner http_get (sd_url s) seed_line [])
           in (eps, s\<lparr>sd_cacheTime := now2, sd_cache := Some eps\<rparr>)))"

definition seed_size :: "web \<Rightarrow> time \<Rightarrow> time \<Rightarrow> seed \<Rightarrow> nat \<times> seed" where
  "seed_size http_get now1 now2 s =
     (let (_, s) = seed_retrieve http_get now1 now2 s
      in (case sd_cache s of None \<Rightarrow> 0 | Some eps \<Rightarrow> length eps, s))"

subsection \<open>Properties\<close>

definition seed_ok :: "seed \<Rightarrow> bool" where
  "seed_ok s \<longleftrightarrow> (\<forall>eps. sd_cache s = Some eps \<longrightarrow> list_all Endpoint_Valid eps)"

lemma NewEndpoint_Inr: "NewEndpoint host port = Inr ep \<Longrightarrow> Endpoint_Valid ep"
  by (auto simp: NewEndpoint_def Let_def split: if_splits)

lemma seed_line_valid: "list_all Endpoint_Valid eps \<Longrightarrow> list_all Endpoint_Valid (seed_line line eps)"
  by (auto simp: seed_line_def Let_def dest: NewEndpoint_Inr split: option.splits sum.splits)

lemma WebScanner_valid: "list_all Endpoint_Valid (snd (WebScanner http_get url seed_line []))"
proof -
  have "list_all Endpoint_Valid (fold seed_line ls eps)" if "list_all Endpoint_Valid eps" for ls eps
    using that by (induction ls arbitrary: eps) (simp_all add: seed_line_valid)
  then show ?thesis by (auto simp: WebScanner_def split: sum.splits)
qed

text \<open>The seed is a cache of valid endpoints: whatever the web server answers, only valid endpoints are
  returned and stored, \<open>size\<close> is the number of endpoints that \<open>retrieve\<close> returns, and as long as the
  cache is not older than its lifetime the server is not asked, so the answer does not depend on it.\<close>

theorem seed_retrieve_correct:
  assumes "seed_ok s" and "seed_retrieve http_get now1 now2 s = (eps, s')"
  shows "list_all Endpoint_Valid eps \<and> seed_ok s' \<and> sd_cache s' = Some eps
    \<and> fst (seed_size http_get now1 now2 s) = length eps
    \<and> (Since now3 (sd_cacheTime s') \<le> sd_cacheTTL s' \<longrightarrow> seed_retrieve http_get' now3 now4 s' = (eps, s'))"
  using assms WebScanner_valid [of http_get "sd_url s"]
  by (auto simp: seed_retrieve_def seed_size_def seed_ok_def Let_def split: option.splits if_splits)

theorem seed_retrieve_correct_witness:
  "\<exists>eps s'. seed_retrieve (\<lambda>_. Inr (200, [''a:80'', ''junk''])) 1 2 (newSeed ''u'' 10) = (eps, s')
     \<and> list_all Endpoint_Valid eps \<and> seed_retrieve (\<lambda>_. Inl ErrHttp) 3 4 s' = (eps, s')"
proof -
  obtain eps s' where r: "seed_retrieve (\<lambda>_. Inr (200, [''a:80'', ''junk''])) 1 2 (newSeed ''u'' 10) = (eps, s')"
    by (rule prod.exhaust)
  then have s': "sd_cacheTTL s' = 10" "sd_cacheTime s' = 2"
    by (auto simp: seed_retrieve_def newSeed_def Let_def)
  have "seed_ok (newSeed ''u'' 10)" by (simp add: seed_ok_def newSeed_def)
  from seed_retrieve_correct [OF this r, of 3 "\<lambda>_. Inl ErrHttp" 4] s' r show ?thesis
    by (auto simp: Since_def max_duration_def min_duration_def)
qed

end
