(* ===== verification/Prom.thy ===== *)
theory Prom
  imports P2P_Prelude
begin

section \<open>The Prometheus instruments\<close>

text \<open>
  \<open>prometheus.go\<close>: the instruments of a node. An instrument is known by its name; a field that has not been set
  is nil, and calling a method of it is a panic. The registry is that of the process, and so is the variable
  \<open>once\<close>: all nodes of a process share them. What the instruments record is left out of the model of the node; which
  of them each turn of the node uses is not (\<open>prom_uses\<close> in theory \<open>Networks\<close>).
\<close>

datatype prom_field =
    P_Connections | P_Connecting | P_Incoming | P_Outgoing | P_ToNetwork | P_ToNetworkRatio | P_FromNetwork
  | P_FromNetworkRatio | P_CatRounds | P_SendRoutines | P_ReceiveRoutines | P_ParcelsSent | P_ParcelsReceived
  | P_Invalid | P_AppSent | P_AppReceived | P_ByteRateDown | P_ByteRateUp | P_MessageRateDown | P_MessageRateUp
  | P_DroppedPeerSend | P_DroppedFromNetwork | P_DroppedToNetwork | P_ParcelSize

type_synonym Prometheus = "prom_field \<Rightarrow> string option"

record 'r Process =
  pr_once :: bool
  pr_registry :: 'r

text \<open>The instruments in the order in which they are set, with their names.\<close>

definition instruments :: "(prom_field \<times> string) list" where
  "instruments =
     [(P_Connections, ''factomd_p2p_peers_online''), (P_Connecting, ''factomd_p2p_peers_connecting''),
      (P_Incoming, ''factomd_p2p_peers_incoming''), (P_Outgoing, ''factomd_p2p_peers_outgoing''),
      (P_ToNetwork, ''factomd_p2p_to_network''), (P_ToNetworkRatio, ''factomd_p2p_to_network_ratio''),
      (P_FromNetwork, ''factomd_p2p_from_network''), (P_FromNetworkRatio, ''factomd_p2p_from_network_ratio''),
      (P_CatRounds, ''factomd_p2p_cat_rounds''), (P_SendRoutines, ''factomd_p2p_tech_sendroutines''),
      (P_ReceiveRoutines, ''factomd_p2p_tech_receiveroutines''), (P_ParcelsSent, ''factomd_p2p_parcels_sent''),
      (P_ParcelsReceived, ''factomd_p2p_parcels_received''), (P_Invalid, ''factomd_p2p_parcels_invalid''),
      (P_AppSent, ''factomd_p2p_messages_sent''), (P_AppReceived, ''factomd_p2p_messages_received''),
      (P_ByteRateDown, ''factomd_p2p_byte_rate_down''), (P_ByteRateUp, ''factomd_p2p_byte_rate_up''),
      (P_MessageRateDown, ''factomd_p2p_msg_rate_down''), (P_MessageRateUp, ''factomd_p2p_msg_rate_up''),
      (P_DroppedPeerSend, ''factomd_p2p_dropped_peer_send''), (P_DroppedFromNetwork, ''factomd_p2p_dropped_from_network''),
      (P_DroppedToNetwork, ''factomd_p2p_dropped_to_network''), (P_ParcelSize, ''factomd_p2p_parcels_size'')]"

text \<open>\<open>register\<close> is the method \<open>MustRegister\<close> of the registry; it panics (\<open>None\<close>) if it cannot take the name.\<close>

primrec setup_from :: "(string \<Rightarrow> 'r \<Rightarrow> 'r option) \<Rightarrow> (prom_field \<times> string) list \<Rightarrow> Prometheus \<Rightarrow> 'r \<Rightarrow>
    (Prometheus \<times> 'r) option" where
  "setup_from register [] p reg = Some (p, reg)"
| "setup_from register (i # is) p reg =
     (case register (snd i) reg of
        None \<Rightarrow> None
      | Some reg \<Rightarrow> setup_from register is (p(fst i \<mapsto> snd i)) reg)"

definition Prometheus_setup :: "(string \<Rightarrow> 'r \<Rightarrow> 'r option) \<Rightarrow> Prometheus \<Rightarrow> 'r \<Rightarrow> (Prometheus \<times> 'r) option" where
  "Prometheus_setup register p reg = setup_from register instruments p reg"

text \<open>\<open>once.Do\<close>: the first call only.\<close>

definition Prometheus_Setup :: "(string \<Rightarrow> 'r \<Rightarrow> 'r option) \<Rightarrow> Prometheus \<Rightarrow> 'r Process \<Rightarrow> (Prometheus \<times> 'r Process) option" where
  "Prometheus_Setup register p proc =
     (if pr_once proc then Some (p, proc)
      else map_option (\<lambda>(p, reg). (p, \<lparr>pr_once = True, pr_registry = reg\<rparr>)) (Prometheus_setup register p (pr_registry proc)))"

text \<open>What \<open>NewNetwork\<close> does if Prometheus is enabled, and a call of a method of an instrument.\<close>

definition new_prom :: "(string \<Rightarrow> 'r \<Rightarrow> 'r option) \<Rightarrow> 'r Process \<Rightarrow> (Prometheus \<times> 'r Process) option" where
  "new_prom register proc = Prometheus_Setup register (\<lambda>_. None) proc"

definition use_instrument :: "prom_field \<Rightarrow> Prometheus \<Rightarrow> unit option" where
  "use_instrument f p = map_option (\<lambda>_. ()) (p f)"

text \<open>The field \<open>prom\<close> of a network: nil (\<open>None\<close>) if Prometheus is off. All instruments that the network may use are set.\<close>

definition prom_set :: "Prometheus option \<Rightarrow> bool" where
  "prom_set prom \<longleftrightarrow> (\<forall>p f. prom = Some p \<longrightarrow> p f \<noteq> None)"

text \<open>Using one instrument after the other; \<open>None\<close> is a panic. With Prometheus off nothing is used.\<close>

definition use_instruments :: "prom_field list \<Rightarrow> Prometheus option \<Rightarrow> unit option" where
  "use_instruments fs prom =
     (case prom of
        None \<Rightarrow> Some ()
      | Some p \<Rightarrow> fold (\<lambda>f u. Option.bind u (\<lambda>_. use_instrument f p)) fs (Some ()))"

subsection \<open>Facts\<close>

lemma use_instruments_set: "prom_set prom \<Longrightarrow> use_instruments fs prom = Some ()"
proof (cases prom)
  case (Some p)
  assume "prom_set prom"
  with Some have "p f \<noteq> None" for f by (simp add: prom_set_def)
  then have "use_instrument f p = Some ()" for f by (simp add: use_instrument_def)
  then have "fold (\<lambda>f u. Option.bind u (\<lambda>_. use_instrument f p)) fs (Some ()) = Some ()" by (induction fs) simp_all
  with Some show ?thesis by (simp add: use_instruments_def)
qed (simp add: use_instruments_def)

lemma use_instruments_nil:
  assumes "f \<in> set fs" and "p f = None"
  shows "use_instruments fs (Some p) = None"
proof -
  have none: "fold (\<lambda>f u. Option.bind u (\<lambda>_. use_instrument f p)) gs None = None" for gs by (induction gs) simp_all
  from assms have "fold (\<lambda>f u. Option.bind u (\<lambda>_. use_instrument f p)) fs (Some ()) = None"
  proof (induction fs)
    case (Cons g fs)
    show ?case
    proof (cases "p g")
      case None
      then show ?thesis using none by (simp add: use_instrument_def)
    next
      case (Some n)
      with Cons have "f \<in> set fs" by auto
      with Some Cons show ?thesis by (simp add: use_instrument_def)
    qed
  qed simp
  then show ?thesis by (simp add: use_instruments_def)
qed

text \<open>What the registry promises: a name that it does not know is taken. \<open>known\<close> are the names in a registry.\<close>

definition takes_new_names :: "(string \<Rightarrow> 'r \<Rightarrow> 'r option) \<Rightarrow> ('r \<Rightarrow> string set) \<Rightarrow> bool" where
  "takes_new_names register known \<longleftrightarrow>
     (\<forall>name reg. name \<notin> known reg \<longrightarrow> (\<exists>reg'. register name reg = Some reg' \<and> known reg' = insert name (known reg)))"

lemma setup_from_result:
  assumes "takes_new_names register known" and "distinct (map snd is)" and "set (map snd is) \<inter> known reg = {}"
  shows "\<exists>reg'. setup_from register is p reg = Some (fold (\<lambda>i p. p(fst i \<mapsto> snd i)) is p, reg')"
  using assms(2,3)
proof (induction "is" arbitrary: p reg)
  case (Cons i "is")
  from Cons.prems(2) have "snd i \<notin> known reg" by auto
  with assms(1) obtain reg1 where
    r: "register (snd i) reg = Some reg1" "known reg1 = insert (snd i) (known reg)"
    unfolding takes_new_names_def by blast
  have "set (map snd is) \<inter> known reg1 = {}" using Cons.prems r(2) by auto
  from Cons.IH [OF _ this] Cons.prems(1) r(1) show ?case by (simp del: fun_upd_apply)
qed simp

lemma fold_sets: "f \<in> fst ` set is \<or> p f \<noteq> None \<Longrightarrow> fold (\<lambda>i p. p(fst i \<mapsto> snd i)) is p f \<noteq> None"
  by (induction "is" arbitrary: p) auto

lemma instruments_distinct: "distinct (map snd instruments)"
  by code_simp

lemma instruments_all: "f \<in> fst ` set instruments"
  by (cases f) (simp_all add: instruments_def)

text \<open>The first node of a process has all its instruments.\<close>

theorem first_network_has_instruments:
  assumes "takes_new_names register known" and "\<not> pr_once proc" and "set (map snd instruments) \<inter> known (pr_registry proc) = {}"
  shows "\<exists>p proc'. new_prom register proc = Some (p, proc') \<and> pr_once proc' \<and> (\<forall>f. use_instrument f p = Some ())"
proof -
  from setup_from_result [OF assms(1) instruments_distinct assms(3), of "\<lambda>_. None"] obtain reg where
    r: "setup_from register instruments (\<lambda>_. None) (pr_registry proc)
      = Some (fold (\<lambda>i p. p(fst i \<mapsto> snd i)) instruments (\<lambda>_. None), reg)" by blast
  have "fold (\<lambda>i p. p(fst i \<mapsto> snd i)) instruments (\<lambda>_. None) f \<noteq> None" for f
    by (rule fold_sets) (simp add: instruments_all)
  with r assms(2) show ?thesis
    by (auto simp: new_prom_def Prometheus_Setup_def Prometheus_setup_def use_instrument_def)
qed

text \<open>Every further node of the process that enables Prometheus has none of them; it panics in its first turn of \<open>run\<close>
  (\<open>second_network_panics\<close> in theory \<open>Networks\<close>).\<close>

lemma second_network_has_none:
  assumes "pr_once proc"
  shows "\<exists>p. new_prom register proc = Some (p, proc) \<and> (\<forall>f. use_instrument f p = None)"
  using assms by (simp add: new_prom_def Prometheus_Setup_def use_instrument_def)

end
