(* ===== verification/Controller.thy ===== *)
theory Controller
  imports Peers Dialers Seeds Prom
begin

section \<open>The controller: state, bans and special peers\<close>

text \<open>
  \<open>controller.go\<close>. One record holds the state of the node: the fields of \<open>Network\<close> (\<open>n_\<close>) and of
  \<open>controller\<close> (\<open>c_\<close>), and the heap of the peers that were ever created. A goroutine's work on one
  message, or one round of a periodic task, is a function on this record; \<open>None\<close> is a panic.

  A channel that is sent to and received from by blocking operations only (\<open>peerStatus\<close>, \<open>peerData\<close>)
  is the list of the messages whose sending has completed and that have not been received; what may go
  wrong when such a channel is full is the subject of theory \<open>Blocking\<close>. The mutexes make the
  operations they protect atomic, as they are here. The fields \<open>lastPeerDial\<close>, \<open>online\<close>, \<open>connecting\<close>
  and \<open>replenishing\<close>, which no code reads or writes, and the logger are left out. Of the Prometheus instruments the
  state says which are set (\<open>n_prom\<close>); which of them a turn uses is said in theory \<open>Networks\<close>.

  The map of bans may be nil (\<open>None\<close>): \<open>newController\<close> takes it from the cache file. Reading a nil map is reading an
  empty one; assigning to it is a panic.
\<close>

text \<open>A goroutine that was started (\<open>go ...\<close>) and has not run yet; it may run at any later time.\<close>

datatype task =
    T_Pong peer_ref
  | T_SharePeers peer_ref "Endpoint list"
  | T_Ban string duration
  | T_Disconnect string
  | T_SetSpecial string
  | T_Incoming gob_conn Endpoint

record NetState =
  n_conf :: Configuration
  n_rng :: rng
  n_instanceID :: "64 word"
  n_stopped :: bool
  n_prom :: "Prometheus option"
  n_toNetwork :: "Parcel option channel"
  n_fromNetwork :: "Parcel option channel"
  n_heap :: "peer_ref \<Rightarrow> Peer"
  n_next :: peer_ref
  n_tasks :: "task list"
  c_peerStatus :: "(peer_ref \<times> bool) list"
  c_peerData :: "(peer_ref option \<times> Parcel) list"
  c_peers :: PeerStore
  c_dialer :: Dialer
  c_bans :: "(string \<Rightarrow> time option) option"
  c_special :: "string set"
  c_specialEndpoints :: "Endpoint list"
  c_bootstrap :: "Endpoint list"
  c_shareListener :: "string \<Rightarrow> Parcel channel option"
  c_lastPersist :: time
  c_lastRound :: time
  c_seed :: seed
  c_rounds :: nat

text \<open>A loop \<open>for _, x := range xs\<close> whose body may panic.\<close>

primrec for_each :: "('a \<Rightarrow> 's \<Rightarrow> 's option) \<Rightarrow> 'a list \<Rightarrow> 's \<Rightarrow> 's option" where
  "for_each f [] s = Some s"
| "for_each f (x # xs) s = Option.bind (f x s) (for_each f xs)"

lemma for_each_inv:
  assumes "\<And>x s. x \<in> set xs \<Longrightarrow> P s \<Longrightarrow> \<exists>s'. f x s = Some s' \<and> P s'" and "P s"
  shows "\<exists>s'. for_each f xs s = Some s' \<and> P s'"
  using assms
proof (induction xs arbitrary: s)
  case (Cons x xs)
  from Cons.prems(1) [of x s] Cons.prems(2) obtain s1 where "f x s = Some s1" "P s1" by auto
  with Cons.IH [of s1] Cons.prems(1) show ?case by simp
qed simp

subsection \<open>Peers in the heap\<close>

text \<open>\<open>Peer.Stop\<close>: the first call stops the peer and tells \<open>manageOnline\<close>. Once the network is stopped it may give up
  telling; that it still does so is an event of its own (\<open>E_LateOffline\<close> in theory \<open>Networks\<close>).\<close>

definition Peer_Stop :: "peer_ref \<Rightarrow> NetState \<Rightarrow> NetState option" where
  "Peer_Stop r s =
     (if p_stopped (n_heap s r) then Some s
      else case Peer_Stop_local (n_heap s r) of
             None \<Rightarrow> None
           | Some p \<Rightarrow>
               (let s = s\<lparr>n_heap := (n_heap s)(r := p)\<rparr>
                in Some (if n_stopped s then s else s\<lparr>c_peerStatus := c_peerStatus s @ [(r, False)]\<rparr>)))"

definition send_to :: "Parcel option \<Rightarrow> peer_ref \<Rightarrow> NetState \<Rightarrow> NetState option" where
  "send_to parcel r s = map_option (\<lambda>p. s\<lparr>n_heap := (n_heap s)(r := p)\<rparr>) (Peer_Send parcel (n_heap s r))"

definition slice_peers :: "NetState \<Rightarrow> peer_ref list \<times> NetState" where
  "slice_peers s =
     (let (rs, ps, rnd) = PeerStore_Slice (n_rng s) (c_peers s) in (rs, s\<lparr>c_peers := ps, n_rng := rnd\<rparr>))"

abbreviation ep_of :: "NetState \<Rightarrow> peer_ref \<Rightarrow> Endpoint" where
  "ep_of s r \<equiv> pk_Endpoint (n_heap s r)"

subsection \<open>Bans\<close>

text \<open>What a lookup sees of a map that may be nil.\<close>

primrec read_map :: "('k \<Rightarrow> 'v option) option \<Rightarrow> 'k \<Rightarrow> 'v option" where
  "read_map None = Map.empty"
| "read_map (Some m) = m"

abbreviation bans_of :: "NetState \<Rightarrow> string \<Rightarrow> time option" where
  "bans_of s \<equiv> read_map (c_bans s)"

text \<open>\<open>c.bans[addr] = end\<close>\<close>

definition set_ban :: "string \<Rightarrow> time \<Rightarrow> NetState \<Rightarrow> NetState option" where
  "set_ban addr end s = map_option (\<lambda>m. s\<lparr>c_bans := Some (m(addr \<mapsto> end))\<rparr>) (c_bans s)"

definition ban_end :: "NetState \<Rightarrow> string \<Rightarrow> time" where
  "ban_end s addr = (case bans_of s addr of None \<Rightarrow> 0 | Some t \<Rightarrow> t)"

text \<open>The loop over the peers stops the variable \<open>peer\<close>, the peer that was looked up, each time.\<close>

definition ban :: "string \<Rightarrow> time \<Rightarrow> duration \<Rightarrow> NetState \<Rightarrow> NetState option" where
  "ban hsh now duration s =
     (case PeerStore_Get (c_peers s) hsh of
        None \<Rightarrow> Some s
      | Some peer \<Rightarrow>
          (let ep = ep_of s peer;
               end = now + duration;
               end = (case bans_of s (IP ep) of Some existing \<Rightarrow> if end < existing then existing else end | None \<Rightarrow> end)
           in Option.bind (set_ban (IP ep) end s) (\<lambda>s.
              Option.bind (set_ban (Endpoint_String ep) end s) (\<lambda>s.
                let (rs, s) = slice_peers s
                in for_each (\<lambda>p s. if IP (ep_of s p) = IP ep then Peer_Stop peer s else Some s) rs s))))"

definition banEndpoint :: "Endpoint \<Rightarrow> time \<Rightarrow> duration \<Rightarrow> NetState \<Rightarrow> NetState option" where
  "banEndpoint ep now duration s =
     Option.bind (set_ban (Endpoint_String ep) (now + duration) s) (\<lambda>s.
       if duration > 0
       then let (rs, s) = slice_peers s
            in for_each (\<lambda>p s. if ep_of s p = ep then Peer_Stop p s else Some s) rs s
       else Some s)"

definition isBannedEndpoint :: "time \<Rightarrow> time \<Rightarrow> Endpoint \<Rightarrow> NetState \<Rightarrow> bool" where
  "isBannedEndpoint now1 now2 ep s \<longleftrightarrow> now1 < ban_end s (IP ep) \<or> now2 < ban_end s (Endpoint_String ep)"

definition isBannedIP :: "time \<Rightarrow> string \<Rightarrow> NetState \<Rightarrow> bool" where
  "isBannedIP now ip s \<longleftrightarrow> now < ban_end s ip"

subsection \<open>Special peers\<close>

definition isSpecial :: "Endpoint \<Rightarrow> NetState \<Rightarrow> bool" where
  "isSpecial ep s \<longleftrightarrow> Endpoint_String ep \<in> c_special s"

definition isSpecialIP :: "string \<Rightarrow> NetState \<Rightarrow> bool" where
  "isSpecialIP ip s \<longleftrightarrow> ip \<in> c_special s"

definition disconnect :: "string \<Rightarrow> NetState \<Rightarrow> NetState option" where
  "disconnect hsh s = (case PeerStore_Get (c_peers s) hsh of None \<Rightarrow> Some s | Some peer \<Rightarrow> Peer_Stop peer s)"

definition setSpecial :: "string \<Rightarrow> NetState \<Rightarrow> NetState" where
  "setSpecial raw s =
     (if length raw = 0 then s\<lparr>c_specialEndpoints := [], c_special := {}\<rparr>
      else case parseSpecial raw of
        Inl _ \<Rightarrow> s
      | Inr eps \<Rightarrow>
          s\<lparr>c_specialEndpoints := eps,
            c_special := fold (\<lambda>ep m. insert (IP ep) (insert (Endpoint_String ep) m)) eps {}\<rparr>)"

subsection \<open>The invariant of the node\<close>

text \<open>What the node needs of its configuration; \<open>Check\<close> does not establish the second part.\<close>

definition conf_ok :: "Configuration \<Rightarrow> bool" where
  "conf_ok conf \<longleftrightarrow> cf_ChannelCapacity conf \<noteq> 0 \<and> resend_ok conf"

text \<open>Every peer that was created is in order and has a resend filter if the configuration asks for one, the
  peers in the store and in the messages exist, the store's books are right, the channels of the application
  are open, the application has not sent a nil parcel, the map of bans is not nil, and if Prometheus is on all
  its instruments are set.\<close>

fun task_refs :: "task \<Rightarrow> peer_ref set" where
  "task_refs (T_Pong r) = {r}"
| "task_refs (T_SharePeers r _) = {r}"
| "task_refs _ = {}"

definition net_inv :: "NetState \<Rightarrow> bool" where
  "net_inv s \<longleftrightarrow>
     (\<forall>r < n_next s. peer_ok (n_heap s r))
     \<and> store_inv (n_heap s) (c_peers s)
     \<and> (\<forall>r \<in> set (peers_of (c_peers s)). r < n_next s)
     \<and> (\<forall>(r, b) \<in> set (c_peerStatus s). r < n_next s)
     \<and> (\<forall>r parcel. (Some r, parcel) \<in> set (c_peerData s) \<longrightarrow> r < n_next s)
     \<and> (\<forall>t \<in> set (n_tasks s). \<forall>r \<in> task_refs t. r < n_next s)
     \<and> channel_open (n_toNetwork s) \<and> None \<notin> set (ch_buf (n_toNetwork s)) \<and> channel_open (n_fromNetwork s)
     \<and> seed_ok (c_seed s)
     \<and> conf_ok (n_conf s)
     \<and> c_bans s \<noteq> None \<and> prom_set (n_prom s)
     \<and> (cf_PeerResendFilter (n_conf s) \<longrightarrow> (\<forall>r < n_next s. p_resend (n_heap s r) \<noteq> None))"

lemma net_invD:
  assumes "net_inv s"
  shows "store_inv (n_heap s) (c_peers s)" "\<And>r. r < n_next s \<Longrightarrow> peer_ok (n_heap s r)"
    "\<And>r. r \<in> set (peers_of (c_peers s)) \<Longrightarrow> r < n_next s"
  using assms by (auto simp: net_inv_def)

lemma net_inv_heap:
  assumes "net_inv s" and "r < n_next s" and "peer_ok p"
    and "PeerConsts.truncate p = PeerConsts.truncate (n_heap s r)"
    and "p_resend p = None \<longleftrightarrow> p_resend (n_heap s r) = None"
  shows "net_inv (s\<lparr>n_heap := (n_heap s)(r := p)\<rparr>)"
proof -
  have "store_inv ((n_heap s)(r := p)) (c_peers s) = store_inv (n_heap s) (c_peers s)"
    by (rule store_inv_cong) (simp add: assms(4))
  with assms show ?thesis by (auto simp: net_inv_def)
qed

lemma truncate_update_heap:
  assumes "PeerConsts.truncate p = PeerConsts.truncate (h r)"
  shows "pk_Endpoint ((h(r := p)) q) = pk_Endpoint (h q)" "pk_Hash ((h(r := p)) q) = pk_Hash (h q)"
    "pk_IsIncoming ((h(r := p)) q) = pk_IsIncoming (h q)"
  using assms by (auto simp: PeerConsts.truncate_def)

text \<open>What stopping a peer changes: the peer, and one message.\<close>

lemma Peer_Stop_inv:
  assumes "net_inv s" and "r < n_next s"
  shows "\<exists>s' p. Peer_Stop r s = Some s' \<and> net_inv s' \<and> p_stopped p
    \<and> PeerConsts.truncate p = PeerConsts.truncate (n_heap s r)
    \<and> s' = s\<lparr>n_heap := (n_heap s)(r := p), c_peerStatus := c_peerStatus s'\<rparr>
    \<and> (c_peerStatus s' = c_peerStatus s \<or> c_peerStatus s' = c_peerStatus s @ [(r, False)])"
proof (cases "p_stopped (n_heap s r)")
  case True
  with assms show ?thesis by (intro exI [of _ s] exI [of _ "n_heap s r"]) (simp add: Peer_Stop_def)
next
  case False
  from Peer_Stop_ok [OF net_invD(2) [OF assms]] obtain p where
    p: "Peer_Stop_local (n_heap s r) = Some p" "peer_ok p" "p_stopped p"
      "PeerConsts.truncate p = PeerConsts.truncate (n_heap s r)" by blast
  from p(1) have "p_resend p = None \<longleftrightarrow> p_resend (n_heap s r) = None"
    by (auto simp: Peer_Stop_local_def split: if_splits option.splits)
  then have i: "net_inv (s\<lparr>n_heap := (n_heap s)(r := p)\<rparr>)" by (rule net_inv_heap [OF assms p(2,4)])
  then have "net_inv (s\<lparr>n_heap := (n_heap s)(r := p), c_peerStatus := c_peerStatus s @ [(r, False)]\<rparr>)"
    using assms(2) by (auto simp: net_inv_def)
  with i p False show ?thesis
    by (intro exI [of _ "if n_stopped s then s\<lparr>n_heap := (n_heap s)(r := p)\<rparr>
      else s\<lparr>n_heap := (n_heap s)(r := p), c_peerStatus := c_peerStatus s @ [(r, False)]\<rparr>"] exI [of _ p])
      (simp add: Peer_Stop_def)
qed

lemma send_to_inv:
  assumes "net_inv s" and "r < n_next s"
  shows "\<exists>s' p. send_to parcel r s = Some s' \<and> net_inv s' \<and> s' = s\<lparr>n_heap := (n_heap s)(r := p)\<rparr>
    \<and> Peer_Send parcel (n_heap s r) = Some p \<and> PeerConsts.truncate p = PeerConsts.truncate (n_heap s r)"
proof -
  from Peer_Send_ok [OF net_invD(2) [OF assms], of parcel] obtain p where
    p: "Peer_Send parcel (n_heap s r) = Some p" "peer_ok p" by blast
  then have "PeerConsts.truncate p = PeerConsts.truncate (n_heap s r)" "p_resend p = p_resend (n_heap s r)"
    by (auto simp: Peer_Send_def PeerConsts.truncate_def split: if_splits option.splits)
  with net_inv_heap [OF assms p(2)] p(1) show ?thesis by (simp add: send_to_def)
qed

lemma slice_peers_inv:
  assumes "net_inv s" and "slice_peers s = (rs, s')"
  shows "net_inv s'" "mset rs = mset (peers_of (c_peers s))" "set rs = set (peers_of (c_peers s))"
    "\<And>r. r \<in> set rs \<Longrightarrow> r < n_next s" "\<exists>ps rnd. s' = s\<lparr>c_peers := ps, n_rng := rnd\<rparr> \<and> ps_peers ps = ps_peers (c_peers s)"
proof -
  obtain ps rnd where sl: "PeerStore_Slice (n_rng s) (c_peers s) = (rs, ps, rnd)" and
    s': "s' = s\<lparr>c_peers := ps, n_rng := rnd\<rparr>"
    using assms(2) by (auto simp: slice_peers_def split: prod.splits)
  note sl = Slice_inv [OF net_invD(1) [OF assms(1)] sl]
  from sl s' assms(1) show "net_inv s'" by (auto simp: net_inv_def peers_of_def)
  show m: "mset rs = mset (peers_of (c_peers s))" by (rule sl(2))
  show st: "set rs = set (peers_of (c_peers s))" using mset_eq_setD [OF m] .
  show "\<And>r. r \<in> set rs \<Longrightarrow> r < n_next s" using st net_invD(3) [OF assms(1)] by blast
  show "\<exists>ps rnd. s' = s\<lparr>c_peers := ps, n_rng := rnd\<rparr> \<and> ps_peers ps = ps_peers (c_peers s)" using s' sl(3) by blast
qed

subsection \<open>Stopping several peers\<close>

text \<open>The two states differ only in that some of the peers \<open>R\<close> have been stopped, and in the messages about it.\<close>

definition only_stopped :: "peer_ref set \<Rightarrow> NetState \<Rightarrow> NetState \<Rightarrow> bool" where
  "only_stopped R s s' \<longleftrightarrow>
     (\<exists>h msgs. s' = s\<lparr>n_heap := h, c_peerStatus := msgs\<rparr>)
     \<and> (\<forall>r. r \<notin> R \<longrightarrow> n_heap s' r = n_heap s r)
     \<and> (\<forall>r. PeerConsts.truncate (n_heap s' r) = PeerConsts.truncate (n_heap s r))
     \<and> (\<forall>r. p_stopped (n_heap s r) \<longrightarrow> p_stopped (n_heap s' r))"

lemma only_stopped_refl: "only_stopped R s s"
proof -
  have "s = s\<lparr>n_heap := n_heap s, c_peerStatus := c_peerStatus s\<rparr>" by simp
  then show ?thesis unfolding only_stopped_def by blast
qed

lemma only_stopped_trans:
  assumes "only_stopped R s t" and "only_stopped Q t u"
  shows "only_stopped (R \<union> Q) s u"
proof -
  from assms obtain h msgs h' msgs' where "t = s\<lparr>n_heap := h, c_peerStatus := msgs\<rparr>"
    "u = t\<lparr>n_heap := h', c_peerStatus := msgs'\<rparr>" unfolding only_stopped_def by blast
  then have "u = s\<lparr>n_heap := h', c_peerStatus := msgs'\<rparr>" by simp
  with assms show ?thesis unfolding only_stopped_def by auto
qed

lemma only_stopped_frame [frame_simps]:
  assumes "only_stopped R s s'"
  shows "n_next s' = n_next s" "bans_of s' = bans_of s" "c_peers s' = c_peers s" "n_conf s' = n_conf s"
    "c_special s' = c_special s" "c_specialEndpoints s' = c_specialEndpoints s" "ep_of s' r = ep_of s r"
    "n_rng s' = n_rng s" "c_dialer s' = c_dialer s" "c_seed s' = c_seed s" "n_stopped s' = n_stopped s"
    "c_shareListener s' = c_shareListener s" "pk_Hash (n_heap s' r) = pk_Hash (n_heap s r)"
proof -
  from assms have t: "PeerConsts.truncate (n_heap s' r) = PeerConsts.truncate (n_heap s r)"
    by (simp add: only_stopped_def)
  from t show "ep_of s' r = ep_of s r" "pk_Hash (n_heap s' r) = pk_Hash (n_heap s r)"
    by (simp_all add: PeerConsts.truncate_def)
qed (use assms in \<open>auto simp: only_stopped_def\<close>)

lemma Peer_Stop_only:
  assumes "net_inv s" and "r < n_next s"
  shows "\<exists>s'. Peer_Stop r s = Some s' \<and> net_inv s' \<and> only_stopped {r} s s' \<and> p_stopped (n_heap s' r)"
proof -
  from Peer_Stop_inv [OF assms] obtain s' p where s': "Peer_Stop r s = Some s'" "net_inv s'" "p_stopped p"
    "PeerConsts.truncate p = PeerConsts.truncate (n_heap s r)"
    "s' = s\<lparr>n_heap := (n_heap s)(r := p), c_peerStatus := c_peerStatus s'\<rparr>" by blast
  have h: "n_heap s' = (n_heap s)(r := p)" by (subst s'(5)) simp
  have "only_stopped {r} s s'" unfolding only_stopped_def
  proof (intro conjI)
    show "\<exists>h msgs. s' = s\<lparr>n_heap := h, c_peerStatus := msgs\<rparr>" using s'(5) by blast
  qed (use h s'(3,4) in auto)
  with s'(1-3) h show ?thesis by auto
qed

lemma for_each_stop:
  assumes "net_inv s" and "\<And>x. x \<in> set rs \<Longrightarrow> g x < n_next s"
  shows "\<exists>s'. for_each (\<lambda>x s. if C (ep_of s x) then Peer_Stop (g x) s else Some s) rs s = Some s'
    \<and> net_inv s' \<and> only_stopped (g ` {x \<in> set rs. C (ep_of s x)}) s s'
    \<and> (\<forall>x \<in> set rs. C (ep_of s x) \<longrightarrow> p_stopped (n_heap s' (g x)))"
  using assms
proof (induction rs arbitrary: s)
  case Nil
  then show ?case by (simp add: only_stopped_refl)
next
  case (Cons x xs)
  let ?R = "if C (ep_of s x) then {g x} else {}"
  have "\<exists>s1. (if C (ep_of s x) then Peer_Stop (g x) s else Some s) = Some s1 \<and> net_inv s1
      \<and> only_stopped ?R s s1 \<and> (C (ep_of s x) \<longrightarrow> p_stopped (n_heap s1 (g x)))"
    using Peer_Stop_only [OF Cons.prems(1), of "g x"] Cons.prems by (auto simp: only_stopped_refl)
  then obtain s1 where s1: "(if C (ep_of s x) then Peer_Stop (g x) s else Some s) = Some s1" "net_inv s1"
    "only_stopped ?R s s1" "C (ep_of s x) \<longrightarrow> p_stopped (n_heap s1 (g x))" by blast
  note fr = only_stopped_frame [OF s1(3)]
  have "\<And>y. y \<in> set xs \<Longrightarrow> g y < n_next s1" using Cons.prems(2) fr(1) by simp
  from Cons.IH [OF s1(2) this] obtain s2 where
    s2: "for_each (\<lambda>x s. if C (ep_of s x) then Peer_Stop (g x) s else Some s) xs s1 = Some s2" "net_inv s2"
      "only_stopped (g ` {y \<in> set xs. C (ep_of s y)}) s1 s2"
      "\<forall>y \<in> set xs. C (ep_of s y) \<longrightarrow> p_stopped (n_heap s2 (g y))"
    unfolding fr by blast
  have "p_stopped (n_heap s2 (g x))" if "C (ep_of s x)"
    using s1(4) s2(3) that by (auto simp: only_stopped_def)
  moreover have "?R \<union> g ` {y \<in> set xs. C (ep_of s y)} = g ` {y \<in> set (x # xs). C (ep_of s y)}" by auto
  ultimately show ?case
    using s1(1) s2 only_stopped_trans [OF s1(3) s2(3)] by auto
qed

lemma slice_frame [frame_simps]:
  assumes "slice_peers s = (rs, s')"
  shows "n_heap s' = n_heap s" "bans_of s' = bans_of s" "n_next s' = n_next s" "n_conf s' = n_conf s"
    "c_special s' = c_special s" "c_peerStatus s' = c_peerStatus s" "peers_of (c_peers s') = peers_of (c_peers s)"
    "c_dialer s' = c_dialer s" "c_seed s' = c_seed s" "n_stopped s' = n_stopped s"
    "c_specialEndpoints s' = c_specialEndpoints s"
proof -
  show "peers_of (c_peers s') = peers_of (c_peers s)"
    using assms by (auto simp: slice_peers_def PeerStore_Slice_def peers_of_def split: option.splits prod.splits)
qed (use assms in \<open>auto simp: slice_peers_def split: prod.splits\<close>)

lemma net_inv_bans: "net_inv s \<Longrightarrow> net_inv (s\<lparr>c_bans := Some b\<rparr>)"
  by (simp add: net_inv_def)

lemma net_inv_bans_of: "net_inv s \<Longrightarrow> \<exists>m. c_bans s = Some m"
  by (auto simp: net_inv_def)

lemma set_ban_inv:
  assumes "net_inv s"
  shows "set_ban addr end s = Some (s\<lparr>c_bans := Some ((bans_of s)(addr \<mapsto> end))\<rparr>)"
  using net_inv_bans_of [OF assms] by (auto simp: set_ban_def)

subsection \<open>What the operations do\<close>

lemma ban_result:
  fixes now :: time and d :: duration
  assumes "net_inv s" and "PeerStore_Get (c_peers s) hsh = Some r"
  defines "e \<equiv> (case bans_of s (IP (ep_of s r)) of None \<Rightarrow> now + d | Some t \<Rightarrow> max (now + d) t)"
  shows "\<exists>s'. ban hsh now d s = Some s' \<and> net_inv s' \<and> p_stopped (n_heap s' r)
    \<and> (\<forall>q. q \<noteq> r \<longrightarrow> n_heap s' q = n_heap s q)
    \<and> bans_of s' = (bans_of s)(IP (ep_of s r) \<mapsto> e, Endpoint_String (ep_of s r) \<mapsto> e)
    \<and> peers_of (c_peers s') = peers_of (c_peers s)"
proof -
  let ?s = "s\<lparr>c_bans := Some ((bans_of s)(IP (ep_of s r) \<mapsto> e, Endpoint_String (ep_of s r) \<mapsto> e))\<rparr>"
  obtain rs t where sl: "slice_peers ?s = (rs, t)" by (rule prod.exhaust)
  have "net_inv ?s" by (rule net_inv_bans [OF assms(1)])
  note slice = slice_peers_inv [OF this sl] and fr = slice_frame [OF sl]
  have r: "r \<in> set (peers_of (c_peers s))"
    using Get_iff [OF net_invD(1) [OF assms(1)]] assms(2) by blast
  then have "r < n_next t" "r \<in> set rs"
    using net_invD(3) [OF assms(1)] fr(3) slice(3) by simp_all
  from for_each_stop [OF slice(1), of rs "\<lambda>_. r" "\<lambda>ep. IP ep = IP (ep_of s r)"] this(1)
  obtain s' where s': "for_each (\<lambda>p s'. if IP (ep_of s' p) = IP (ep_of s r) then Peer_Stop r s' else Some s') rs t = Some s'"
    "net_inv s'" "only_stopped ((\<lambda>_. r) ` {x \<in> set rs. IP (ep_of t x) = IP (ep_of s r)}) t s'"
    "\<forall>x \<in> set rs. IP (ep_of t x) = IP (ep_of s r) \<longrightarrow> p_stopped (n_heap s' r)" by blast
  note set1 = set_ban_inv [OF assms(1)] and set2 = set_ban_inv [OF net_inv_bans [OF assms(1)]]
  have "(case bans_of s (IP (ep_of s r)) of Some x \<Rightarrow> if now + d < x then x else now + d | None \<Rightarrow> now + d) = e"
    by (simp add: e_def max_def split: option.split)
  then have "ban hsh now d s = Some s'" using assms(2) s'(1) sl by (simp add: ban_def set1 set2 Let_def)
  moreover have "p_stopped (n_heap s' r)" using s'(4) \<open>r \<in> set rs\<close> fr(1) by auto
  moreover have "\<forall>q. q \<noteq> r \<longrightarrow> n_heap s' q = n_heap s q"
    using s'(3) fr(1) by (auto simp: only_stopped_def)
  moreover have "bans_of s' = (bans_of s)(IP (ep_of s r) \<mapsto> e, Endpoint_String (ep_of s r) \<mapsto> e)"
    using only_stopped_frame(2) [OF s'(3)] fr(2) by simp
  moreover have "peers_of (c_peers s') = peers_of (c_peers s)"
    using only_stopped_frame(3) [OF s'(3)] fr(7) by simp
  ultimately show ?thesis using s'(2) by blast
qed

lemma banEndpoint_result:
  assumes "net_inv s"
  shows "\<exists>s'. banEndpoint ep now d s = Some s' \<and> net_inv s'
    \<and> bans_of s' = (bans_of s)(Endpoint_String ep \<mapsto> now + d)
    \<and> (0 < d \<longrightarrow> (\<forall>r \<in> set (peers_of (c_peers s)). ep_of s r = ep \<longrightarrow> p_stopped (n_heap s' r)))
    \<and> (\<forall>q. 0 < d \<and> ep_of s q = ep \<or> n_heap s' q = n_heap s q)
    \<and> peers_of (c_peers s') = peers_of (c_peers s)"
proof (cases "0 < d")
  case True
  let ?s = "s\<lparr>c_bans := Some ((bans_of s)(Endpoint_String ep \<mapsto> now + d))\<rparr>"
  obtain rs t where sl: "slice_peers ?s = (rs, t)" by (rule prod.exhaust)
  have "net_inv ?s" by (rule net_inv_bans [OF assms])
  note slice = slice_peers_inv [OF this sl] and fr = slice_frame [OF sl]
  have "\<And>x. x \<in> set rs \<Longrightarrow> x < n_next t" using slice(4) fr(3) by simp
  from for_each_stop [OF slice(1), of rs "\<lambda>x. x" "\<lambda>e. e = ep"] this
  obtain s' where s': "for_each (\<lambda>p s'. if ep_of s' p = ep then Peer_Stop p s' else Some s') rs t = Some s'"
    "net_inv s'" "only_stopped {x \<in> set rs. ep_of t x = ep} t s'"
    "\<forall>x \<in> set rs. ep_of t x = ep \<longrightarrow> p_stopped (n_heap s' x)" by auto
  have "banEndpoint ep now d s = Some s'" using s'(1) sl True by (simp add: banEndpoint_def set_ban_inv [OF assms])
  moreover have "\<forall>q. 0 < d \<and> ep_of s q = ep \<or> n_heap s' q = n_heap s q"
    using s'(3) fr(1) True by (auto simp: only_stopped_def)
  moreover have "peers_of (c_peers s') = peers_of (c_peers s)"
    using only_stopped_frame(3) [OF s'(3)] fr(7) by simp
  moreover have "set rs = set (peers_of (c_peers s))" using slice(3) by simp
  ultimately show ?thesis
    using s'(2,4) only_stopped_frame(2) [OF s'(3)] fr(1,2) by auto
next
  case False
  with assms net_inv_bans [OF assms] show ?thesis by (simp add: banEndpoint_def set_ban_inv [OF assms])
qed

lemma setSpecial_fold:
  "fold (\<lambda>ep m. insert (IP ep) (insert (Endpoint_String ep) m)) eps A
    = A \<union> IP ` set eps \<union> Endpoint_String ` set eps"
  by (induction eps arbitrary: A) auto

lemma net_inv_special [simp]:
  "net_inv (s\<lparr>c_specialEndpoints := e, c_special := b\<rparr>) = net_inv s"
  by (simp add: net_inv_def)

lemma setSpecial_inv: "net_inv s \<Longrightarrow> net_inv (setSpecial raw s)"
  by (auto simp: setSpecial_def split: sum.splits)

lemma disconnect_inv: "net_inv s \<Longrightarrow> \<exists>s'. disconnect hsh s = Some s' \<and> net_inv s'"
proof (cases "PeerStore_Get (c_peers s) hsh")
  case (Some r)
  assume inv: "net_inv s"
  have "r < n_next s"
    using Some Get_iff [OF net_invD(1) [OF inv]] net_invD(3) [OF inv] by blast
  with Peer_Stop_only [OF inv] Some show ?thesis by (auto simp: disconnect_def)
qed (simp add: disconnect_def)

subsection \<open>Properties\<close>

text \<open>C14: a ban by hash takes effect and is not weakened: if the hash belongs to a connected peer, \<open>ban\<close>
  stops that peer, and until the ban ends its ip, and with it every endpoint at this ip, is banned; an
  earlier ban of the ip that lasts longer stays in force.\<close>

theorem ban_effective:
  assumes "net_inv s" and "PeerStore_Get (c_peers s) hsh = Some r" and "0 \<le> now + d"
  shows "\<exists>s'. ban hsh now d s = Some s' \<and> net_inv s' \<and> p_stopped (n_heap s' r)
    \<and> (\<forall>t ep. t < now + d \<or> isBannedIP t (IP (ep_of s r)) s \<longrightarrow> IP ep = IP (ep_of s r) \<longrightarrow>
          isBannedIP t (IP ep) s' \<and> isBannedEndpoint t t' ep s')"
proof -
  have ne: "IP (ep_of s r) \<noteq> Endpoint_String (ep_of s r)" by (simp add: Endpoint_String_def)
  from ban_result [OF assms(1,2), of now d] obtain s' where s': "ban hsh now d s = Some s'" "net_inv s'"
    "p_stopped (n_heap s' r)" and bans: "bans_of s' = (bans_of s)
      (IP (ep_of s r) \<mapsto> case bans_of s (IP (ep_of s r)) of None \<Rightarrow> now + d | Some t \<Rightarrow> max (now + d) t,
       Endpoint_String (ep_of s r) \<mapsto> case bans_of s (IP (ep_of s r)) of None \<Rightarrow> now + d | Some t \<Rightarrow> max (now + d) t)"
    by blast
  have "ban_end s' (IP (ep_of s r)) = max (now + d) (ban_end s (IP (ep_of s r)))"
    using ne assms(3) by (simp add: ban_end_def bans split: option.split)
  then have "isBannedIP t (IP ep) s' \<and> isBannedEndpoint t t' ep s'"
    if "t < now + d \<or> isBannedIP t (IP (ep_of s r)) s" "IP ep = IP (ep_of s r)" for t ep
    using that by (auto simp: isBannedIP_def isBannedEndpoint_def)
  with s' show ?thesis by blast
qed

text \<open>C35: a ban by hash does not disconnect the other peers of the banned ip, although its comment promises
  to: of all peers only the one with the given hash is touched.\<close>

theorem ban_stops_one_peer:
  assumes "net_inv s" and "PeerStore_Get (c_peers s) hsh = Some r" and "ban hsh now d s = Some s'"
    and "q \<in> set (peers_of (c_peers s))" and "q \<noteq> r" and "IP (ep_of s q) = IP (ep_of s r)"
  shows "n_heap s' q = n_heap s q \<and> q \<in> set (peers_of (c_peers s'))"
  using ban_result [OF assms(1,2), of now d] assms(3-5) by auto

text \<open>A ban of an endpoint is exact: it bans that endpoint until the given time, disconnects every peer at
  it if the duration is positive and no other peer in any case; a duration of zero lifts the endpoint's
  ban.\<close>

theorem banEndpoint_correct:
  assumes "net_inv s"
  shows "\<exists>s'. banEndpoint ep now d s = Some s' \<and> net_inv s'
    \<and> (\<forall>t. t < now + d \<longrightarrow> isBannedEndpoint t t ep s')
    \<and> (\<forall>t. now + d \<le> t \<and> \<not> isBannedIP t (IP ep) s \<longrightarrow> \<not> isBannedEndpoint t t ep s')
    \<and> (\<forall>r \<in> set (peers_of (c_peers s)). 0 < d \<and> ep_of s r = ep \<longrightarrow> p_stopped (n_heap s' r))
    \<and> (\<forall>r. \<not> (0 < d \<and> ep_of s r = ep) \<longrightarrow> n_heap s' r = n_heap s r)"
proof -
  have ne: "IP ep \<noteq> Endpoint_String ep" by (simp add: Endpoint_String_def)
  from banEndpoint_result [OF assms, of ep now d] obtain s' where s': "banEndpoint ep now d s = Some s'" "net_inv s'"
    "0 < d \<longrightarrow> (\<forall>r \<in> set (peers_of (c_peers s)). ep_of s r = ep \<longrightarrow> p_stopped (n_heap s' r))"
    "\<forall>q. 0 < d \<and> ep_of s q = ep \<or> n_heap s' q = n_heap s q"
    and bans: "bans_of s' = (bans_of s)(Endpoint_String ep \<mapsto> now + d)" by blast
  have "ban_end s' (Endpoint_String ep) = now + d" "ban_end s' (IP ep) = ban_end s (IP ep)"
    using ne by (simp_all add: ban_end_def bans)
  then have "\<forall>t. t < now + d \<longrightarrow> isBannedEndpoint t t ep s'"
    "\<forall>t. now + d \<le> t \<and> \<not> isBannedIP t (IP ep) s \<longrightarrow> \<not> isBannedEndpoint t t ep s'"
    by (auto simp: isBannedIP_def isBannedEndpoint_def)
  with s' show ?thesis by blast
qed

lemma parse_items_valid:
  "list_all Endpoint_Valid acc \<Longrightarrow> parse_items items acc = Inr eps \<Longrightarrow> list_all Endpoint_Valid eps"
proof (induction items arbitrary: acc)
  case (Cons x xs)
  then obtain ep where ep: "ParseEndpoint (TrimSpace x) = Inr ep" "parse_items xs (acc @ [ep]) = Inr eps"
    by (auto simp: bindR_Inr_iff)
  then have "Endpoint_Valid ep"
    by (auto simp: ParseEndpoint_def split: option.splits if_splits dest: NewEndpoint_Inr)
  with Cons.prems(1) have "list_all Endpoint_Valid (acc @ [ep])" by simp
  from Cons.IH [OF this ep(2)] show ?case .
qed simp

text \<open>C31: \<open>setSpecial\<close> makes exactly the listed peers special: an empty list clears them, a list that does
  not parse changes nothing, and otherwise, unless IPv6 addresses are involved, the special endpoints are
  those of the list and the special ips their ips.\<close>

theorem setSpecial_correct:
  "(raw = [] \<longrightarrow> c_special (setSpecial raw s) = {} \<and> c_specialEndpoints (setSpecial raw s) = [])
   \<and> (raw \<noteq> [] \<and> \<not> is_ok (parseSpecial raw) \<longrightarrow> setSpecial raw s = s)
   \<and> (\<forall>eps. raw \<noteq> [] \<and> parseSpecial raw = Inr eps \<and> list_all (\<lambda>ep. CHR '':'' \<notin> set (IP ep)) eps \<longrightarrow>
       c_specialEndpoints (setSpecial raw s) = eps
       \<and> (\<forall>ep. Endpoint_Valid ep \<longrightarrow> (isSpecial ep (setSpecial raw s) \<longleftrightarrow> ep \<in> set eps))
       \<and> (\<forall>ip. CHR '':'' \<notin> set ip \<longrightarrow> (isSpecialIP ip (setSpecial raw s) \<longleftrightarrow> ip \<in> IP ` set eps)))"
proof (intro conjI allI impI)
  fix eps
  assume "raw \<noteq> [] \<and> parseSpecial raw = Inr eps \<and> list_all (\<lambda>ep. CHR '':'' \<notin> set (IP ep)) eps"
  then have raw: "raw \<noteq> []" "parseSpecial raw = Inr eps" and colon: "\<And>ep. ep \<in> set eps \<Longrightarrow> CHR '':'' \<notin> set (IP ep)"
    by (auto simp: list_all_iff)
  have valid: "list_all Endpoint_Valid eps"
    using raw(2) parse_items_valid [of "[]" "Split CHR '','' raw" eps] by (simp add: parseSpecial_def)
  have sp: "c_special (setSpecial raw s) = IP ` set eps \<union> Endpoint_String ` set eps"
    using raw by (simp add: setSpecial_def setSpecial_fold)
  have has: "CHR '':'' \<in> set (Endpoint_String ep)" for ep by (simp add: Endpoint_String_def)
  show "c_specialEndpoints (setSpecial raw s) = eps" using raw by (simp add: setSpecial_def)
  show "isSpecial ep (setSpecial raw s) \<longleftrightarrow> ep \<in> set eps" if "Endpoint_Valid ep" for ep
  proof -
    have "Endpoint_String ep \<notin> IP ` set eps" using has [of ep] colon by auto
    moreover have "Endpoint_String ep \<in> Endpoint_String ` set eps \<longleftrightarrow> ep \<in> set eps"
    proof
      assume "Endpoint_String ep \<in> Endpoint_String ` set eps"
      then obtain e where e: "e \<in> set eps" "Endpoint_String ep = Endpoint_String e" by blast
      with valid have "Endpoint_Valid e" by (simp add: list_all_iff)
      from Endpoint_String_inj [OF that this e(2)] e(1) show "ep \<in> set eps" by simp
    qed simp
    ultimately show ?thesis unfolding isSpecial_def sp by simp
  qed
  show "isSpecialIP ip (setSpecial raw s) \<longleftrightarrow> ip \<in> IP ` set eps" if "CHR '':'' \<notin> set ip" for ip
  proof -
    have "ip \<notin> Endpoint_String ` set eps" using that has by blast
    then show ?thesis unfolding isSpecialIP_def sp by simp
  qed
next
  assume "raw \<noteq> [] \<and> \<not> is_ok (parseSpecial raw)"
  then show "setSpecial raw s = s" by (cases "parseSpecial raw") (simp_all add: setSpecial_def)
qed (simp_all add: setSpecial_def)

subsection \<open>Examples\<close>

text \<open>A node with two peers at the same ip, for the examples.\<close>

definition sample_peer :: "peer_ref \<Rightarrow> Peer" where
  "sample_peer n = the (newPeer DefaultP2PConfiguration 0 7 \<lparr>IP = ''a'', Port = replicate (Suc n) CHR ''1''\<rparr>
     (open_rw []) PV11 (NewMetricsReadWriter ()) True)"

definition sample_store :: PeerStore where
  "sample_store = fold (store_step sample_peer) [Op_Add 0, Op_Add 1] NewPeerStore"

definition sample_net :: NetState where
  "sample_net = \<lparr>n_conf = DefaultP2PConfiguration, n_rng = (\<lambda>_. 0), n_instanceID = 1, n_stopped = False, n_prom = None,
     n_toNetwork = newParcelChannel 10, n_fromNetwork = newParcelChannel 10, n_heap = sample_peer, n_next = 2, n_tasks = [],
     c_peerStatus = [], c_peerData = [], c_peers = sample_store,
     c_dialer = \<lparr>d_bindTo = [], d_interval = 0, d_timeout = 0, d_attempts = Map.empty\<rparr>,
     c_bans = Some Map.empty, c_special = {}, c_specialEndpoints = [], c_bootstrap = [],
     c_shareListener = Map.empty, c_lastPersist = 0, c_lastRound = 0, c_seed = newSeed [] 0, c_rounds = 0\<rparr>"

lemma sample_peer_ok: "peer_ok (sample_peer n)"
proof -
  from newPeer_ok [OF resend_ok_default] show ?thesis by (metis option.sel sample_peer_def)
qed

lemma sample_peer_consts:
  "pk_Endpoint (sample_peer n) = \<lparr>IP = ''a'', Port = replicate (Suc n) CHR ''1''\<rparr>"
  "pk_Hash (sample_peer n) = ''a:'' @ replicate (Suc n) CHR ''1'' @ '' '' @ show_hex8 7"
  "pk_IsIncoming (sample_peer n)" "\<not> p_stopped (sample_peer n)"
  by (simp_all add: sample_peer_def newPeer_def NewPeerHashCache_def DefaultP2PConfiguration_def duration_defs peer_hash_def)

lemma sample_filter:
  "cf_ChannelCapacity DefaultP2PConfiguration \<noteq> 0" "resend_ok DefaultP2PConfiguration"
  "\<exists>c. p_resend (sample_peer n) = Some c"
  using resend_ok_default by (simp_all add: sample_peer_def newPeer_def NewPeerHashCache_def DefaultP2PConfiguration_def duration_defs)

lemma sample_peers: "peers_of sample_store = [0, 1]"
  by (simp add: sample_store_def PeerStore_Add_def NewPeerStore_def peers_of_def sample_peer_consts Let_def)

lemma sample_store_inv: "store_inv sample_peer sample_store"
  unfolding sample_store_def by (rule store_run_inv)

lemma sample_Get: "r < 2 \<Longrightarrow> PeerStore_Get sample_store (pk_Hash (sample_peer r)) = Some r"
  using Get_iff [OF sample_store_inv, of "pk_Hash (sample_peer r)" r] by (auto simp: sample_peers)

lemma sample_net_inv: "net_inv sample_net"
  by (simp add: net_inv_def conf_ok_def sample_filter sample_net_def sample_peer_ok sample_store_inv sample_peers channel_open_def
      newParcelChannel_def seed_ok_def newSeed_def prom_set_def)

theorem ban_effective_witness:
  "\<exists>s'. ban (pk_Hash (sample_peer 0)) 5 10 sample_net = Some s' \<and> p_stopped (n_heap s' 0) \<and> isBannedIP 14 ''a'' s'"
proof -
  have "PeerStore_Get (c_peers sample_net) (pk_Hash (sample_peer 0)) = Some 0"
    by (simp add: sample_net_def sample_Get)
  from ban_effective [OF sample_net_inv this, of 5 10 0] obtain s' where
    s': "ban (pk_Hash (sample_peer 0)) 5 10 sample_net = Some s'" "p_stopped (n_heap s' 0)" and
    banned: "\<And>t (ep :: Endpoint). t < 15 \<Longrightarrow> IP ep = IP (ep_of sample_net 0) \<Longrightarrow> isBannedIP t (IP ep) s'"
    by auto
  have "IP (ep_of sample_net 0) = ''a''" by (simp add: sample_net_def sample_peer_consts)
  with banned [of 14 "ep_of sample_net 0"] s' show ?thesis by auto
qed

theorem ban_stops_one_peer_witness:
  "\<exists>s'. ban (pk_Hash (sample_peer 0)) 5 10 sample_net = Some s' \<and> \<not> p_stopped (n_heap s' 1)"
proof -
  have g: "PeerStore_Get (c_peers sample_net) (pk_Hash (sample_peer 0)) = Some 0"
    by (simp add: sample_net_def sample_Get)
  from ban_result [OF sample_net_inv g, of 5 10] obtain s' where
    s': "ban (pk_Hash (sample_peer 0)) 5 10 sample_net = Some s'" by blast
  have "n_heap s' 1 = n_heap sample_net 1"
    using ban_stops_one_peer [OF sample_net_inv g s', of 1]
    by (simp add: sample_net_def sample_peers sample_peer_consts)
  then have "\<not> p_stopped (n_heap s' 1)" by (simp add: sample_net_def sample_peer_consts)
  with s' show ?thesis by blast
qed

theorem banEndpoint_correct_witness:
  "\<exists>s'. banEndpoint \<lparr>IP = ''a'', Port = ''1''\<rparr> 5 10 sample_net = Some s' \<and> p_stopped (n_heap s' 0)
     \<and> n_heap s' 1 = sample_peer 1"
  using banEndpoint_correct [OF sample_net_inv, of "\<lparr>IP = ''a'', Port = ''1''\<rparr>" 5 10]
  by (auto simp: sample_net_def sample_peers sample_peer_consts)

lemma sample_special: "parseSpecial ''a:1'' = Inr [\<lparr>IP = ''a'', Port = ''1''\<rparr>]"
  by code_simp

theorem setSpecial_correct_witness:
  "c_special (setSpecial [] sample_net) = {} \<and> isSpecialIP ''a'' (setSpecial ''a:1'' sample_net)
   \<and> \<not> isSpecialIP ''b'' (setSpecial ''a:1'' sample_net)"
  using setSpecial_correct [of "[]" sample_net] setSpecial_correct [of "''a:1''" sample_net]
  by (simp add: sample_special)

end
