(* ===== verification/Sharing.thy ===== *)
theory Sharing
  imports Controller
begin

section \<open>Sharing peers\<close>

text \<open>
  The part of \<open>controller_cat.go\<close> that builds and digests peer shares. A supply of clock readings is a
  function: its first value is the next reading. A length converted to \<open>uint\<close> keeps its value, so it is
  compared with the configured number as a natural number.
\<close>

type_synonym clock = "nat \<Rightarrow> time"

abbreviation later :: "nat \<Rightarrow> clock \<Rightarrow> clock" where
  "later n clk \<equiv> (\<lambda>i. clk (i + n))"

text \<open>The loop of \<open>processPeerShare\<close>: one bad endpoint spoils the whole share.\<close>

primrec share_loop :: "clock \<Rightarrow> NetState \<Rightarrow> Endpoint list \<Rightarrow> Endpoint list \<Rightarrow> Endpoint list" where
  "share_loop clk s [] res = res"
| "share_loop clk s (ep # eps) res =
     (if \<not> Endpoint_Valid ep then []
      else share_loop (later 2 clk) s eps
             (if \<not> isBannedEndpoint (clk 0) (clk 1) ep s then res @ [ep] else res))"

definition processPeerShare :: "Lib \<Rightarrow> clock \<Rightarrow> peer_ref \<Rightarrow> Parcel \<Rightarrow> NetState \<Rightarrow> Endpoint list" where
  "processPeerShare lib clk peer parcel s =
     (case Prot_ParsePeerShare lib (p_prot (n_heap s peer)) (Payload parcel) of
        Inl _ \<Rightarrow> []
      | Inr list \<Rightarrow> share_loop clk s list [])"

definition shuffleTrimShare :: "Endpoint list \<Rightarrow> NetState \<Rightarrow> Endpoint list \<times> NetState" where
  "shuffleTrimShare list s =
     (if length list = 0 then ([], s)
      else
        let (list, rnd) = Shuffle (n_rng s) list;
            s = s\<lparr>n_rng := rnd\<rparr>;
            amount = unat (cf_PeerShareAmount (n_conf s))
        in (if length list > amount then take amount list else list, s))"

text \<open>The loop of \<open>makePeerShare\<close>, over the peers in the order of the permutation.\<close>

primrec share_pick :: "nat \<Rightarrow> Endpoint \<Rightarrow> Endpoint list \<Rightarrow> Endpoint list \<Rightarrow> Endpoint list" where
  "share_pick amount exclude [] list = list"
| "share_pick amount exclude (ep # eps) list =
     (if Endpoint_Equal exclude ep then share_pick amount exclude eps list
      else if length (list @ [ep]) \<ge> amount then list @ [ep]
      else share_pick amount exclude eps (list @ [ep]))"

definition makePeerShare :: "Endpoint \<Rightarrow> NetState \<Rightarrow> Endpoint list \<times> NetState" where
  "makePeerShare exclude s =
     (let (peers, s) = slice_peers s;
          (perm, rnd) = Perm (n_rng s) (length peers);
          s = s\<lparr>n_rng := rnd\<rparr>
      in (share_pick (unat (cf_PeerShareAmount (n_conf s))) exclude (map (\<lambda>i. ep_of s (peers ! i)) perm) [], s))"

definition sharePeers :: "Lib \<Rightarrow> peer_ref \<Rightarrow> Endpoint list \<Rightarrow> NetState \<Rightarrow> NetState option" where
  "sharePeers lib peer list s =
     (case Prot_MakePeerShare lib (p_prot (n_heap s peer)) list of
        Inl _ \<Rightarrow> Some s
      | Inr payload \<Rightarrow>
          if length payload = 0 then Some s
          else send_to (Some (newParcel TypePeerResponse payload)) peer s)"

subsection \<open>Facts\<close>

lemma net_inv_rng [simp]: "net_inv (s\<lparr>n_rng := r\<rparr>) = net_inv s"
  by (simp add: net_inv_def)

lemma mset_take_subseteq: "mset (take n xs) \<subseteq># mset xs"
  by (metis append_take_drop_id mset_append mset_subset_eq_add_left)

lemma share_loop_eq:
  "share_loop clk s eps res = (if list_all Endpoint_Valid eps
     then res @ map snd (filter (\<lambda>(i, ep). \<not> isBannedEndpoint (clk (2 * i)) (clk (2 * i + 1)) ep s) (enumerate 0 eps))
     else [])"
proof (induction eps arbitrary: clk res)
  case (Cons ep eps)
  have "map snd (filter (\<lambda>(i, ep). \<not> isBannedEndpoint (later 2 clk (2 * i)) (later 2 clk (2 * i + 1)) ep s) (enumerate 0 eps))
      = map snd (filter (\<lambda>(i, ep). \<not> isBannedEndpoint (clk (2 * i)) (clk (2 * i + 1)) ep s) (enumerate (Suc 0) eps))"
    by (simp add: enumerate_Suc_eq [of 0] filter_map comp_def case_prod_beta map_prod_def split_def)
  with Cons.IH [of "later 2 clk"] show ?case by simp
qed simp

lemma share_loop_props:
  "set (share_loop clk s eps []) \<subseteq> {ep \<in> set eps. Endpoint_Valid ep}"
  "length (share_loop clk s eps []) \<le> length eps"
proof -
  show "set (share_loop clk s eps []) \<subseteq> {ep \<in> set eps. Endpoint_Valid ep}"
    by (auto simp: share_loop_eq list_all_iff in_set_enumerate_eq)
  show "length (share_loop clk s eps []) \<le> length eps"
    using length_filter_le [of _ "enumerate 0 eps"] by (auto simp: share_loop_eq)
qed

lemma shuffleTrimShare_props:
  assumes "shuffleTrimShare list s = (share, s')"
  shows "mset share \<subseteq># mset list" "length share \<le> unat (cf_PeerShareAmount (n_conf s))"
    "\<exists>rnd. s' = s\<lparr>n_rng := rnd\<rparr>"
proof -
  show "\<exists>rnd. s' = s\<lparr>n_rng := rnd\<rparr>"
    using assms by (cases "list = []") (auto simp: shuffleTrimShare_def Let_def split: prod.splits intro: exI [of _ "n_rng s"])
  show "length share \<le> unat (cf_PeerShareAmount (n_conf s))"
    using assms by (auto simp: shuffleTrimShare_def Let_def split: prod.splits if_splits)
  have "mset (take n (fst (Shuffle r list))) \<subseteq># mset list" for n r
    by (metis mset_Shuffle mset_take_subseteq)
  then show "mset share \<subseteq># mset list"
    using assms by (auto simp: shuffleTrimShare_def Let_def dest: Shuffle_mset split: prod.splits if_splits)
      (metis fst_conv)
qed

lemma share_pick_eq:
  "length list < amount \<Longrightarrow>
   share_pick amount exclude eps list = list @ take (amount - length list) (filter (\<lambda>ep. ep \<noteq> exclude) eps)"
proof (induction eps arbitrary: list)
  case (Cons ep eps)
  show ?case
  proof (cases "ep = exclude \<or> Suc (length list) = amount")
    case True
    with Cons show ?thesis by (auto simp: Suc_diff_le)
  next
    case False
    with Cons.prems Cons.IH [of "list @ [ep]"] show ?thesis
      by (auto simp: Suc_diff_Suc [of "length list" amount, symmetric])
  qed
qed simp

lemma makePeerShare_inv:
  assumes "net_inv s" and "makePeerShare exclude s = (share, s')"
  shows "net_inv s'" "\<exists>ps rnd. s' = s\<lparr>c_peers := ps, n_rng := rnd\<rparr> \<and> ps_peers ps = ps_peers (c_peers s)"
    "\<exists>eps. mset eps = mset (map (ep_of s) (peers_of (c_peers s)))
       \<and> share = share_pick (unat (cf_PeerShareAmount (n_conf s))) exclude eps []"
proof -
  obtain peers s1 where sl: "slice_peers s = (peers, s1)" by (rule prod.exhaust)
  obtain perm rnd where pm: "Perm (n_rng s1) (length peers) = (perm, rnd)" by (rule prod.exhaust)
  note inv = slice_peers_inv [OF assms(1) sl] and fr = slice_frame [OF sl]
  from assms(2) sl pm fr(1,4) have s': "s' = s1\<lparr>n_rng := rnd\<rparr>" and
    share: "share = share_pick (unat (cf_PeerShareAmount (n_conf s))) exclude (map (\<lambda>i. ep_of s (peers ! i)) perm) []"
    by (simp_all add: makePeerShare_def Let_def)
  from inv(1) s' show "net_inv s'" by simp
  from inv(5) s' show "\<exists>ps rnd. s' = s\<lparr>c_peers := ps, n_rng := rnd\<rparr> \<and> ps_peers ps = ps_peers (c_peers s)" by fastforce
  have "mset (map ((!) peers) (fst (Perm (n_rng s1) (length peers)))) = mset (peers_of (c_peers s))"
    by (simp only: Perm_lookup_mset inv(2))
  moreover have "map (\<lambda>i. ep_of s (peers ! i)) perm = map (ep_of s) (map ((!) peers) (fst (Perm (n_rng s1) (length peers))))"
    using pm by simp
  ultimately have "mset (map (\<lambda>i. ep_of s (peers ! i)) perm) = mset (map (ep_of s) (peers_of (c_peers s)))"
    by (metis mset_map)
  with share show "\<exists>eps. mset eps = mset (map (ep_of s) (peers_of (c_peers s)))
       \<and> share = share_pick (unat (cf_PeerShareAmount (n_conf s))) exclude eps []" by blast
qed

lemma sharePeers_inv:
  assumes "net_inv s" and "peer < n_next s"
  shows "\<exists>s'. sharePeers lib peer list s = Some s' \<and> net_inv s' \<and> n_next s' = n_next s"
  using send_to_inv [OF assms] assms(1)
  by (fastforce simp: sharePeers_def split: sum.splits)

subsection \<open>Properties\<close>

text \<open>C27: the share that is made for a peer lists other connected peers only, as many of them as the
  configuration allows: it never contains the endpoint it is made for, no peer is listed more often than it is
  connected, and its length is the configured number, or the number of eligible peers if there are fewer.
  Making it disturbs nothing but the random source and the cached peer list.\<close>

theorem makePeerShare_correct:
  assumes "net_inv s" and "0 < cf_PeerShareAmount (n_conf s)" and "makePeerShare exclude s = (share, s')"
  defines "eligible \<equiv> filter (\<lambda>ep. ep \<noteq> exclude) (map (ep_of s) (peers_of (c_peers s)))"
  shows "exclude \<notin> set share \<and> mset share \<subseteq># mset eligible
    \<and> length share = min (unat (cf_PeerShareAmount (n_conf s))) (length eligible)
    \<and> (\<exists>ps rnd. s' = s\<lparr>c_peers := ps, n_rng := rnd\<rparr> \<and> ps_peers ps = ps_peers (c_peers s)) \<and> net_inv s'"
proof -
  note inv = makePeerShare_inv [OF assms(1,3)]
  from inv(3) obtain eps where eps: "mset eps = mset (map (ep_of s) (peers_of (c_peers s)))"
    and share: "share = share_pick (unat (cf_PeerShareAmount (n_conf s))) exclude eps []" by blast
  let ?f = "filter (\<lambda>ep. ep \<noteq> exclude) eps"
  have share': "share = take (unat (cf_PeerShareAmount (n_conf s))) ?f"
    using assms(2) by (simp add: share share_pick_eq word_less_nat_alt)
  have m: "mset ?f = mset eligible" using eps by (simp add: eligible_def)
  have "exclude \<notin> set share" by (auto simp: share' dest: in_set_takeD)
  moreover have "mset share \<subseteq># mset eligible" by (metis m mset_take_subseteq share')
  moreover have "length share = min (unat (cf_PeerShareAmount (n_conf s))) (length eligible)"
    using mset_eq_length [OF m] by (simp add: share' min.commute)
  ultimately show ?thesis using inv(1,2) by blast
qed

theorem makePeerShare_correct_witness:
  "\<exists>share s'. makePeerShare \<lparr>IP = ''a'', Port = ''1''\<rparr> sample_net = (share, s') \<and> length share = 1
    \<and> \<lparr>IP = ''a'', Port = ''1''\<rparr> \<notin> set share"
proof -
  obtain share s' where m: "makePeerShare \<lparr>IP = ''a'', Port = ''1''\<rparr> sample_net = (share, s')" by (rule prod.exhaust)
  have "0 < cf_PeerShareAmount (n_conf sample_net)" by (simp add: sample_net_def DefaultP2PConfiguration_def)
  from makePeerShare_correct [OF sample_net_inv this m] m show ?thesis
    by (simp add: sample_net_def sample_peers sample_peer_consts DefaultP2PConfiguration_def)
qed

text \<open>What the JSON package promises, for the versions whose shares are JSON.\<close>

definition share_codec :: "Lib \<Rightarrow> Protocol \<Rightarrow> bool" where
  "share_codec lib prot =
     (case prot of
        PV9 _ \<Rightarrow> json_codec made_share (lib_jmS lib) (lib_juS lib)
      | PV10 _ \<Rightarrow> json_codec ascii_endpoint (lib_jmE lib) (lib_juE lib)
      | PV11 \<Rightarrow> True)"

lemma Prot_share_roundtrip:
  assumes "share_codec lib prot" and "list_all ascii_endpoint eps" and "Prot_Version prot' = Prot_Version prot"
  shows "\<exists>payload. Prot_MakePeerShare lib prot eps = Inr payload
    \<and> (length payload < 2 ^ 63 \<longrightarrow> Prot_ParsePeerShare lib prot' payload = Inr eps)"
proof (cases prot)
  case (PV9 v9)
  with assms(3) obtain w where "prot' = PV9 w" by (cases prot') (simp_all add: Prot_Version_def V9_Version_def
      V10_Version_def V11_Version_def)
  with PV9 assms(1) gob_peer_share_roundtrip [OF assms(2), of "lib_jmS lib" "lib_juS lib" v9] show ?thesis
    by (auto simp: share_codec_def Prot_MakePeerShare_def Prot_ParsePeerShare_def)
next
  case (PV10 v10)
  with assms(3) obtain w where "prot' = PV10 w" by (cases prot') (simp_all add: Prot_Version_def V9_Version_def
      V10_Version_def V11_Version_def)
  with PV10 assms(1) gob_peer_share_roundtrip [OF assms(2), of _ _ undefined "lib_jmE lib" "lib_juE lib"]
  show ?thesis by (auto simp: share_codec_def Prot_MakePeerShare_def Prot_ParsePeerShare_def)
next
  case PV11
  with assms(3) have "prot' = PV11" by (cases prot') (simp_all add: Prot_Version_def V9_Version_def
      V10_Version_def V11_Version_def)
  with PV11 V11_peer_share_roundtrip [of eps] show ?thesis
    by (auto simp: Prot_MakePeerShare_def Prot_ParsePeerShare_def)
qed

text \<open>C26: peer shares reach the other node, whatever the version: what one node sends with \<open>sharePeers\<close>, if the
  endpoints in it are ASCII strings and the JSON package reads back the shares that the program marshals, the
  other one digests with \<open>processPeerShare\<close> to the same endpoints in the same order, less those that it has
  banned, if all of them are valid, and to nothing if one of them is not.\<close>

theorem peer_share_exchanged:
  assumes "share_codec lib (p_prot (n_heap s a))" and "list_all ascii_endpoint eps"
    and "Prot_Version (p_prot (n_heap t b)) = Prot_Version (p_prot (n_heap s a))"
  shows "\<exists>payload. Prot_MakePeerShare lib (p_prot (n_heap s a)) eps = Inr payload
    \<and> sharePeers lib a eps s =
      (if payload = [] then Some s else send_to (Some (newParcel TypePeerResponse payload)) a s)
    \<and> (length payload < 2 ^ 63 \<longrightarrow>
        processPeerShare lib clk b (newParcel TypePeerResponse payload) t =
        (if list_all Endpoint_Valid eps
         then map snd (filter (\<lambda>(i, ep). \<not> isBannedEndpoint (clk (2 * i)) (clk (2 * i + 1)) ep t) (enumerate 0 eps))
         else []))"
proof -
  from Prot_share_roundtrip [OF assms] obtain payload where
    "Prot_MakePeerShare lib (p_prot (n_heap s a)) eps = Inr payload"
    "length payload < 2 ^ 63 \<longrightarrow> Prot_ParsePeerShare lib (p_prot (n_heap t b)) payload = Inr eps" by blast
  then show ?thesis
    by (intro exI [of _ payload]) (simp add: sharePeers_def processPeerShare_def newParcel_def share_loop_eq)
qed

text \<open>The example with the version \<open>prot\<close>.\<close>

definition sample_speaking :: "Protocol \<Rightarrow> NetState" where
  "sample_speaking prot = sample_net\<lparr>n_heap := \<lambda>r. (sample_peer r)\<lparr>p_prot := prot\<rparr>\<rparr>"

theorem peer_share_exchanged_witness:
  "list_all (\<lambda>prot. \<exists>payload. sharePeers sample_lib 0 [\<lparr>IP = ''a'', Port = ''1''\<rparr>] (sample_speaking prot)
       = send_to (Some (newParcel TypePeerResponse payload)) 0 (sample_speaking prot)
    \<and> processPeerShare sample_lib (\<lambda>_. 5) 1 (newParcel TypePeerResponse payload) (sample_speaking prot)
       = [\<lparr>IP = ''a'', Port = ''1''\<rparr>]) [PV9 (newProtocolV9 MainNet 1 ''80'' [] []), PV10 (newProtocolV10 [] []), PV11]"
  unfolding list_all_iff
proof
  fix prot
  assume "prot \<in> set [PV9 (newProtocolV9 MainNet 1 ''80'' [] []), PV10 (newProtocolV10 [] []), PV11]"
  then have prot: "prot = PV9 (newProtocolV9 MainNet 1 ''80'' [] []) \<or> prot = PV10 (newProtocolV10 [] []) \<or> prot = PV11" by simp
  let ?ep = "\<lparr>IP = ''a'', Port = ''1''\<rparr>" and ?s = "sample_speaking prot"
  have v: "Endpoint_Valid ?ep" by code_simp
  have nb: "\<not> isBannedEndpoint 5 5 ?ep ?s"
    by (simp add: isBannedEndpoint_def ban_end_def sample_speaking_def sample_net_def)
  have p: "p_prot (n_heap ?s r) = prot" for r by (simp add: sample_speaking_def)
  have codec: "share_codec sample_lib (p_prot (n_heap ?s 0))"
    using prot sample_codec sample_codecS by (auto simp: share_codec_def sample_lib_def p)
  have ascii: "list_all ascii_endpoint [?ep]" by (simp add: ascii_endpoint_def ascii_def)
  from peer_share_exchanged [OF codec ascii, of ?s 1 "\<lambda>_. 5"] obtain payload where
    payload: "Prot_MakePeerShare sample_lib prot [?ep] = Inr payload"
    "sharePeers sample_lib 0 [?ep] ?s = (if payload = [] then Some ?s
      else send_to (Some (newParcel TypePeerResponse payload)) 0 ?s)"
    "length payload < 2 ^ 63 \<longrightarrow> processPeerShare sample_lib (\<lambda>_. 5) 1 (newParcel TypePeerResponse payload) ?s = [?ep]"
    by (auto simp: p v nb)
  have "(case V11_MakePeerShare [?ep] of Some d \<Rightarrow> length d = 8 | None \<Rightarrow> False)" by code_simp
  then have v11: "\<exists>d. V11_MakePeerShare [?ep] = Some d \<and> length d = 8" by (auto split: option.splits)
  have "payload \<noteq> [] \<and> length payload < 2 ^ 63"
    using prot payload(1) v11 by (auto simp: sample_lib_def Prot_MakePeerShare_def V9_MakePeerShare_def
        V10_MakePeerShare_def sample_jm_def sample_jmS_def v9_share_def)
  with payload(2,3) show "\<exists>payload. sharePeers sample_lib 0 [?ep] ?s = send_to (Some (newParcel TypePeerResponse payload)) 0 ?s
    \<and> processPeerShare sample_lib (\<lambda>_. 5) 1 (newParcel TypePeerResponse payload) ?s = [?ep]" by auto
qed

end
