(* ===== verification/Routing.thy ===== *)
theory Routing
  imports Sharing
begin

section \<open>Routing\<close>

text \<open>
  \<open>controller_routing.go\<close>: \<open>route\<close> takes the parcels of the application to the peers, \<open>manageData\<close> handles
  what arrives from the peers. One turn of each loop is a function. A turn that takes place gives the new
  state; it may also have to wait, or panic.
\<close>

datatype 's turn = Next 's | Waits | Panics

fun turn_of :: "'s option \<Rightarrow> 's turn" where
  "turn_of None = Panics"
| "turn_of (Some s) = Next s"

subsection \<open>Choosing peers\<close>

text \<open>The loop of \<open>randomPeerConditional\<close>. The condition may read the clock, so each of its calls is one of its own:
  the first argument is the number of the call.\<close>

primrec satisfying :: "(nat \<Rightarrow> Peer \<Rightarrow> bool) \<Rightarrow> (peer_ref \<Rightarrow> Peer) \<Rightarrow> peer_ref list \<Rightarrow> peer_ref list" where
  "satisfying condition h [] = []"
| "satisfying condition h (p # ps) =
     (if condition 0 (h p) then p # satisfying (\<lambda>i. condition (Suc i)) h ps else satisfying (\<lambda>i. condition (Suc i)) h ps)"

definition randomPeerConditional :: "(nat \<Rightarrow> Peer \<Rightarrow> bool) \<Rightarrow> NetState \<Rightarrow> peer_ref option \<times> NetState" where
  "randomPeerConditional condition s =
     (let (peers, s) = slice_peers s;
          filtered = satisfying condition (n_heap s) peers
      in if length filtered > 0
         then let (i, rnd) = Intn (n_rng s) (length filtered) in (Some (filtered ! i), s\<lparr>n_rng := rnd\<rparr>)
         else (None, s))"

definition randomPeer :: "NetState \<Rightarrow> peer_ref option \<times> NetState" where
  "randomPeer s =
     (let (peers, s) = slice_peers s
      in if length peers > 0
         then let (i, rnd) = Intn (n_rng s) (length peers) in (Some (peers ! i), s\<lparr>n_rng := rnd\<rparr>)
         else (None, s))"

text \<open>The loop of \<open>selectNoResendPeers\<close>; a peer without a filter is a nil pointer, and a panic.\<close>

primrec no_resend :: "(peer_ref \<Rightarrow> Peer) \<Rightarrow> hash \<Rightarrow> peer_ref list \<Rightarrow> peer_ref list \<Rightarrow> peer_ref list option" where
  "no_resend h hsh [] filtered = Some filtered"
| "no_resend h hsh (p # ps) filtered =
     (case p_resend (h p) of
        None \<Rightarrow> None
      | Some c \<Rightarrow> no_resend h hsh ps (if \<not> HashCache_Has c hsh then filtered @ [p] else filtered))"

definition selectNoResendPeers :: "Lib \<Rightarrow> bytes \<Rightarrow> NetState \<Rightarrow> (peer_ref list \<times> NetState) option" where
  "selectNoResendPeers lib payload s =
     (let (all, s) = slice_peers s
      in if length all = 0 then Some ([], s)
         else map_option (\<lambda>filtered. (filtered, s)) (no_resend (n_heap s) (lib_sha1 lib payload) all []))"

definition selectBroadcastPeers :: "peer_ref list \<Rightarrow> uint \<Rightarrow> NetState \<Rightarrow> peer_ref list \<times> NetState" where
  "selectBroadcastPeers peers fanout s =
     (if length peers \<le> unat fanout then (peers, s)
      else
        let special = filter (\<lambda>p. isSpecial (ep_of s p) s) peers;
            regular = filter (\<lambda>p. \<not> isSpecial (ep_of s p) s) peers
        in if length regular < unat fanout then (special @ regular, s)
           else let (regular, rnd) = Shuffle (n_rng s) regular
                in (special @ take (unat fanout) regular, s\<lparr>n_rng := rnd\<rparr>))"

subsection \<open>One parcel of the application\<close>

definition broadcast_peers :: "Lib \<Rightarrow> bytes \<Rightarrow> NetState \<Rightarrow> (peer_ref list \<times> NetState) option" where
  "broadcast_peers lib payload s =
     (if cf_PeerResendFilter (n_conf s) then selectNoResendPeers lib payload s else Some (slice_peers s))"

definition route_parcel :: "Lib \<Rightarrow> Parcel \<Rightarrow> NetState \<Rightarrow> NetState option" where
  "route_parcel lib parcel s =
     (if Address parcel = FullBroadcast then
        (case broadcast_peers lib (Payload parcel) s of
           None \<Rightarrow> None
         | Some (selection, s) \<Rightarrow> for_each (send_to (Some parcel)) selection s)
      else if Address parcel = Broadcast then
        (case broadcast_peers lib (Payload parcel) s of
           None \<Rightarrow> None
         | Some (selection, s) \<Rightarrow>
             (let (selection, s) = selectBroadcastPeers selection (cf_Fanout (n_conf s)) s
              in for_each (send_to (Some parcel)) selection s))
      else if Address parcel = [] \<or> Address parcel = RandomPeer then
        (case randomPeer s of
           (Some random, s) \<Rightarrow> send_to (Some parcel) random s
         | (None, s) \<Rightarrow> Some s)
      else
        (case PeerStore_Get (c_peers s) (Address parcel) of
           Some p \<Rightarrow> send_to (Some parcel) p s
         | None \<Rightarrow> Some s))"

text \<open>A turn of \<open>route\<close>. A nil parcel in the channel is dereferenced.\<close>

definition route_step :: "Lib \<Rightarrow> NetState \<Rightarrow> NetState turn" where
  "route_step lib s =
     (case Channel_Receive (n_toNetwork s) of
        None \<Rightarrow> Waits
      | Some (x, ch) \<Rightarrow>
          (case Option.bind x id of
             None \<Rightarrow> Panics
           | Some parcel \<Rightarrow> turn_of (route_parcel lib parcel (s\<lparr>n_toNetwork := ch\<rparr>))))"

subsection \<open>One parcel from a peer\<close>

text \<open>A turn of \<open>manageData\<close>, which has received the parcel \<open>pp\<close>. The send to \<open>async\<close> waits when nobody has
  taken the previous response yet.\<close>

definition manageData_parcel :: "time \<Rightarrow> time \<Rightarrow> peer_ref option \<times> Parcel \<Rightarrow> NetState \<Rightarrow> NetState turn" where
  "manageData_parcel now1 now2 pp s =
     (case pp of (peer, parcel) \<Rightarrow>
      if peer = None \<and> \<not> IsApplicationMessage parcel then Next s
      else if ptype parcel = TypePing then
        (case peer of None \<Rightarrow> Panics | Some p \<Rightarrow> Next (s\<lparr>n_tasks := n_tasks s @ [T_Pong p]\<rparr>))
      else if ptype parcel = TypeMessage \<or> ptype parcel = TypeMessagePart then
        (case ParcelChannel_Send (Some (parcel\<lparr>ptype := TypeMessage\<rparr>)) (n_fromNetwork s) of
           None \<Rightarrow> Panics
         | Some (_, dropped, ch) \<Rightarrow> Next (s\<lparr>n_fromNetwork := ch\<rparr>))
      else if ptype parcel = TypePeerRequest then
        (case peer of
           None \<Rightarrow> Panics
         | Some p \<Rightarrow>
             if Since now1 (p_lastPeerRequest (n_heap s p)) \<ge> cf_PeerRequestInterval (n_conf s)
             then let s = s\<lparr>n_heap := (n_heap s)(p := (n_heap s p)\<lparr>p_lastPeerRequest := now2\<rparr>)\<rparr>;
                      (share, s) = makePeerShare (ep_of s p) s
                  in Next (s\<lparr>n_tasks := n_tasks s @ [T_SharePeers p share]\<rparr>)
             else Next s)
      else if ptype parcel = TypePeerResponse then
        (case peer of
           None \<Rightarrow> Panics
         | Some p \<Rightarrow>
             (case c_shareListener s (pk_Hash (n_heap s p)) of
                None \<Rightarrow> Next s
              | Some async \<Rightarrow>
                  if length (ch_buf async) < ch_cap async
                  then Next (s\<lparr>c_shareListener := (c_shareListener s)
                         (pk_Hash (n_heap s p) \<mapsto> async\<lparr>ch_buf := ch_buf async @ [parcel]\<rparr>)\<rparr>)
                  else Waits))
      else Next s)"

definition manageData_step :: "time \<Rightarrow> time \<Rightarrow> NetState \<Rightarrow> NetState turn" where
  "manageData_step now1 now2 s =
     (case c_peerData s of
        [] \<Rightarrow> Waits
      | pp # pps \<Rightarrow> manageData_parcel now1 now2 pp (s\<lparr>c_peerData := pps\<rparr>))"

text \<open>The goroutine that answers a ping.\<close>

definition send_pong :: "peer_ref \<Rightarrow> NetState \<Rightarrow> NetState option" where
  "send_pong peer s = send_to (Some (newParcel TypePong (string_bytes ''Pong''))) peer s"

subsection \<open>Facts\<close>

text \<open>The state after a parcel was put into the queues of the peers \<open>R\<close>.\<close>

definition sent_to :: "Parcel option \<Rightarrow> peer_ref set \<Rightarrow> NetState \<Rightarrow> NetState" where
  "sent_to x R s = s\<lparr>n_heap := \<lambda>r. if r \<in> R then the (Peer_Send x (n_heap s r)) else n_heap s r\<rparr>"

lemma sent_to_empty [simp]: "sent_to x {} s = s"
  by (simp add: sent_to_def)

lemma send_to_sent:
  assumes "net_inv s" and "r < n_next s"
  shows "send_to x r s = Some (sent_to x {r} s)" "net_inv (sent_to x {r} s)"
proof -
  from send_to_inv [OF assms, of x] obtain s' p where s': "send_to x r s = Some s'" "net_inv s'"
    "s' = s\<lparr>n_heap := (n_heap s)(r := p)\<rparr>" "Peer_Send x (n_heap s r) = Some p" by blast
  then have "s' = sent_to x {r} s" by (auto simp: sent_to_def fun_upd_def intro!: NetState.fold_congs)
  with s' show "send_to x r s = Some (sent_to x {r} s)" "net_inv (sent_to x {r} s)" by simp_all
qed

lemma sent_to_Un: "r \<notin> R \<Longrightarrow> sent_to x R (sent_to x {r} s) = sent_to x (insert r R) s"
  by (auto simp: sent_to_def fun_eq_iff intro!: NetState.fold_congs)

lemma for_each_send:
  assumes "net_inv s" and "distinct rs" and "\<And>r. r \<in> set rs \<Longrightarrow> r < n_next s"
  shows "for_each (send_to x) rs s = Some (sent_to x (set rs) s) \<and> net_inv (sent_to x (set rs) s)"
  using assms
proof (induction rs arbitrary: s)
  case (Cons r rs)
  note r = send_to_sent [OF Cons.prems(1), of r x]
  have "n_next (sent_to x {r} s) = n_next s" by (simp add: sent_to_def)
  with Cons.IH [of "sent_to x {r} s"] Cons.prems r show ?case by (auto simp: sent_to_Un)
qed simp

lemma no_resend_eq:
  "(\<And>p. p \<in> set ps \<Longrightarrow> p_resend (h p) \<noteq> None) \<Longrightarrow>
   no_resend h hsh ps acc = Some (acc @ filter (\<lambda>p. \<not> HashCache_Has (the (p_resend (h p))) hsh) ps)"
  by (induction ps arbitrary: acc) (auto split: option.splits)

text \<open>The peers a payload may be broadcast to: with the filter on, those that have not sent it themselves.\<close>

definition eligible :: "Lib \<Rightarrow> bytes \<Rightarrow> NetState \<Rightarrow> peer_ref set" where
  "eligible lib payload s = {r \<in> set (peers_of (c_peers s)).
     cf_PeerResendFilter (n_conf s) \<longrightarrow> (\<forall>c. p_resend (n_heap s r) = Some c \<longrightarrow> \<not> HashCache_Has c (lib_sha1 lib payload))}"

text \<open>Reading the peer list changes the random source and the cached list only.\<close>

definition reshuffled :: "NetState \<Rightarrow> NetState \<Rightarrow> bool" where
  "reshuffled s s' \<longleftrightarrow> (\<exists>ps rnd. s' = s\<lparr>c_peers := ps, n_rng := rnd\<rparr> \<and> ps_peers ps = ps_peers (c_peers s))"

lemma reshuffled_frame [frame_simps]:
  assumes "reshuffled s s'"
  shows "n_heap s' = n_heap s" "n_next s' = n_next s" "n_conf s' = n_conf s" "c_special s' = c_special s"
    "peers_of (c_peers s') = peers_of (c_peers s)" "isSpecial ep s' = isSpecial ep s"
    "n_tasks s' = n_tasks s" "bans_of s' = bans_of s" "c_shareListener s' = c_shareListener s"
    "c_peerData s' = c_peerData s" "n_fromNetwork s' = n_fromNetwork s" "c_dialer s' = c_dialer s"
    "n_stopped s' = n_stopped s" "c_peerStatus s' = c_peerStatus s" "PeerStore_Get (c_peers s') k = PeerStore_Get (c_peers s) k"
  using assms by (auto simp: reshuffled_def peers_of_def isSpecial_def PeerStore_Get_def)

lemma reshuffled_rng: "reshuffled s s' \<Longrightarrow> reshuffled s (s'\<lparr>n_rng := r\<rparr>)"
  by (fastforce simp: reshuffled_def)

lemma reshuffled_trans: "reshuffled s t \<Longrightarrow> reshuffled t u \<Longrightarrow> reshuffled s u"
  by (fastforce simp: reshuffled_def)

lemma reshuffled_refl: "reshuffled s s" "reshuffled s (s\<lparr>n_rng := r\<rparr>)"
proof -
  have "s = s\<lparr>c_peers := c_peers s, n_rng := n_rng s\<rparr>" by simp
  then show "reshuffled s s" unfolding reshuffled_def by blast
  then show "reshuffled s (s\<lparr>n_rng := r\<rparr>)" by (rule reshuffled_rng)
qed

lemma slice_reshuffled:
  assumes "net_inv s" and "slice_peers s = (rs, s')"
  shows "reshuffled s s'" "net_inv s'" "set rs = set (peers_of (c_peers s))" "distinct rs"
    "\<And>r. r \<in> set rs \<Longrightarrow> r < n_next s'"
proof -
  note sl = slice_peers_inv [OF assms]
  show r: "reshuffled s s'" using sl(5) by (simp add: reshuffled_def)
  show "net_inv s'" "set rs = set (peers_of (c_peers s))" by (fact sl)+
  show "distinct rs"
    using distinct_peers [OF net_invD(1) [OF assms(1)]] mset_eq_imp_distinct_iff [OF sl(2)] by simp
  show "\<And>r. r \<in> set rs \<Longrightarrow> r < n_next s'" using sl(4) reshuffled_frame(2) [OF r] by simp
qed

lemma randomPeer_inv:
  assumes "net_inv s" and "randomPeer s = (x, s')"
  shows "reshuffled s s'" "net_inv s'"
    "case x of None \<Rightarrow> peers_of (c_peers s) = [] | Some r \<Rightarrow> r \<in> set (peers_of (c_peers s))"
proof -
  obtain rs s1 where sl: "slice_peers s = (rs, s1)" by (rule prod.exhaust)
  note inv = slice_reshuffled [OF assms(1) sl]
  have i: "rs \<noteq> [] \<Longrightarrow> rs ! fst (Intn (n_rng s1) (length rs)) \<in> set rs" by (simp add: Intn_less)
  show "reshuffled s s'" "net_inv s'"
    using assms(2) inv(1,2) sl by (auto simp: randomPeer_def Let_def reshuffled_rng split: prod.splits if_splits)
  show "case x of None \<Rightarrow> peers_of (c_peers s) = [] | Some r \<Rightarrow> r \<in> set (peers_of (c_peers s))"
    using assms(2) inv(3) sl i by (auto simp: randomPeer_def Let_def split: prod.splits if_splits)
qed

lemma satisfying_sound: "r \<in> set (satisfying cond h ps) \<Longrightarrow> r \<in> set ps \<and> (\<exists>i. cond i (h r))"
  by (induction ps arbitrary: cond) (auto split: if_splits)

lemma satisfying_complete: "r \<in> set ps \<Longrightarrow> \<forall>i. cond i (h r) \<Longrightarrow> r \<in> set (satisfying cond h ps)"
  by (induction ps arbitrary: cond) auto

lemma randomPeerConditional_inv:
  assumes "net_inv s" and "randomPeerConditional cond s = (x, s')"
  shows "reshuffled s s'" "net_inv s'"
    "case x of None \<Rightarrow> \<forall>r \<in> set (peers_of (c_peers s)). \<exists>i. \<not> cond i (n_heap s r)
       | Some r \<Rightarrow> r \<in> set (peers_of (c_peers s)) \<and> (\<exists>i. cond i (n_heap s r))"
proof -
  obtain rs s1 where sl: "slice_peers s = (rs, s1)" by (rule prod.exhaust)
  note inv = slice_reshuffled [OF assms(1) sl]
  let ?f = "satisfying cond (n_heap s) rs"
  have i: "?f \<noteq> [] \<Longrightarrow> ?f ! fst (Intn (n_rng s1) (length ?f)) \<in> set ?f"
    by (rule nth_mem, rule Intn_less) simp
  show "reshuffled s s'" "net_inv s'"
    using assms(2) inv(1,2) sl
    by (auto simp: randomPeerConditional_def Let_def reshuffled_rng split: prod.splits if_splits)
  have "(case x of None \<Rightarrow> ?f = [] | Some r \<Rightarrow> r \<in> set ?f)"
    using assms(2) sl i reshuffled_frame(1) [OF inv(1)]
    by (auto simp: randomPeerConditional_def Let_def split: prod.splits if_splits)
  then show "case x of None \<Rightarrow> \<forall>r \<in> set (peers_of (c_peers s)). \<exists>i. \<not> cond i (n_heap s r)
       | Some r \<Rightarrow> r \<in> set (peers_of (c_peers s)) \<and> (\<exists>i. cond i (n_heap s r))"
    using satisfying_sound [of _ cond "n_heap s" rs] satisfying_complete [of _ rs cond "n_heap s"] inv(3)
    by (fastforce split: option.splits)
qed

lemma broadcast_peers_inv:
  assumes "net_inv s"
  shows "\<exists>rs s'. broadcast_peers lib payload s = Some (rs, s') \<and> reshuffled s s' \<and> net_inv s' \<and> distinct rs
    \<and> set rs = eligible lib payload s"
proof -
  obtain rs s1 where sl: "slice_peers s = (rs, s1)" by (rule prod.exhaust)
  note inv = slice_reshuffled [OF assms sl] and fr = reshuffled_frame [OF slice_reshuffled(1) [OF assms sl]]
  show ?thesis
  proof (cases "cf_PeerResendFilter (n_conf s)")
    case True
    with assms inv(3) net_invD(3) [OF assms] have c: "\<And>r. r \<in> set rs \<Longrightarrow> p_resend (n_heap s r) \<noteq> None"
      by (auto simp: net_inv_def)
    have "set (filter (\<lambda>p. \<not> HashCache_Has (the (p_resend (n_heap s p))) (lib_sha1 lib payload)) rs)
        = eligible lib payload s"
      using c inv(3) True by (fastforce simp: eligible_def)
    with True sl inv fr(1) no_resend_eq [of rs "n_heap s" _ "[]", OF c] show ?thesis
      by (auto simp: broadcast_peers_def selectNoResendPeers_def)
  next
    case False
    with sl inv show ?thesis by (auto simp: broadcast_peers_def eligible_def)
  qed
qed

text \<open>The selection for a broadcast: all special peers, and regular ones up to the fanout.\<close>

lemma selectBroadcastPeers_props:
  assumes "net_inv s" and "distinct peers" and "selectBroadcastPeers peers fanout s = (rs, s')"
  shows "reshuffled s s'" "net_inv s'" "distinct rs" "set rs \<subseteq> set peers"
    "{r \<in> set peers. isSpecial (ep_of s r) s} \<subseteq> set rs"
    "card {r \<in> set rs. \<not> isSpecial (ep_of s r) s} = min (unat fanout) (card {r \<in> set peers. \<not> isSpecial (ep_of s r) s})"
proof -
  let ?P = "\<lambda>r. isSpecial (ep_of s r) s"
  let ?sp = "filter ?P peers" and ?re = "filter (\<lambda>r. \<not> ?P r) peers"
  obtain sh rnd where sh: "Shuffle (n_rng s) ?re = (sh, rnd)" by (rule prod.exhaust)
  have sh': "set sh = set ?re" "distinct sh" "length sh = length ?re"
    using set_Shuffle [of "n_rng s" ?re] distinct_Shuffle [of "n_rng s" ?re] length_Shuffle [of "n_rng s" ?re]
      assms(2) sh by simp_all
  have len: "card {r \<in> set xs. \<not> ?P r} = length (filter (\<lambda>r. \<not> ?P r) xs)" if "distinct xs" for xs
    using that by (metis distinct_card distinct_filter set_filter)
  have t: "set (take (unat fanout) sh) \<subseteq> set ?re" using sh'(1) set_take_subset [of _ sh] by simp
  have s': "s' = s \<or> s' = s\<lparr>n_rng := rnd\<rparr>"
    using assms(3) sh by (simp add: selectBroadcastPeers_def Let_def split: if_splits)
  then show "reshuffled s s'" "net_inv s'" using assms(1) by (auto simp: reshuffled_refl)
  have rs: "rs = (if length peers \<le> unat fanout then peers
      else ?sp @ (if length ?re < unat fanout then ?re else take (unat fanout) sh))"
    using assms(3) sh by (auto simp: selectBroadcastPeers_def Let_def split: if_splits)
  show "distinct rs"
  proof -
    have "set ?sp \<inter> set ?re = {}" by auto
    with t assms(2) sh'(2) show ?thesis unfolding rs by (auto simp del: set_filter)
  qed
  show "set rs \<subseteq> set peers" using t unfolding rs by auto
  show "{r \<in> set peers. ?P r} \<subseteq> set rs" unfolding rs by auto
  have "{r \<in> set rs. \<not> ?P r} = (if length ?re < unat fanout \<or> length peers \<le> unat fanout then set ?re
      else set (take (unat fanout) sh))"
    using t unfolding rs by auto
  moreover have "card (set (take (unat fanout) sh)) = min (unat fanout) (length ?re)"
    using sh'(2,3) by (simp add: distinct_card min.commute)
  moreover have "card (set ?re) = length ?re" using assms(2) by (metis distinct_card distinct_filter)
  moreover have "length peers \<le> unat fanout \<longrightarrow> length ?re \<le> unat fanout"
    using le_trans [OF length_filter_le] by blast
  ultimately show "card {r \<in> set rs. \<not> ?P r} = min (unat fanout) (card {r \<in> set peers. \<not> ?P r})"
    by (auto simp del: set_filter simp: len [OF assms(2)] min_def split: if_splits)
qed

lemma net_inv_toNetwork [simp]:
  "net_inv s \<Longrightarrow> channel_open ch \<Longrightarrow> None \<notin> set (ch_buf ch) \<Longrightarrow> net_inv (s\<lparr>n_toNetwork := ch\<rparr>)"
  "net_inv s \<Longrightarrow> channel_open ch \<Longrightarrow> net_inv (s\<lparr>n_fromNetwork := ch\<rparr>)"
  by (simp_all add: net_inv_def)

lemma net_inv_tasks:
  "net_inv s \<Longrightarrow> (\<And>t r. t \<in> set ts \<Longrightarrow> r \<in> task_refs t \<Longrightarrow> r < n_next s) \<Longrightarrow> net_inv (s\<lparr>n_tasks := n_tasks s @ ts\<rparr>)"
  by (auto simp: net_inv_def)

lemma net_inv_listener [simp]: "net_inv (s\<lparr>c_shareListener := l\<rparr>) = net_inv s"
  by (simp add: net_inv_def)

lemma net_inv_peerData: "net_inv s \<Longrightarrow> set pps \<subseteq> set (c_peerData s) \<Longrightarrow> net_inv (s\<lparr>c_peerData := pps\<rparr>)"
  by (fastforce simp: net_inv_def)

lemma for_each_send_reshuffled:
  assumes "net_inv s" and "reshuffled s s1" and "net_inv s1" and "distinct rs" and "set rs \<subseteq> set (peers_of (c_peers s))"
  shows "for_each (send_to x) rs s1 = Some (sent_to x (set rs) s1) \<and> net_inv (sent_to x (set rs) s1)"
proof (rule for_each_send [OF assms(3,4)])
  fix r
  assume "r \<in> set rs"
  with assms(5) net_invD(3) [OF assms(1)] reshuffled_frame(2) [OF assms(2)] show "r < n_next s1" by auto
qed

subsection \<open>Properties\<close>

text \<open>Which peers \<open>R\<close> a parcel of the application goes to.\<close>

definition route_spec :: "Lib \<Rightarrow> Parcel \<Rightarrow> NetState \<Rightarrow> peer_ref set \<Rightarrow> bool" where
  "route_spec lib parcel s R =
     (let E = eligible lib (Payload parcel) s;
          regular = (\<lambda>r. \<not> isSpecial (ep_of s r) s)
      in if Address parcel = FullBroadcast then R = E
         else if Address parcel = Broadcast then
           R \<subseteq> E \<and> {r \<in> E. \<not> regular r} \<subseteq> R
           \<and> card {r \<in> R. regular r} = min (unat (cf_Fanout (n_conf s))) (card {r \<in> E. regular r})
         else if Address parcel = [] \<or> Address parcel = RandomPeer then
           (if peers_of (c_peers s) = [] then R = {} else \<exists>r \<in> set (peers_of (c_peers s)). R = {r})
         else R = (case PeerStore_Get (c_peers s) (Address parcel) of None \<Rightarrow> {} | Some r \<Rightarrow> {r}))"

lemma route_parcel_result:
  assumes "net_inv s"
  shows "\<exists>R s'. reshuffled s s' \<and> route_parcel lib parcel s = Some (sent_to (Some parcel) R s')
    \<and> net_inv (sent_to (Some parcel) R s') \<and> R \<subseteq> set (peers_of (c_peers s)) \<and> route_spec lib parcel s R"
proof -
  from broadcast_peers_inv [OF assms, of lib "Payload parcel"] obtain rs s1 where
    b: "broadcast_peers lib (Payload parcel) s = Some (rs, s1)" "reshuffled s s1" "net_inv s1" "distinct rs"
      "set rs = eligible lib (Payload parcel) s" by blast
  then have sub: "set rs \<subseteq> set (peers_of (c_peers s))" by (auto simp: eligible_def)
  consider (full) "Address parcel = FullBroadcast"
    | (broadcast) "Address parcel = Broadcast" "Address parcel \<noteq> FullBroadcast"
    | (random) "Address parcel = [] \<or> Address parcel = RandomPeer" "Address parcel \<noteq> FullBroadcast" "Address parcel \<noteq> Broadcast"
    | (single) "\<not> (Address parcel = [] \<or> Address parcel = RandomPeer)" "Address parcel \<noteq> FullBroadcast" "Address parcel \<noteq> Broadcast"
    by blast
  then show ?thesis
  proof cases
    case full
    from for_each_send_reshuffled [OF assms b(2-4) sub, of "Some parcel"] full b sub show ?thesis
      by (auto simp: route_parcel_def route_spec_def Let_def)
  next
    case broadcast
    obtain rs' s2 where sel: "selectBroadcastPeers rs (cf_Fanout (n_conf s1)) s1 = (rs', s2)" by (rule prod.exhaust)
    note p = selectBroadcastPeers_props [OF b(3,4) sel] and fr = reshuffled_frame [OF b(2)]
    have r: "reshuffled s s2" using b(2) p(1) by (rule reshuffled_trans)
    have "set rs' \<subseteq> set (peers_of (c_peers s))" using p(4) sub by blast
    from for_each_send_reshuffled [OF assms r p(2,3) this, of "Some parcel"]
    have "route_parcel lib parcel s = Some (sent_to (Some parcel) (set rs') s2)" "net_inv (sent_to (Some parcel) (set rs') s2)"
      using broadcast b(1) sel by (simp_all add: route_parcel_def)
    moreover have "route_spec lib parcel s (set rs')"
      using broadcast p(4-6) b(5) fr(1,3,6) by (simp add: route_spec_def Let_def)
    ultimately show ?thesis using r \<open>set rs' \<subseteq> set (peers_of (c_peers s))\<close> by blast
  next
    case random
    obtain x s2 where x: "randomPeer s = (x, s2)" by (rule prod.exhaust)
    note p = randomPeer_inv [OF assms x]
    show ?thesis
    proof (cases x)
      case None
      with x p random show ?thesis
        by (intro exI [of _ "{}"] exI [of _ s2]) (simp add: route_parcel_def route_spec_def)
    next
      case (Some r)
      with p(3) net_invD(3) [OF assms] reshuffled_frame(2) [OF p(1)] have "r \<in> set (peers_of (c_peers s))" "r < n_next s2"
        by auto
      with Some x p send_to_sent [OF p(2), of r "Some parcel"] random show ?thesis
        by (intro exI [of _ "{r}"] exI [of _ s2]) (auto simp: route_parcel_def route_spec_def)
    qed
  next
    case single
    show ?thesis
    proof (cases "PeerStore_Get (c_peers s) (Address parcel)")
      case None
      with single assms show ?thesis
        by (intro exI [of _ "{}"] exI [of _ s]) (simp add: route_parcel_def route_spec_def reshuffled_refl)
    next
      case (Some r)
      with Get_iff [OF net_invD(1) [OF assms]] net_invD(3) [OF assms]
      have "r \<in> set (peers_of (c_peers s))" "r < n_next s" by blast+
      with single Some send_to_sent [OF assms, of r "Some parcel"] show ?thesis
        by (intro exI [of _ "{r}"] exI [of _ s]) (simp add: route_parcel_def route_spec_def reshuffled_refl)
    qed
  qed
qed

text \<open>C6: parcels are routed by their address: a full broadcast goes to every connected peer that has not sent
  the payload itself within the memory of its resend filter; a broadcast goes to all special peers among
  these and to as many regular ones as the fanout allows; a parcel without an address or for a random peer
  goes to exactly one connected peer, if there is one; any other address is the hash of the only peer the
  parcel goes to. Routing never panics, puts the parcel into the queues of exactly these peers, once each,
  and changes nothing else. (The comments say otherwise in two points: that an empty address is for broadcast,
  \<open>parcel.go:29\<close>, and that a full broadcast goes to all peers, \<open>parcel.go:23\<close>, \<open>configuration.go:12\<close> and the README,
  line 67. The code sends a parcel without an address to one random peer, and leaves out the peers whose resend
  filter knows the payload.)\<close>

theorem route_correct:
  assumes "net_inv s"
  shows "\<exists>R s'. reshuffled s s' \<and> route_parcel lib parcel s = Some (sent_to (Some parcel) R s')
    \<and> net_inv (sent_to (Some parcel) R s') \<and> R \<subseteq> set (peers_of (c_peers s)) \<and> route_spec lib parcel s R"
  by (rule route_parcel_result [OF assms])

theorem route_correct_witness:
  "\<exists>s'. reshuffled sample_net s' \<and> route_parcel sample_lib (NewParcel FullBroadcast [1]) sample_net
     = Some (sent_to (Some (NewParcel FullBroadcast [1])) {0, 1} s')"
proof -
  have "eligible sample_lib [1] sample_net = {0, 1}"
    by (auto simp: eligible_def sample_net_def sample_peers sample_peer_def newPeer_def NewPeerHashCache_def
        DefaultP2PConfiguration_def duration_defs HashCache_Has_def phcBucket_Has_def newphcBucket_def
        list_ex_iff ptr_def)
  then show ?thesis
    using route_correct [OF sample_net_inv, of sample_lib "NewParcel FullBroadcast [1]"]
    by (auto simp: route_spec_def NewParcel_def newParcel_def)
qed

text \<open>One branch of \<open>manageData\<close> at a time.\<close>

lemma manageData_app:
  assumes "net_inv s" and "IsApplicationMessage parcel"
  shows "\<exists>d ch. manageData_parcel t1 t2 (peer, parcel) s = Next (s\<lparr>n_fromNetwork := ch\<rparr>)
    \<and> net_inv (s\<lparr>n_fromNetwork := ch\<rparr>)
    \<and> ch_buf ch = drop d (ch_buf (n_fromNetwork s)) @ [Some (parcel\<lparr>ptype := TypeMessage\<rparr>)]
    \<and> (length (ch_buf (n_fromNetwork s)) < ch_cap (n_fromNetwork s) \<longrightarrow> d = 0)"
proof -
  let ?x = "Some (parcel\<lparr>ptype := TypeMessage\<rparr>)" and ?ch = "n_fromNetwork s"
  have o: "channel_open ?ch" using assms(1) by (simp add: net_inv_def)
  define d where "d = (if length (ch_buf ?ch) < ch_cap ?ch then 0 else length (ch_buf ?ch) - ch_cap ?ch div 2)"
  from Send_open [of ?ch ?x] o have send: "ParcelChannel_Send ?x ?ch = Some (True, d, ?ch\<lparr>ch_buf := drop d (ch_buf ?ch) @ [?x]\<rparr>)"
    by (simp add: channel_open_def d_def)
  moreover from parcel_channel.send_usable [OF o, of ?x] send
  have "channel_open (?ch\<lparr>ch_buf := drop d (ch_buf ?ch) @ [?x]\<rparr>)" by auto
  ultimately show ?thesis using assms
    by (intro exI [of _ d] exI [of _ "?ch\<lparr>ch_buf := drop d (ch_buf ?ch) @ [?x]\<rparr>"])
      (auto simp: manageData_parcel_def IsApplicationMessage_def d_def ParcelType_defs)
qed

lemma manageData_request:
  fixes t1 t2 :: time
  assumes "net_inv s" and "p < n_next s" and "ptype parcel = TypePeerRequest"
  defines "early \<equiv> Since t1 (p_lastPeerRequest (n_heap s p)) < cf_PeerRequestInterval (n_conf s)"
  shows "\<exists>s'. manageData_parcel t1 t2 (Some p, parcel) s = Next s' \<and> net_inv s'
    \<and> (if early then s' = s
       else \<exists>share s1. makePeerShare (ep_of s p) (s\<lparr>n_heap := (n_heap s)(p := (n_heap s p)\<lparr>p_lastPeerRequest := t2\<rparr>)\<rparr>) = (share, s1)
         \<and> s' = s1\<lparr>n_tasks := n_tasks s @ [T_SharePeers p share]\<rparr>)"
proof (cases early)
  case True
  with assms(1-3) show ?thesis by (simp add: manageData_parcel_def IsApplicationMessage_def ParcelType_defs early_def)
next
  case False
  let ?s = "s\<lparr>n_heap := (n_heap s)(p := (n_heap s p)\<lparr>p_lastPeerRequest := t2\<rparr>)\<rparr>"
  have inv: "net_inv ?s"
    using assms(1,2) by (intro net_inv_heap) (simp_all add: net_inv_def peer_ok_def PeerConsts.truncate_def)
  obtain share s1 where m: "makePeerShare (ep_of s p) ?s = (share, s1)" by (rule prod.exhaust)
  note share = makePeerShare_inv [OF inv m]
  have t: "n_tasks s1 = n_tasks s" "n_next s1 = n_next s" using share(2) by auto
  have "net_inv (s1\<lparr>n_tasks := n_tasks s1 @ [T_SharePeers p share]\<rparr>)"
    using share(1) assms(2) t by (intro net_inv_tasks) auto
  with False assms(3) m t show ?thesis
    by (auto simp: manageData_parcel_def IsApplicationMessage_def ParcelType_defs early_def not_less Let_def)
qed

lemma manageData_response:
  fixes p :: peer_ref and s :: NetState
  assumes "ptype parcel = TypePeerResponse"
  defines "k \<equiv> pk_Hash (n_heap s p)"
  shows "manageData_parcel t1 t2 (Some p, parcel) s =
    (case c_shareListener s k of
       None \<Rightarrow> Next s
     | Some async \<Rightarrow>
         if length (ch_buf async) < ch_cap async
         then Next (s\<lparr>c_shareListener := (c_shareListener s)(k \<mapsto> async\<lparr>ch_buf := ch_buf async @ [parcel]\<rparr>)\<rparr>)
         else Waits)"
  using assms(1) unfolding k_def by (simp add: manageData_parcel_def IsApplicationMessage_def ParcelType_defs)

lemma manageData_ping:
  "ptype parcel = TypePing \<Longrightarrow>
   manageData_parcel t1 t2 (Some p, parcel) s = Next (s\<lparr>n_tasks := n_tasks s @ [T_Pong p]\<rparr>)"
  by (simp add: manageData_parcel_def)

lemma manageData_rest:
  "\<not> IsApplicationMessage parcel \<Longrightarrow> manageData_parcel t1 t2 (None, parcel) s = Next s"
  "\<not> IsApplicationMessage parcel \<Longrightarrow> ptype parcel \<notin> {TypePing, TypePeerRequest, TypePeerResponse} \<Longrightarrow>
   manageData_parcel t1 t2 (Some p, parcel) s = Next s"
  by (simp_all add: manageData_parcel_def IsApplicationMessage_def)

lemma manageData_inv:
  assumes "net_inv s" and "\<And>p. peer = Some p \<Longrightarrow> p < n_next s"
  shows "case manageData_parcel t1 t2 (peer, parcel) s of Next s' \<Rightarrow> net_inv s' | Waits \<Rightarrow> True | Panics \<Rightarrow> False"
proof -
  consider "IsApplicationMessage parcel" | "\<not> IsApplicationMessage parcel" "peer = None"
    | p where "peer = Some p" "ptype parcel = TypePing"
    | p where "peer = Some p" "ptype parcel = TypePeerRequest"
    | p where "peer = Some p" "ptype parcel = TypePeerResponse"
    | p where "peer = Some p" "\<not> IsApplicationMessage parcel" "ptype parcel \<notin> {TypePing, TypePeerRequest, TypePeerResponse}"
    by (cases peer) auto
  then show ?thesis
  proof cases
    case 1
    from manageData_app [OF assms(1) this, of t1 t2 peer] show ?thesis by auto
  next
    case 2
    with assms(1) show ?thesis by (simp add: manageData_rest)
  next
    case 3
    then have "net_inv (s\<lparr>n_tasks := n_tasks s @ [T_Pong p]\<rparr>)"
      using assms by (intro net_inv_tasks) auto
    with 3 show ?thesis by (simp add: manageData_ping)
  next
    case 4
    with manageData_request [OF assms(1), of p parcel t1 t2] assms(2) show ?thesis by auto
  next
    case 5
    with assms(1) show ?thesis
      by (simp add: manageData_response split: option.split)
  next
    case 6
    with assms(1) show ?thesis by (simp add: manageData_rest)
  qed
qed

text \<open>C8: what arrives from a peer is handled by its type, without a panic and with the invariant kept: an
  application message is handed to the application as a message, behind the others and with none lost while
  there is room, even if its peer is gone; a ping starts a pong to its sender; a peer request is answered,
  with a share that does not name the peer itself and is not longer than allowed, unless it comes less than
  the request interval after the last one that was answered; a peer response goes to the request that is
  waiting for it, if any.\<close>

theorem manageData_correct:
  assumes "net_inv s" and "p < n_next s" and "0 < cf_PeerShareAmount (n_conf s)"
  shows "(IsApplicationMessage parcel \<longrightarrow>
      (\<exists>d ch. manageData_parcel t1 t2 (peer, parcel) s = Next (s\<lparr>n_fromNetwork := ch\<rparr>)
        \<and> ch_buf ch = drop d (ch_buf (n_fromNetwork s)) @ [Some (parcel\<lparr>ptype := TypeMessage\<rparr>)]
        \<and> (length (ch_buf (n_fromNetwork s)) < ch_cap (n_fromNetwork s) \<longrightarrow> d = 0)))
    \<and> (ptype parcel = TypePing \<longrightarrow>
        manageData_parcel t1 t2 (Some p, parcel) s = Next (s\<lparr>n_tasks := n_tasks s @ [T_Pong p]\<rparr>))
    \<and> (ptype parcel = TypePeerRequest \<longrightarrow>
        (\<exists>s'. manageData_parcel t1 t2 (Some p, parcel) s = Next s'
          \<and> (if Since t1 (p_lastPeerRequest (n_heap s p)) < cf_PeerRequestInterval (n_conf s) then s' = s
             else \<exists>share. n_tasks s' = n_tasks s @ [T_SharePeers p share] \<and> ep_of s p \<notin> set share
               \<and> length share \<le> unat (cf_PeerShareAmount (n_conf s)) \<and> p_lastPeerRequest (n_heap s' p) = t2)))
    \<and> (ptype parcel = TypePeerResponse \<longrightarrow>
        (\<forall>async. c_shareListener s (pk_Hash (n_heap s p)) = Some async \<and> ch_buf async = [] \<and> 0 < ch_cap async \<longrightarrow>
          manageData_parcel t1 t2 (Some p, parcel) s = Next (s\<lparr>c_shareListener :=
            (c_shareListener s)(pk_Hash (n_heap s p) \<mapsto> async\<lparr>ch_buf := [parcel]\<rparr>)\<rparr>)))
    \<and> (case manageData_parcel t1 t2 (Some p, parcel) s of Next s' \<Rightarrow> net_inv s' | Waits \<Rightarrow> True | Panics \<Rightarrow> False)"
proof (intro conjI impI allI)
  assume r: "ptype parcel = TypePeerRequest"
  from manageData_request [OF assms(1,2) r, of t1 t2] obtain s' where
    s': "manageData_parcel t1 t2 (Some p, parcel) s = Next s'" and
    eff: "if Since t1 (p_lastPeerRequest (n_heap s p)) < cf_PeerRequestInterval (n_conf s) then s' = s
       else \<exists>share s1. makePeerShare (ep_of s p) (s\<lparr>n_heap := (n_heap s)(p := (n_heap s p)\<lparr>p_lastPeerRequest := t2\<rparr>)\<rparr>) = (share, s1)
         \<and> s' = s1\<lparr>n_tasks := n_tasks s @ [T_SharePeers p share]\<rparr>" by blast
  let ?s = "s\<lparr>n_heap := (n_heap s)(p := (n_heap s p)\<lparr>p_lastPeerRequest := t2\<rparr>)\<rparr>"
  have inv: "net_inv ?s"
    using assms(1,2) by (intro net_inv_heap) (simp_all add: net_inv_def peer_ok_def PeerConsts.truncate_def)
  have "\<exists>share. n_tasks s' = n_tasks s @ [T_SharePeers p share] \<and> ep_of s p \<notin> set share
      \<and> length share \<le> unat (cf_PeerShareAmount (n_conf s)) \<and> p_lastPeerRequest (n_heap s' p) = t2"
    if "\<not> Since t1 (p_lastPeerRequest (n_heap s p)) < cf_PeerRequestInterval (n_conf s)"
  proof -
    from eff that obtain share s1 where m: "makePeerShare (ep_of s p) ?s = (share, s1)"
      and s'eq: "s' = s1\<lparr>n_tasks := n_tasks s @ [T_SharePeers p share]\<rparr>" by auto
    from makePeerShare_inv(2,3) [OF inv m] obtain eps ps rnd where
      "share = share_pick (unat (cf_PeerShareAmount (n_conf s))) (ep_of s p) eps []"
      and s1: "s1 = ?s\<lparr>c_peers := ps, n_rng := rnd\<rparr>" by auto
    with assms(3) have "share = take (unat (cf_PeerShareAmount (n_conf s))) (filter (\<lambda>ep. ep \<noteq> ep_of s p) eps)"
      by (simp add: share_pick_eq word_less_nat_alt)
    then show ?thesis using s'eq s1 by (auto dest: in_set_takeD)
  qed
  with eff s' show "\<exists>s'. manageData_parcel t1 t2 (Some p, parcel) s = Next s'
      \<and> (if Since t1 (p_lastPeerRequest (n_heap s p)) < cf_PeerRequestInterval (n_conf s) then s' = s
         else \<exists>share. n_tasks s' = n_tasks s @ [T_SharePeers p share] \<and> ep_of s p \<notin> set share
           \<and> length share \<le> unat (cf_PeerShareAmount (n_conf s)) \<and> p_lastPeerRequest (n_heap s' p) = t2)"
    by auto
next
  show "case manageData_parcel t1 t2 (Some p, parcel) s of Next s' \<Rightarrow> net_inv s' | Waits \<Rightarrow> True | Panics \<Rightarrow> False"
    using manageData_inv [OF assms(1), of "Some p" t1 t2 parcel] assms(2) by simp
qed (use manageData_app [OF assms(1), of parcel t1 t2 peer] in
    \<open>auto simp: manageData_ping manageData_response\<close>)

theorem manageData_correct_witness:
  "manageData_parcel 5 5 (Some 0, newParcel TypePing [1]) sample_net = Next (sample_net\<lparr>n_tasks := [T_Pong 0]\<rparr>)
   \<and> (\<exists>ch. manageData_parcel 5 5 (None, newParcel TypeMessagePart [1]) sample_net = Next (sample_net\<lparr>n_fromNetwork := ch\<rparr>)
        \<and> ch_buf ch = [Some (newParcel TypeMessage [1])])"
proof -
  have s: "0 < n_next sample_net" "0 < cf_PeerShareAmount (n_conf sample_net)" "n_tasks sample_net = []"
    "n_fromNetwork sample_net = newParcelChannel 10"
    by (simp_all add: sample_net_def DefaultP2PConfiguration_def)
  note m = manageData_correct [OF sample_net_inv s(1,2), of _ 5 5 None]
  from m [of "newParcel TypePing [1]"] m [of "newParcel TypeMessagePart [1]"] s(3,4) show ?thesis
    by (auto simp: newParcel_def IsApplicationMessage_def newParcelChannel_def)
qed

end
