(* ===== verification/Limiter.thy ===== *)
theory Limiter
  imports GoLib
begin

section \<open>The limited listener\<close>

text \<open>
  \<open>limiter.go\<close>: a listener that refuses a second connection from the same host within a time limit.
  \<open>net.Listen\<close> and the accepting socket belong to the operating system: whether listening succeeds and
  what \<open>Accept\<close> of the socket returns (the remote address of a connection, or an error) are arguments.
  Every call of \<open>time.Now()\<close> is a clock reading of its own.
\<close>

record attempt =
  at_host :: string
  at_time :: time

record LimitedListener =
  ll_limit :: duration
  ll_lastConnection :: time
  ll_history :: "attempt list"

definition NewLimitedListener :: "(string \<Rightarrow> sys_error + unit) \<Rightarrow> string \<Rightarrow> duration \<Rightarrow> LimitedListener result" where
  "NewLimitedListener Listen address limit =
     (if limit < 0 then Inl (Conn ErrNegativeLimit)
      else case Listen address of
        Inl e \<Rightarrow> Inl (Sys e)
      | Inr _ \<Rightarrow> Inr \<lparr>ll_limit = limit, ll_lastConnection = 0, ll_history = []\<rparr>)"

definition clearHistory :: "time \<Rightarrow> LimitedListener \<Rightarrow> LimitedListener" where
  "clearHistory now ll =
     (let tl = now - ll_limit ll;
          ll = (if ll_lastConnection ll < tl then ll\<lparr>ll_history := []\<rparr> else ll)
      in if length (ll_history ll) > 0
         then ll\<lparr>ll_history := dropWhile (\<lambda>a. \<not> at_time a > tl) (ll_history ll)\<rparr>
         else ll)"

definition isInHistory :: "time \<Rightarrow> string \<Rightarrow> LimitedListener \<Rightarrow> bool \<times> LimitedListener" where
  "isInHistory now host ll =
     (let ll = clearHistory now ll in (list_ex (\<lambda>a. at_host a = host) (ll_history ll), ll))"

definition addToHistory :: "time \<Rightarrow> time \<Rightarrow> string \<Rightarrow> LimitedListener \<Rightarrow> LimitedListener" where
  "addToHistory now1 now2 host ll =
     (let ll = ll\<lparr>ll_history := ll_history ll @ [\<lparr>at_host = host, at_time = now1\<rparr>]\<rparr>
      in ll\<lparr>ll_lastConnection := now2\<rparr>)"

text \<open>The three clock readings of one call, in the order in which the code takes them.\<close>

record clock3 =
  ck_check :: time
  ck_history :: time
  ck_last :: time

text \<open>The remote address of the connection that is passed on, or the error; a refused connection is
  closed.\<close>

definition Listener_Accept :: "sys_error + string \<Rightarrow> clock3 \<Rightarrow> LimitedListener \<Rightarrow> string result \<times> LimitedListener" where
  "Listener_Accept socket ck ll =
     (case socket of
        Inl e \<Rightarrow> (Inl (Sys e), ll)
      | Inr addr \<Rightarrow>
          (case SplitHostPort addr of
             None \<Rightarrow> (Inl (Conn ErrAddress), ll)
           | Some (host, _) \<Rightarrow>
               (let (known, ll) = isInHistory (ck_check ck) host ll
                in if known then (Inl (Conn ErrRateLimit), ll)
                   else (Inr addr, addToHistory (ck_history ck) (ck_last ck) host ll))))"

subsection \<open>What the history remembers\<close>

text \<open>A log of the connections that were accepted: who, and the time recorded for them.\<close>

type_synonym log = "attempt list"

definition accept_step :: "(sys_error + string) \<times> clock3 \<Rightarrow> LimitedListener \<times> log \<Rightarrow> LimitedListener \<times> log" where
  "accept_step e s =
     (let (res, ll) = Listener_Accept (fst e) (snd e) (fst s)
      in (ll, case res of
                Inl _ \<Rightarrow> snd s
              | Inr addr \<Rightarrow> snd s @ [\<lparr>at_host = fst (the (SplitHostPort addr)), at_time = ck_history (snd e)\<rparr>]))"

text \<open>The clock does not run backwards, within a call and from one call to the next.\<close>

fun clock_ok :: "time \<Rightarrow> (('a + 'b) \<times> clock3) list \<Rightarrow> bool" where
  "clock_ok t [] \<longleftrightarrow> True"
| "clock_ok t (e # es) \<longleftrightarrow> t \<le> ck_check (snd e) \<and> ck_check (snd e) \<le> ck_history (snd e)
     \<and> ck_history (snd e) \<le> ck_last (snd e) \<and> clock_ok (ck_last (snd e)) es"

text \<open>The history is the part of the log that may still matter: sorted by time, nothing later than the last
  connection or the current time, and everything that is younger than the limit.\<close>

definition history_ok :: "time \<Rightarrow> LimitedListener \<times> log \<Rightarrow> bool" where
  "history_ok t s \<longleftrightarrow> 0 \<le> ll_limit (fst s) \<and> ll_lastConnection (fst s) \<le> t
     \<and> sorted (map at_time (ll_history (fst s)))
     \<and> (\<forall>a \<in> set (snd s). at_time a \<le> ll_lastConnection (fst s))
     \<and> set (ll_history (fst s)) \<subseteq> set (snd s)
     \<and> (\<forall>a \<in> set (snd s). t - ll_limit (fst s) < at_time a \<longrightarrow> a \<in> set (ll_history (fst s)))"

lemma sorted_dropWhile:
  assumes "sorted (map f xs)"
  shows "set (dropWhile (\<lambda>x. \<not> t < f x) xs) = {x \<in> set xs. (t :: 'a :: linorder) < f x}"
  using assms by (induction xs) auto

lemma sorted_map_dropWhile: "sorted (map f xs) \<Longrightarrow> sorted (map f (dropWhile P xs))"
  by (metis dropWhile_eq_drop drop_map sorted_wrt_drop)

lemma clearHistory_ok:
  assumes "history_ok t s" and "t \<le> now"
  shows "set (ll_history (clearHistory now (fst s))) = {a \<in> set (snd s). now - ll_limit (fst s) < at_time a}"
    and "sorted (map at_time (ll_history (clearHistory now (fst s))))"
    and "ll_limit (clearHistory now (fst s)) = ll_limit (fst s)"
    and "ll_lastConnection (clearHistory now (fst s)) = ll_lastConnection (fst s)"
proof -
  have "set (ll_history (clearHistory now (fst s))) = {a \<in> set (ll_history (fst s)). now - ll_limit (fst s) < at_time a}"
    using assms(1) by (force simp: clearHistory_def Let_def history_ok_def sorted_dropWhile)
  moreover have "\<dots> = {a \<in> set (snd s). now - ll_limit (fst s) < at_time a}"
    using assms by (force simp: history_ok_def)
  ultimately show "set (ll_history (clearHistory now (fst s))) = {a \<in> set (snd s). now - ll_limit (fst s) < at_time a}"
    by simp
  show "sorted (map at_time (ll_history (clearHistory now (fst s))))"
    using assms(1) by (auto simp: clearHistory_def Let_def history_ok_def sorted_map_dropWhile)
qed (simp_all add: clearHistory_def Let_def)

lemma Accept_iff:
  assumes "history_ok t s" and "t \<le> ck_check ck" and "SplitHostPort addr = Some (host, port)"
  shows "fst (Listener_Accept (Inr addr) ck (fst s)) = Inr addr \<longleftrightarrow>
    (\<forall>a \<in> set (snd s). at_host a = host \<longrightarrow> at_time a + ll_limit (fst s) \<le> ck_check ck)"
  using clearHistory_ok(1) [OF assms(1,2)] assms(3)
  by (auto simp: Listener_Accept_def isInHistory_def Let_def list_ex_iff)

lemma history_ok_later: "history_ok t s \<Longrightarrow> t \<le> t' \<Longrightarrow> history_ok t' s"
  by (force simp: history_ok_def)

lemma history_ok_clear:
  assumes "history_ok t s" and "t \<le> now"
  shows "history_ok now (clearHistory now (fst s), snd s)"
  using assms clearHistory_ok [OF assms] by (auto simp: history_ok_def)

lemma history_ok_add:
  assumes "history_ok t (ll, lg)" and "t \<le> t1" and "t1 \<le> t2"
  shows "history_ok t2 (addToHistory t1 t2 host ll, lg @ [\<lparr>at_host = host, at_time = t1\<rparr>])"
  using assms by (force simp: history_ok_def addToHistory_def sorted_append)

lemma accept_step_ok:
  assumes "history_ok t s" and "clock_ok t [e]"
  shows "history_ok (ck_last (snd e)) (accept_step e s)"
proof (cases "fst e")
  case (Inl x)
  with assms history_ok_later [of t s] show ?thesis
    by (simp add: accept_step_def Listener_Accept_def)
next
  case (Inr addr)
  have c: "history_ok (ck_check (snd e)) (clearHistory (ck_check (snd e)) (fst s), snd s)"
    using assms by (intro history_ok_clear [OF assms(1)]) simp
  show ?thesis
  proof (cases "SplitHostPort addr")
    case None
    with assms Inr history_ok_later [of t s] show ?thesis
      by (simp add: accept_step_def Listener_Accept_def)
  next
    case (Some hp)
    with Inr assms history_ok_later [OF c, of "ck_last (snd e)"]
      history_ok_add [OF c, of "ck_history (snd e)" "ck_last (snd e)" "fst hp"]
    show ?thesis
      by (cases hp) (simp add: accept_step_def Listener_Accept_def isInHistory_def Let_def)
  qed
qed

lemma accept_run_ok:
  "history_ok t s \<Longrightarrow> clock_ok t es \<Longrightarrow>
    history_ok (fold (\<lambda>e _. ck_last (snd e)) es t) (fold accept_step es s)"
proof (induction es arbitrary: t s)
  case (Cons e es)
  then show ?case using accept_step_ok [of t s e] by simp
qed simp

lemma clock_ok_append:
  "clock_ok t (es @ [e]) \<longleftrightarrow> clock_ok t es \<and> clock_ok (fold (\<lambda>e _. ck_last (snd e)) es t) [e]"
  by (induction es arbitrary: t) auto

lemma limit_const: "ll_limit (fst (accept_step e s)) = ll_limit (fst s)"
  by (auto simp: accept_step_def Listener_Accept_def isInHistory_def addToHistory_def clearHistory_def Let_def
      split: sum.splits option.splits)

lemma limit_run: "ll_limit (fst (fold accept_step es s)) = ll_limit (fst s)"
  by (induction es arbitrary: s) (simp_all add: limit_const)

subsection \<open>Properties\<close>

text \<open>C13: the listener accepts exactly the connections it should: after any sequence of calls with a clock
  that does not run backwards, a connection from a host is accepted if and only if every connection that
  was accepted from this host before is at least the time limit old. So a host never gets two
  connections within the limit, and is never refused because of other hosts or of its own refused
  attempts.\<close>

theorem Listener_Accept_exact:
  assumes "NewLimitedListener Listen address limit = Inr ll" and "0 \<le> t"
    and "clock_ok t (es @ [(Inr addr, ck)])" and "SplitHostPort addr = Some (host, port)"
    and "fold accept_step es (ll, []) = (ll', lg)"
  shows "fst (Listener_Accept (Inr addr) ck ll') = Inr addr \<longleftrightarrow>
    (\<forall>a \<in> set lg. at_host a = host \<longrightarrow> at_time a + limit \<le> ck_check ck)"
proof -
  from assms(1) have ll: "ll_limit ll = limit" "history_ok 0 (ll, [])"
    by (auto simp: NewLimitedListener_def history_ok_def split: if_splits sum.splits)
  let ?t = "fold (\<lambda>e _. ck_last (snd e)) es t"
  from assms(3) have c: "clock_ok t es" "?t \<le> ck_check ck" by (simp_all add: clock_ok_append)
  have "history_ok ?t (ll', lg)"
    using accept_run_ok [OF history_ok_later [OF ll(2) assms(2)] c(1)] assms(5) by simp
  moreover have "ll_limit ll' = limit" using limit_run [of es "(ll, [])"] assms(5) ll(1) by simp
  ultimately show ?thesis using Accept_iff [OF _ c(2) assms(4), of "(ll', lg)"] by simp
qed

theorem Listener_Accept_exact_witness:
  "\<exists>ll ll' lg. NewLimitedListener (\<lambda>_. Inr ()) '':80'' 10 = Inr ll
    \<and> fold accept_step [(Inr ''a:1'', \<lparr>ck_check = 1, ck_history = 2, ck_last = 3\<rparr>)] (ll, []) = (ll', lg)
    \<and> fst (Listener_Accept (Inr ''a:2'') \<lparr>ck_check = 11, ck_history = 11, ck_last = 11\<rparr> ll') \<noteq> Inr ''a:2''
    \<and> fst (Listener_Accept (Inr ''a:2'') \<lparr>ck_check = 12, ck_history = 12, ck_last = 12\<rparr> ll') = Inr ''a:2''"
proof -
  have split: "SplitHostPort ''a:1'' = Some (''a'', ''1'')" "SplitHostPort ''a:2'' = Some (''a'', ''2'')"
    by (simp_all add: SplitHostPort_def)
  let ?e = "(Inr ''a:1'', \<lparr>ck_check = 1, ck_history = 2, ck_last = 3\<rparr>)"
  let ?ll = "\<lparr>ll_limit = 10, ll_lastConnection = 0, ll_history = []\<rparr>"
  have new: "NewLimitedListener (\<lambda>_. Inr ()) '':80'' 10 = Inr ?ll" by (simp add: NewLimitedListener_def)
  obtain ll' lg where run: "fold accept_step [?e] (?ll, []) = (ll', lg)"
    and lg: "lg = [\<lparr>at_host = ''a'', at_time = 2\<rparr>]"
    by (simp add: accept_step_def Listener_Accept_def split isInHistory_def clearHistory_def Let_def)
  from Listener_Accept_exact [OF new, of 0 "[?e]" "''a:2''" _ "''a''" "''2''" ll' lg] run lg new show ?thesis
    by (auto simp: split(2) simp del: fold_simps)
qed

end
