(* ===== verification/Connecting.thy ===== *)
theory Connecting
  imports Routing Limiter
begin

section \<open>Connections: who is let in, and which protocol is spoken\<close>

text \<open>
  \<open>controller_connections.go\<close>. A connection is given with all that the remote side will send on it, and
  the operating system answers the writes, as in theory \<open>Connections\<close>. The traffic counters after a
  handshake (\<open>metrics\<close>) are an argument, as are the readings of the clock.
\<close>

subsection \<open>Peers going online and offline\<close>

text \<open>A turn of \<open>manageOnline\<close>.\<close>

definition set_online :: "peer_ref \<Rightarrow> NetState \<Rightarrow> NetState option" where
  "set_online peer s =
     (case (case PeerStore_Get (c_peers s) (pk_Hash (n_heap s peer)) of
              None \<Rightarrow> Some s
            | Some old \<Rightarrow>
                map_option (\<lambda>s. s\<lparr>c_peers := PeerStore_Remove (n_heap s) (Some old) (c_peers s)\<rparr>) (Peer_Stop old s)) of
        None \<Rightarrow> None
      | Some s \<Rightarrow>
          (case PeerStore_Add (n_heap s) (Some peer) (c_peers s) of
             Inl e \<Rightarrow> Some s
           | Inr ps \<Rightarrow> Some (s\<lparr>c_peers := ps\<rparr>)))"

definition set_offline :: "peer_ref \<Rightarrow> NetState \<Rightarrow> NetState" where
  "set_offline peer s = s\<lparr>c_peers := PeerStore_Remove (n_heap s) (Some peer) (c_peers s)\<rparr>"

definition manageOnline_step :: "NetState \<Rightarrow> NetState turn" where
  "manageOnline_step s =
     (case c_peerStatus s of
        [] \<Rightarrow> Waits
      | (peer, online) # pcs \<Rightarrow>
          (let s = s\<lparr>c_peerStatus := pcs\<rparr>
           in if online then turn_of (set_online peer s) else Next (set_offline peer s)))"

subsection \<open>Incoming connections\<close>

definition allowIncoming :: "time \<Rightarrow> string \<Rightarrow> NetState \<Rightarrow> conn_error + unit" where
  "allowIncoming now addr s =
     (if isBannedIP now addr s then Inl ErrBanned
      else if PeerStore_Total (c_peers s) \<ge> unat (cf_MaxIncoming (n_conf s)) \<and> \<not> isSpecialIP addr s then Inl ErrMaxedOut
      else if cf_PeerIPLimitIncoming (n_conf s) > 0
              \<and> PeerStore_Count (c_peers s) addr \<ge> int (unat (cf_PeerIPLimitIncoming (n_conf s))) then Inl ErrIPLimit
      else Inr ())"

text \<open>\<open>buffy.Peek(4)\<close>: the next four bytes, without consuming them. A gob message has more than four bytes and
  never starts like the signature of version 11 (its second byte, or its first, is \<open>0xff\<close>): the four bytes
  are then \<open>None\<close>.\<close>

definition Peek4 :: "gob_conn \<Rightarrow> sys_error + bytes option" where
  "Peek4 rw =
     (case items_bytes (take 4 (rw_in rw)) of
        None \<Rightarrow> Inr None
      | Some bs \<Rightarrow> if length bs < 4 then Inl ErrEOF else Inr (Some bs))"

definition check_handshake :: "Configuration \<Rightarrow> Handshake \<Rightarrow> unit result" where
  "check_handshake conf hs = (case Handshake_Valid conf hs of Inl e \<Rightarrow> Inl (Hs e) | Inr _ \<Rightarrow> Inr ())"

definition detectProtocolFromFirstMessage :: "Lib \<Rightarrow> Configuration \<Rightarrow> gob_conn \<Rightarrow> (Handshake \<times> prot_conn) result" where
  "detectProtocolFromFirstMessage lib conf rw =
     (case Peek4 rw of
        Inl e \<Rightarrow> Inl (Sys e)
      | Inr sig \<Rightarrow>
          if sig = Some V11Signature then
            bindR (Prot_ReadHandshake lib (PV11, rw)) (\<lambda>(hs, prot).
            bindR (check_handshake conf hs) (\<lambda>_. Inr (hs, prot)))
          else
            let v9test = newProtocolV9 (cf_Network conf) (cf_NodeID conf) (cf_ListenPort conf) [] []
            in bindR (V9_ReadHandshake (lib_juE lib) (v9test, rw)) (\<lambda>(hs, v9test, rw).
               bindR (check_handshake conf hs) (\<lambda>_.
               if hs_Version hs < cf_ProtocolVersionMinimum conf then Inl (Hs ErrVersionBelowMinimum)
               else
                 let hs = (if hs_Version hs = 10 \<and> cf_ProtocolVersion conf = 9 then hs\<lparr>hs_Version := 9\<rparr> else hs)
                 in if hs_Version hs = 9 then Inr (hs, PV9 v9test, rw)
                    else if hs_Version hs = 10
                    then Inr (hs, PV10 (newProtocolV10 (v9_decoder v9test) (v9_encoder v9test)), rw)
                    else Inl (Hs ErrUnsupportedVersion))))"

definition selectProtocol :: "Configuration \<Rightarrow> Protocol" where
  "selectProtocol conf =
     (if cf_ProtocolVersion conf = 11 then PV11
      else if cf_ProtocolVersion conf = 10 then PV10 (newProtocolV10 [] [])
      else PV9 (newProtocolV9 (cf_Network conf) (cf_NodeID conf) (cf_ListenPort conf) [] []))"

text \<open>What is left of the connection: it is closed in any case.\<close>

definition RejectWithShare :: "Lib \<Rightarrow> Configuration \<Rightarrow> gob_conn \<Rightarrow> Endpoint list \<Rightarrow> prot_conn result" where
  "RejectWithShare lib conf con share =
     (let prot = selectProtocol conf;
          handshake = (newHandshake conf 0)\<lparr>hs_Type := TypeRejectAlternative, hs_Alternatives := share\<rparr>
      in Prot_SendHandshake lib handshake (prot, con))"

text \<open>The end of both handshakes: the peer is created, which starts its loops, and announced.\<close>

definition create_peer :: "time \<Rightarrow> 32 word \<Rightarrow> Endpoint \<Rightarrow> prot_conn \<Rightarrow> unit MetricsReadWriter \<Rightarrow> bool \<Rightarrow> NetState \<Rightarrow>
    (peer_ref \<times> NetState) option" where
  "create_peer now nodeid ep pc metrics incoming s =
     map_option (\<lambda>p. (n_next s, s\<lparr>n_heap := (n_heap s)(n_next s := p), n_next := Suc (n_next s)\<rparr>))
       (newPeer (n_conf s) now nodeid ep (snd pc) (fst pc) metrics incoming)"

definition announce :: "peer_ref \<Rightarrow> ParcelType \<Rightarrow> NetState \<Rightarrow> NetState" where
  "announce r typ s =
     (let s = s\<lparr>c_peerStatus := c_peerStatus s @ [(r, True)]\<rparr>
      in if typ = TypePeerRequest
         then let req = (newParcel TypePeerRequest (string_bytes ''Peer Request''))\<lparr>Address := pk_Hash (n_heap s r)\<rparr>
              in s\<lparr>c_peerData := c_peerData s @ [(Some r, req)]\<rparr>
         else s)"

text \<open>The outcome of a handshake: the peer, or the error and the alternatives that came with it; and what has
  been read from and written to the connection.\<close>

type_synonym hs_result = "((error \<times> Endpoint list) + peer_ref) \<times> gob_conn"

definition start_peer :: "time \<Rightarrow> Handshake \<Rightarrow> Endpoint \<Rightarrow> prot_conn \<Rightarrow> unit MetricsReadWriter \<Rightarrow> bool \<Rightarrow> NetState \<Rightarrow>
    (hs_result \<times> NetState) option" where
  "start_peer now hs ep pc metrics incoming s =
     map_option (\<lambda>(r, s). ((Inr r, snd pc), announce r (hs_Type hs) s))
       (create_peer now (hs_NodeID hs) ep pc metrics incoming s)"

definition handshakeIncoming :: "Lib \<Rightarrow> clock \<Rightarrow> unit MetricsReadWriter \<Rightarrow> gob_conn \<Rightarrow> Endpoint \<Rightarrow> NetState \<Rightarrow>
    (hs_result \<times> NetState) option" where
  "handshakeIncoming lib clk metrics con ep s =
     (case allowIncoming (clk 0) (IP ep) s of
        Inl _ \<Rightarrow>
          (let (share, s) = makePeerShare ep s
           in case RejectWithShare lib (n_conf s) con share of
                Inl _ \<Rightarrow> Some ((Inl (Conn ErrRejecting, []), con), s)
              | Inr (_, con) \<Rightarrow> Some ((Inl (Conn ErrRejecting, []), con), s))
      | Inr _ \<Rightarrow>
          (case detectProtocolFromFirstMessage lib (n_conf s) con of
             Inl e \<Rightarrow> Some ((Inl (e, []), con), s)
           | Inr (handshake, prot, con) \<Rightarrow>
               (let reply = (newHandshake (n_conf s) (n_instanceID s))\<lparr>hs_Version := hs_Version handshake\<rparr>
                in case Prot_SendHandshake lib reply (prot, con) of
                     Inl e \<Rightarrow> Some ((Inl (e, []), con), s)
                   | Inr pc \<Rightarrow>
                       start_peer (clk 1) handshake (ep\<lparr>Port := hs_ListenPort handshake\<rparr>) pc metrics True s)))"

subsection \<open>Outgoing connections\<close>

text \<open>Version 9 goes on with the encoder the handshake was sent with.\<close>

fun keep_encoder :: "Protocol \<Rightarrow> Protocol \<Rightarrow> Protocol" where
  "keep_encoder (PV10 desired) (PV9 v9) = PV9 (v9\<lparr>v9_encoder := v10_encoder desired\<rparr>)"
| "keep_encoder (PV9 desired) (PV9 v9) = PV9 (v9\<lparr>v9_encoder := v9_encoder desired\<rparr>)"
| "keep_encoder _ prot = prot"

definition handshakeOutgoing :: "Lib \<Rightarrow> time \<Rightarrow> unit MetricsReadWriter \<Rightarrow> gob_conn \<Rightarrow> Endpoint \<Rightarrow> NetState \<Rightarrow>
    (hs_result \<times> NetState) option" where
  "handshakeOutgoing lib now metrics con ep s =
     (let handshake = newHandshake (n_conf s) (n_instanceID s)
      in case Prot_SendHandshake lib handshake (selectProtocol (n_conf s), con) of
           Inl e \<Rightarrow> Some ((Inl (e, []), con), s)
         | Inr (desiredProt, con) \<Rightarrow>
             (case detectProtocolFromFirstMessage lib (n_conf s) con of
                Inl e \<Rightarrow> Some ((Inl (e, []), con), s)
              | Inr (reply, prot, con) \<Rightarrow>
                  if hs_Loopback reply = hs_Loopback handshake then Some ((Inl (Hs ErrLoopback, []), con), s)
                  else
                    let prot = keep_encoder desiredProt prot
                    in if hs_Type reply = TypeRejectAlternative
                       then Some ((Inl (Hs ErrConnectionRejected, hs_Alternatives reply), con), s)
                       else start_peer now reply ep (prot, con) metrics False s))"

definition fifty_years :: duration where "fifty_years = Hour * 24 * 365 * 50"

definition Dial :: "Lib \<Rightarrow> (string \<Rightarrow> sys_error + gob_conn) \<Rightarrow> clock \<Rightarrow> unit MetricsReadWriter \<Rightarrow> Endpoint \<Rightarrow> NetState \<Rightarrow>
    ((peer_ref option \<times> Endpoint list) \<times> NetState) option" where
  "Dial lib os_dial clk metrics ep s =
     (let (res, d) = Dialer_Dial os_dial (clk 0) (clk 1) ep (c_dialer s);
          s = s\<lparr>c_dialer := d\<rparr>
      in case res of
           Inl e \<Rightarrow> Some ((None, []), s)
         | Inr con \<Rightarrow>
             (case handshakeOutgoing lib (clk 2) metrics con ep s of
                None \<Rightarrow> None
              | Some ((Inr peer, _), s) \<Rightarrow> Some ((Some peer, []), s)
              | Some ((Inl (e, alternatives), _), s) \<Rightarrow>
                  if e = Hs ErrLoopback
                  then map_option (\<lambda>s. ((None, []), s)) (banEndpoint ep (clk 3) fifty_years s)
                  else if length alternatives > 0 then Some ((None, alternatives), s)
                  else Some ((None, []), s)))"

subsection \<open>Listening\<close>

text \<open>One turn of the loop of \<open>listen\<close>. The socket gives an error, with the answer to whether it is an operation
  error that is neither a timeout nor temporary, or a connection and its remote address. The loop goes on or
  returns; a connection is handled by a goroutine of its own.\<close>

definition listen_step :: "(sys_error \<times> bool) + (string \<times> gob_conn) \<Rightarrow> clock3 \<Rightarrow> LimitedListener \<Rightarrow> NetState \<Rightarrow>
    bool \<times> LimitedListener \<times> NetState" where
  "listen_step socket ck ll s =
     (case socket of
        Inl (e, fatal) \<Rightarrow>
          (let (_, ll) = Listener_Accept (Inl e) ck ll in (\<not> fatal, ll, s))
      | Inr (addr, conn) \<Rightarrow>
          (let (res, ll) = Listener_Accept (Inr addr) ck ll
           in case res of
                Inl _ \<Rightarrow> (True, ll, s)
              | Inr addr \<Rightarrow>
                  (case SplitHostPort addr of
                     None \<Rightarrow> (True, ll, s)
                   | Some (host, port) \<Rightarrow>
                       (case NewEndpoint host port of
                          Inl _ \<Rightarrow> (True, ll, s)
                        | Inr ep \<Rightarrow> (True, ll, s\<lparr>n_tasks := n_tasks s @ [T_Incoming conn ep]\<rparr>)))))"

text \<open>How \<open>listen\<close> starts; on an error it returns at once.\<close>

definition listen_start :: "(string \<Rightarrow> sys_error + unit) \<Rightarrow> Configuration \<Rightarrow> LimitedListener result" where
  "listen_start Listen conf = NewLimitedListener Listen (cf_BindIP conf @ '':'' @ cf_ListenPort conf) (cf_ListenLimit conf)"

subsection \<open>The invariant\<close>

lemma net_inv_peers:
  assumes "net_inv s" and "store_inv (n_heap s) ps" and "\<And>r. r \<in> set (peers_of ps) \<Longrightarrow> r < n_next s"
  shows "net_inv (s\<lparr>c_peers := ps\<rparr>)"
  using assms by (simp add: net_inv_def)

lemma net_inv_peerStatus:
  "net_inv s \<Longrightarrow> set pcs \<subseteq> set (c_peerStatus s) \<Longrightarrow> net_inv (s\<lparr>c_peerStatus := pcs\<rparr>)"
  by (auto simp: net_inv_def)

lemma net_inv_dialer [simp]: "net_inv (s\<lparr>c_dialer := d\<rparr>) = net_inv s"
  by (simp add: net_inv_def)

lemma only_stopped_peers:
  assumes "only_stopped R s t"
  shows "only_stopped R (s\<lparr>c_peers := ps\<rparr>) (t\<lparr>c_peers := ps\<rparr>)"
proof -
  from assms obtain h msgs where "t = s\<lparr>n_heap := h, c_peerStatus := msgs\<rparr>" unfolding only_stopped_def by blast
  then have "t\<lparr>c_peers := ps\<rparr> = s\<lparr>c_peers := ps\<rparr>\<lparr>n_heap := h, c_peerStatus := msgs\<rparr>" by simp
  then have "\<exists>h msgs. t\<lparr>c_peers := ps\<rparr> = s\<lparr>c_peers := ps\<rparr>\<lparr>n_heap := h, c_peerStatus := msgs\<rparr>" by blast
  with assms show ?thesis unfolding only_stopped_def by simp
qed

text \<open>Going online: whoever had the hash is stopped and replaced.\<close>

lemma set_online_result:
  assumes "net_inv s" and "peer < n_next s"
  defines "k \<equiv> pk_Hash (n_heap s peer)"
  shows "\<exists>s'. set_online peer s = Some s' \<and> net_inv s'
    \<and> set (peers_of (c_peers s')) = insert peer {q \<in> set (peers_of (c_peers s)). pk_Hash (n_heap s q) \<noteq> k}
    \<and> (\<forall>old. PeerStore_Get (c_peers s) k = Some old \<longrightarrow> p_stopped (n_heap s' old))
    \<and> (\<exists>R ps. R \<subseteq> set_option (PeerStore_Get (c_peers s) k) \<and> only_stopped R (s\<lparr>c_peers := ps\<rparr>) s')"
proof -
  let ?old = "PeerStore_Get (c_peers s) k"
  have "\<exists>s1. (case ?old of None \<Rightarrow> Some s | Some old \<Rightarrow> Peer_Stop old s) = Some s1 \<and> net_inv s1
      \<and> only_stopped (set_option ?old) s s1 \<and> (\<forall>old. ?old = Some old \<longrightarrow> p_stopped (n_heap s1 old))"
  proof (cases ?old)
    case None
    with assms(1) show ?thesis by (simp add: only_stopped_refl)
  next
    case (Some old)
    with Get_iff [OF net_invD(1) [OF assms(1)]] net_invD(3) [OF assms(1)] have "old < n_next s" by blast
    from Peer_Stop_only [OF assms(1) this] Some show ?thesis by auto
  qed
  then obtain s1 where s1: "(case ?old of None \<Rightarrow> Some s | Some old \<Rightarrow> Peer_Stop old s) = Some s1" "net_inv s1"
    "only_stopped (set_option ?old) s s1" "\<forall>old. ?old = Some old \<longrightarrow> p_stopped (n_heap s1 old)" by blast
  note fr = only_stopped_frame [OF s1(3)]
  have k: "pk_Hash (n_heap s1 peer) = k" "\<And>q. pk_Hash (n_heap s1 q) = pk_Hash (n_heap s q)"
    by (simp_all add: fr(13) k_def)
  let ?ps = "case ?old of None \<Rightarrow> c_peers s | Some old \<Rightarrow> PeerStore_Remove (n_heap s1) (Some old) (c_peers s)"
  have "\<exists>ps. PeerStore_Add (n_heap s1) (Some peer) ?ps = Inr ps \<and> store_inv (n_heap s1) ps
      \<and> set (peers_of ps) = insert peer {q \<in> set (peers_of (c_peers s)). pk_Hash (n_heap s1 q) \<noteq> k}"
    using peer_store.replace [OF net_invD(1) [OF s1(2)], of peer] unfolding k(1) fr(3) .
  then obtain ps where ps: "PeerStore_Add (n_heap s1) (Some peer) ?ps = Inr ps" "store_inv (n_heap s1) ps"
      "set (peers_of ps) = insert peer {q \<in> set (peers_of (c_peers s)). pk_Hash (n_heap s q) \<noteq> k}"
    unfolding k(2) by blast
  let ?s' = "s1\<lparr>c_peers := ps\<rparr>"
  have "set_online peer s = Some ?s'"
  proof (cases ?old)
    case None
    with s1(1) have "s1 = s" by simp
    with None ps(1) show ?thesis unfolding set_online_def k_def [symmetric] by simp
  next
    case (Some old)
    with s1(1) have "Peer_Stop old s = Some s1" by simp
    with Some ps(1) fr(3) show ?thesis unfolding set_online_def k_def [symmetric] by simp
  qed
  moreover have "net_inv ?s'"
    using assms(2) net_invD(3) [OF assms(1)]
    by (intro net_inv_peers s1(2) ps(2)) (auto simp: ps(3) fr(1))
  moreover have "only_stopped (set_option ?old) (s\<lparr>c_peers := ps\<rparr>) ?s'"
    by (rule only_stopped_peers [OF s1(3)])
  moreover have "set (peers_of (c_peers ?s')) = insert peer {q \<in> set (peers_of (c_peers s)). pk_Hash (n_heap s q) \<noteq> k}"
    using ps(3) by simp
  moreover have "\<forall>old. ?old = Some old \<longrightarrow> p_stopped (n_heap ?s' old)" using s1(4) by simp
  ultimately show ?thesis by blast
qed

lemma set_offline_inv:
  assumes "net_inv s"
  shows "net_inv (set_offline peer s)"
    "set (peers_of (c_peers (set_offline peer s))) = set (peers_of (c_peers s)) - {peer}"
proof -
  note st = net_invD(1) [OF assms]
  show r: "set (peers_of (c_peers (set_offline peer s))) = set (peers_of (c_peers s)) - {peer}"
    by (simp add: set_offline_def Remove_refs [OF st])
  show "net_inv (set_offline peer s)"
    unfolding set_offline_def using net_invD(3) [OF assms]
    by (intro net_inv_peers assms Remove_inv st) (simp add: Remove_refs [OF st])
qed

lemma manageOnline_inv:
  assumes "net_inv s"
  shows "case manageOnline_step s of Next s' \<Rightarrow> net_inv s' | Waits \<Rightarrow> c_peerStatus s = [] | Panics \<Rightarrow> False"
proof (cases "c_peerStatus s")
  case Nil
  then show ?thesis by (simp add: manageOnline_step_def)
next
  case (Cons pc pcs)
  obtain peer online where pc: "pc = (peer, online)" by (rule prod.exhaust)
  let ?s = "s\<lparr>c_peerStatus := pcs\<rparr>"
  have inv: "net_inv ?s" using Cons by (intro net_inv_peerStatus assms) auto
  have "peer < n_next ?s" using assms Cons pc by (auto simp: net_inv_def)
  from set_online_result [OF inv this] set_offline_inv(1) [OF inv] Cons pc show ?thesis
    by (auto simp: manageOnline_step_def Let_def)
qed

lemma create_peer_inv:
  assumes "net_inv s"
  shows "\<exists>p s'. create_peer now nodeid ep pc metrics incoming s = Some (n_next s, s') \<and> net_inv s'
    \<and> newPeer (n_conf s) now nodeid ep (snd pc) (fst pc) metrics incoming = Some p
    \<and> s' = s\<lparr>n_heap := (n_heap s)(n_next s := p), n_next := Suc (n_next s)\<rparr>"
proof -
  have conf: "cf_ChannelCapacity (n_conf s) \<noteq> 0"
    "resend_ok (n_conf s)"
    using assms by (simp_all add: net_inv_def conf_ok_def)
  from newPeer_ok [OF conf] obtain p where
    p: "newPeer (n_conf s) now nodeid ep (snd pc) (fst pc) metrics incoming = Some p" "peer_ok p" by blast
  let ?s = "s\<lparr>n_heap := (n_heap s)(n_next s := p), n_next := Suc (n_next s)\<rparr>"
  have "store_inv (n_heap ?s) (c_peers s) = store_inv (n_heap s) (c_peers s)"
    using net_invD(3) [OF assms] by (intro store_inv_cong) force
  moreover have "cf_PeerResendFilter (n_conf s) \<longrightarrow> p_resend p \<noteq> None"
    using p(1) by (auto simp: newPeer_def split: option.splits)
  ultimately have "net_inv ?s"
    using assms p(2) by (fastforce simp: net_inv_def less_Suc_eq)
  with p(1) show ?thesis by (simp add: create_peer_def)
qed

lemma announce_inv: "net_inv s \<Longrightarrow> r < n_next s \<Longrightarrow> net_inv (announce r typ s)"
  by (auto simp: announce_def net_inv_def Let_def)

lemma start_peer_inv:
  assumes "net_inv s"
  shows "\<exists>p s'. start_peer now hs ep pc metrics incoming s = Some ((Inr (n_next s), snd pc), s') \<and> net_inv s'
    \<and> newPeer (n_conf s) now (hs_NodeID hs) ep (snd pc) (fst pc) metrics incoming = Some p
    \<and> s' = announce (n_next s) (hs_Type hs) (s\<lparr>n_heap := (n_heap s)(n_next s := p), n_next := Suc (n_next s)\<rparr>)"
  using create_peer_inv [OF assms, of now "hs_NodeID hs" ep pc metrics incoming] announce_inv
  by (fastforce simp: start_peer_def)

lemma handshakeIncoming_inv:
  assumes "net_inv s"
  shows "\<exists>res s'. handshakeIncoming lib clk metrics con ep s = Some (res, s') \<and> net_inv s'"
proof -
  obtain share s1 where sh: "makePeerShare ep s = (share, s1)" by (rule prod.exhaust)
  note sh_inv = makePeerShare_inv(1) [OF assms sh]
  have start: "\<exists>res s'. start_peer now hs ep' pc metrics True s = Some (res, s') \<and> net_inv s'" for now hs ep' pc
    using start_peer_inv [OF assms] by blast
  show ?thesis
    using assms sh sh_inv start
    by (auto simp: handshakeIncoming_def Let_def split: sum.splits prod.splits)
qed

lemma handshakeOutgoing_inv:
  assumes "net_inv s"
  shows "\<exists>res s'. handshakeOutgoing lib now metrics con ep s = Some (res, s') \<and> net_inv s'"
proof -
  have start: "\<exists>res s'. start_peer now hs ep' pc metrics False s = Some (res, s') \<and> net_inv s'" for now hs ep' pc
    using start_peer_inv [OF assms] by blast
  show ?thesis
    using assms start by (auto simp: handshakeOutgoing_def Let_def split: sum.splits prod.splits)
qed

lemma Dial_inv:
  assumes "net_inv s"
  shows "\<exists>res s'. Dial lib os_dial clk metrics ep s = Some (res, s') \<and> net_inv s'"
proof -
  obtain r d where dd: "Dialer_Dial os_dial (clk 0) (clk 1) ep (c_dialer s) = (r, d)" by (rule prod.exhaust)
  have inv: "net_inv (s\<lparr>c_dialer := d\<rparr>)" using assms by simp
  show ?thesis
  proof (cases r)
    case (Inl e)
    with dd inv show ?thesis by (simp add: Dial_def)
  next
    case (Inr con)
    from handshakeOutgoing_inv [OF inv, of lib "clk 2" metrics con ep] obtain x con' s1 where
      h: "handshakeOutgoing lib (clk 2) metrics con ep (s\<lparr>c_dialer := d\<rparr>) = Some ((x, con'), s1)" "net_inv s1" by auto
    from banEndpoint_result [OF h(2), of ep "clk 3" fifty_years] dd Inr h show ?thesis
      by (cases x) (auto simp: Dial_def)
  qed
qed

lemma check_handshake_Inr: "check_handshake conf hs = Inr u \<longleftrightarrow> Handshake_Valid conf hs = Inr ()"
  by (auto simp: check_handshake_def split: sum.splits)

lemma detect_port:
  assumes "detectProtocolFromFirstMessage lib conf rw = Inr (hs, prot)"
  shows "\<exists>p. Atoi (hs_ListenPort hs) = Some p \<and> 1 \<le> p \<and> p \<le> 65535"
  using assms
  by (auto simp: detectProtocolFromFirstMessage_def bindR_Inr_iff check_handshake_Inr Handshake_Valid_iff Let_def
      split: sum.splits if_splits)

subsection \<open>Properties\<close>

text \<open>C5: \<open>manageOnline\<close> keeps the store the map from hashes to the peers last announced: a peer that goes online
  takes its hash, and if another peer had it that one is stopped and leaves; a peer that goes offline gives
  its hash up, unless the hash has passed to another peer already, in which case nothing happens. No other
  peer is touched, and the step never panics.\<close>

theorem manageOnline_refines:
  fixes s :: NetState
  assumes "net_inv s" and "c_peerStatus s = (peer, online) # pcs"
  defines "k \<equiv> pk_Hash (n_heap s peer)" and "m \<equiv> PeerStore_Get (c_peers s)"
  shows "\<exists>s'. manageOnline_step s = Next s' \<and> net_inv s'
    \<and> PeerStore_Get (c_peers s') = (if online then m(k \<mapsto> peer) else if m k = Some peer then m(k := None) else m)
    \<and> (\<forall>r. n_heap s' r = n_heap s r \<or> online \<and> m k = Some r \<and> p_stopped (n_heap s' r))
    \<and> (\<forall>old. online \<and> m k = Some old \<longrightarrow> p_stopped (n_heap s' old))"
proof -
  let ?s = "s\<lparr>c_peerStatus := pcs\<rparr>"
  have inv: "net_inv ?s" using assms(2) by (intro net_inv_peerStatus assms(1)) auto
  have m: "m x = Some r \<longleftrightarrow> r \<in> set (peers_of (c_peers s)) \<and> pk_Hash (n_heap s r) = x" for x r
    unfolding m_def by (rule Get_iff [OF net_invD(1) [OF assms(1)]])
  have ext: "f = g" if "\<And>x r. f x = Some r \<longleftrightarrow> g x = Some r" for f g :: "string \<Rightarrow> peer_ref option"
    using that by (intro ext) (metis option.exhaust)
  show ?thesis
  proof (cases online)
    case True
    have "peer < n_next ?s" using assms(1,2) by (auto simp: net_inv_def)
    from set_online_result [OF inv this] obtain s' R ps where s': "set_online peer ?s = Some s'" "net_inv s'"
      "set (peers_of (c_peers s')) = insert peer {q \<in> set (peers_of (c_peers s)). pk_Hash (n_heap s q) \<noteq> k}"
      "\<forall>old. m k = Some old \<longrightarrow> p_stopped (n_heap s' old)"
      "R \<subseteq> set_option (m k)" "only_stopped R (?s\<lparr>c_peers := ps\<rparr>) s'"
      by (auto simp: k_def m_def)
    have h: "pk_Hash (n_heap s' q) = pk_Hash (n_heap s q)" for q using only_stopped_frame(13) [OF s'(6)] by simp
    have "PeerStore_Get (c_peers s') = m(k \<mapsto> peer)"
      by (rule ext) (auto simp: Get_iff [OF net_invD(1) [OF s'(2)]] s'(3) h m k_def)
    moreover have "\<forall>r. n_heap s' r = n_heap s r \<or> m k = Some r \<and> p_stopped (n_heap s' r)"
      using s'(4-6) by (auto simp: only_stopped_def)
    ultimately show ?thesis using True s'(1,2,4) assms(2) by (simp add: manageOnline_step_def Let_def)
  next
    case False
    note off = set_offline_inv [OF inv, of peer]
    have h: "n_heap (set_offline peer ?s) = n_heap s" by (simp add: set_offline_def)
    define f where "f = PeerStore_Get (c_peers (set_offline peer ?s))"
    have g: "f x = Some r \<longleftrightarrow> m x = Some r \<and> r \<noteq> peer" for x r
      unfolding f_def Get_iff [OF net_invD(1) [OF off(1)]] off(2) h m by auto
    have mk: "m x = Some peer \<Longrightarrow> x = k" for x by (simp add: m k_def)
    have "f = (if m k = Some peer then m(k := None) else m)"
    proof (rule ext)
      fix x r
      show "f x = Some r \<longleftrightarrow> (if m k = Some peer then m(k := None) else m) x = Some r"
        unfolding g using mk [of x] by (cases "x = k") auto
    qed
    then have "PeerStore_Get (c_peers (set_offline peer ?s)) = (if m k = Some peer then m(k := None) else m)"
      by (simp only: f_def)
    with False off(1) assms(2) h show ?thesis by (simp add: manageOnline_step_def Let_def)
  qed
qed

theorem manageOnline_refines_witness:
  "\<exists>s'. manageOnline_step (sample_net\<lparr>c_peerStatus := [(0, False)]\<rparr>) = Next s'
     \<and> PeerStore_Get (c_peers s') (pk_Hash (sample_peer 0)) = None"
proof -
  let ?s = "sample_net\<lparr>c_peerStatus := [(0, False)]\<rparr>"
  have "net_inv ?s" using sample_net_inv by (auto simp: net_inv_def sample_net_def)
  from manageOnline_refines [OF this, of 0 False "[]"] show ?thesis
    using sample_Get [of 0] by (auto simp: sample_net_def)
qed

text \<open>C34: a peer can be counted as connected for ever after it is gone: the loops of a new peer run before it is
  announced, so that it may be stopped, and its leaving handled, before its arrival. It then stays in the
  store although it is stopped, and stopping it again, as a ban or a round does, has no effect.\<close>

theorem stopped_before_announced:
  assumes "net_inv s" and "c_peerStatus s = []" and "\<not> n_stopped s"
    and "create_peer now nodeid ep pc metrics incoming s = Some (r, s1)"
    and "PeerStore_Get (c_peers s) (peer_hash ep nodeid) = None"
  shows "\<exists>s2 s3 s4. Peer_Stop r s1 = Some s2 \<and> manageOnline_step (announce r typ s2) = Next s3
    \<and> manageOnline_step s3 = Next s4 \<and> net_inv s4 \<and> c_peerStatus s4 = []
    \<and> r \<in> set (peers_of (c_peers s4)) \<and> p_stopped (n_heap s4 r) \<and> Peer_Stop r s4 = Some s4"
proof -
  from create_peer_inv [OF assms(1), of now nodeid ep pc metrics incoming] assms(4) obtain p where
    s1: "net_inv s1" "r = n_next s" "s1 = s\<lparr>n_heap := (n_heap s)(n_next s := p), n_next := Suc (n_next s)\<rparr>"
    and p: "newPeer (n_conf s) now nodeid ep (snd pc) (fst pc) metrics incoming = Some p" by auto
  have new: "\<not> p_stopped p" "pk_Hash p = peer_hash ep nodeid"
    using p by (auto simp: newPeer_def split: option.splits)
  have "r < n_next s1" by (simp add: s1(2,3))
  from Peer_Stop_only [OF s1(1) this] obtain s2 where s2: "Peer_Stop r s1 = Some s2" "net_inv s2"
    "only_stopped {r} s1 s2" "p_stopped (n_heap s2 r)" by blast
  note fr = only_stopped_frame [OF s2(3)]
  have st: "c_peerStatus s2 = [(r, False)]"
    using s2(1) new(1) assms(2,3) by (auto simp: Peer_Stop_def s1(2,3) Let_def split: option.splits)
  let ?a = "announce r typ s2"
  have r: "r < n_next s2" using \<open>r < n_next s1\<close> fr(1) by simp
  have a: "net_inv ?a" "c_peerStatus ?a = [(r, False), (r, True)]" "n_heap ?a = n_heap s2" "c_peers ?a = c_peers s2"
    using announce_inv [OF s2(2) r] st by (simp_all add: announce_def Let_def)
  let ?t = "?a\<lparr>c_peerStatus := [(r, True)]\<rparr>" and ?s3 = "set_offline r (?a\<lparr>c_peerStatus := [(r, True)]\<rparr>)"
  have "net_inv ?t" using a(2) by (intro net_inv_peerStatus a(1)) auto
  note off = set_offline_inv [OF this, of r]
  have step1: "manageOnline_step ?a = Next ?s3" by (simp add: manageOnline_step_def a(2) Let_def)
  have s3: "c_peerStatus ?s3 = [(r, True)]" "n_heap ?s3 = n_heap s2" "n_next ?s3 = n_next s2"
    using a(3) by (simp_all add: set_offline_def announce_def Let_def)
  have hash: "pk_Hash (n_heap s2 r) = peer_hash ep nodeid" using fr(13) [of r] new(2) by (simp add: s1(2,3))
  have none: "PeerStore_Get (c_peers ?s3) (peer_hash ep nodeid) = None"
  proof -
    have "q \<noteq> r \<Longrightarrow> n_heap s2 q = n_heap s q" for q using s2(3) by (auto simp: only_stopped_def s1(2,3))
    moreover have "c_peers ?t = c_peers s" using a(4) fr(3) by (simp add: s1(3))
    ultimately show ?thesis
      using assms(5) off(2) s3(2) peer_store.get_None_iff [OF net_invD(1) [OF assms(1)]]
        peer_store.get_None_iff [OF net_invD(1) [OF off(1)]] by auto
  qed
  let ?u = "?s3\<lparr>c_peerStatus := []\<rparr>"
  have u: "net_inv ?u" by (intro net_inv_peerStatus off(1)) simp
  have ru: "r < n_next ?u" using r s3(3) by simp
  have ps: "set_online r ?u = (case PeerStore_Add (n_heap ?u) (Some r) (c_peers ?u) of Inl _ \<Rightarrow> Some ?u | Inr ps \<Rightarrow> Some (?u\<lparr>c_peers := ps\<rparr>))"
    using none hash s3(2) by (simp add: set_online_def)
  from set_online_result [OF u ru] obtain s4 where s4: "set_online r ?u = Some s4" "net_inv s4" "r \<in> set (peers_of (c_peers s4))"
    by blast
  have h4: "n_heap s4 = n_heap s2" "c_peerStatus s4 = []"
    using s4(1) s3(2) unfolding ps by (auto split: sum.splits)
  have "manageOnline_step ?s3 = Next s4" using s3(1) s4(1) by (simp add: manageOnline_step_def Let_def)
  with s2 step1 s4 h4 show ?thesis by (auto simp: Peer_Stop_def)
qed

theorem stopped_before_announced_witness:
  "\<exists>r s1 s2 s3 s4. create_peer 5 7 \<lparr>IP = ''b'', Port = ''1''\<rparr> (PV11, open_rw []) (NewMetricsReadWriter ()) True sample_net = Some (r, s1)
    \<and> Peer_Stop r s1 = Some s2 \<and> manageOnline_step (announce r TypeHandshake s2) = Next s3
    \<and> manageOnline_step s3 = Next s4 \<and> c_peerStatus s4 = [] \<and> r \<in> set (peers_of (c_peers s4)) \<and> p_stopped (n_heap s4 r)"
proof -
  let ?ep = "\<lparr>IP = ''b'', Port = ''1''\<rparr>" and ?mx = "NewMetricsReadWriter ()"
  from create_peer_inv [OF sample_net_inv, of 5 7 ?ep "(PV11, open_rw [])" ?mx True] obtain r s1 where
    c: "create_peer 5 7 ?ep (PV11, open_rw []) ?mx True sample_net = Some (r, s1)" by blast
  have "\<forall>q \<in> set (peers_of (c_peers sample_net)). pk_Hash (n_heap sample_net q) \<noteq> peer_hash ?ep 7"
    by (simp add: sample_net_def sample_peers sample_peer_consts peer_hash_def)
  then have g: "PeerStore_Get (c_peers sample_net) (peer_hash ?ep 7) = None"
    using peer_store.get_None_iff [OF net_invD(1) [OF sample_net_inv]] by blast
  have s: "c_peerStatus sample_net = []" "\<not> n_stopped sample_net" by (simp_all add: sample_net_def)
  from stopped_before_announced [OF sample_net_inv s c g, of TypeHandshake] c show ?thesis by blast
qed

text \<open>C7: the door of the node: an incoming connection becomes a peer only if its ip is not banned, there are fewer
  peers than \<open>MaxIncoming\<close> or the ip is special, and the ip has fewer connections than its limit; the peer is
  then at the remote ip and at the port it announced, which is in the TCP range, counts as incoming, and is
  announced exactly once. A connection that is turned away, for whatever reason, leaves no trace among the
  peers; if it is turned away because the node is full or the ip has reached its limit, it is sent a rejection
  with the share that \<open>makePeerShare\<close> makes for it, which may be empty. (The README, line 102, lets a connection
  in at the limit and turns it away above. What a banned ip is sent is not part of this claim: see
  \<open>banned_gets_share\<close>.)\<close>

theorem incoming_admission:
  assumes "net_inv s" and "handshakeIncoming lib clk metrics con ep s = Some ((res, con'), s')"
  shows "net_inv s' \<and> (case res of
      Inr r \<Rightarrow> \<not> isBannedIP (clk 0) (IP ep) s
        \<and> (PeerStore_Total (c_peers s) < unat (cf_MaxIncoming (n_conf s)) \<or> isSpecialIP (IP ep) s)
        \<and> (0 < cf_PeerIPLimitIncoming (n_conf s) \<longrightarrow> PeerStore_Count (c_peers s) (IP ep) < int (unat (cf_PeerIPLimitIncoming (n_conf s))))
        \<and> r = n_next s \<and> n_next s' = Suc r \<and> c_peerStatus s' = c_peerStatus s @ [(r, True)]
        \<and> IP (ep_of s' r) = IP ep \<and> (\<exists>p. Atoi (Port (ep_of s' r)) = Some p \<and> 1 \<le> p \<and> p \<le> 65535)
        \<and> pk_IsIncoming (n_heap s' r) \<and> \<not> p_stopped (n_heap s' r) \<and> (\<forall>q. q \<noteq> r \<longrightarrow> n_heap s' q = n_heap s q)
    | Inl _ \<Rightarrow> n_heap s' = n_heap s \<and> n_next s' = n_next s \<and> c_peerStatus s' = c_peerStatus s
        \<and> c_peerData s' = c_peerData s
        \<and> (allowIncoming (clk 0) (IP ep) s \<in> {Inl ErrMaxedOut, Inl ErrIPLimit} \<longrightarrow>
            (\<forall>prot c. RejectWithShare lib (n_conf s) con (fst (makePeerShare ep s)) = Inr (prot, c) \<longrightarrow> con' = c)))"
proof -
  from handshakeIncoming_inv [OF assms(1), of lib clk metrics con ep] assms(2) have inv: "net_inv s'" by auto
  show ?thesis
  proof (cases "allowIncoming (clk 0) (IP ep) s")
    case (Inl e)
    obtain share s1 where sh: "makePeerShare ep s = (share, s1)" by (rule prod.exhaust)
    from makePeerShare_inv(2) [OF assms(1) sh] have
      "n_heap s1 = n_heap s" "n_next s1 = n_next s" "c_peerStatus s1 = c_peerStatus s" "c_peerData s1 = c_peerData s"
      "n_conf s1 = n_conf s" by auto
    with Inl sh assms(2) inv show ?thesis
      by (auto simp: handshakeIncoming_def split: sum.splits prod.splits)
  next
    case (Inr u)
    then have allow: "\<not> isBannedIP (clk 0) (IP ep) s"
      "PeerStore_Total (c_peers s) < unat (cf_MaxIncoming (n_conf s)) \<or> isSpecialIP (IP ep) s"
      "0 < cf_PeerIPLimitIncoming (n_conf s) \<longrightarrow> PeerStore_Count (c_peers s) (IP ep) < int (unat (cf_PeerIPLimitIncoming (n_conf s)))"
      by (auto simp: allowIncoming_def not_le split: if_splits)
    show ?thesis
    proof (cases res)
      case (Inl e)
      with Inr assms(2) inv show ?thesis
        by (auto simp: handshakeIncoming_def start_peer_def Let_def split: sum.splits prod.splits)
    next
      case res: (Inr r)
      with Inr assms(2) obtain hs prot c pc where
        d: "detectProtocolFromFirstMessage lib (n_conf s) con = Inr (hs, prot, c)" and
        st: "start_peer (clk 1) hs (ep\<lparr>Port := hs_ListenPort hs\<rparr>) pc metrics True s = Some ((Inr r, con'), s')"
        by (auto simp: handshakeIncoming_def Let_def split: sum.splits prod.splits)
      from start_peer_inv [OF assms(1), of "clk 1" hs "ep\<lparr>Port := hs_ListenPort hs\<rparr>" pc metrics True] st obtain p where
        p: "newPeer (n_conf s) (clk 1) (hs_NodeID hs) (ep\<lparr>Port := hs_ListenPort hs\<rparr>) (snd pc) (fst pc) metrics True = Some p"
        and s': "r = n_next s" "s' = announce (n_next s) (hs_Type hs) (s\<lparr>n_heap := (n_heap s)(n_next s := p), n_next := Suc (n_next s)\<rparr>)"
        by auto
      have a: "n_heap s' = (n_heap s)(n_next s := p)" "n_next s' = Suc (n_next s)" "c_peerStatus s' = c_peerStatus s @ [(r, True)]"
        by (simp_all add: s' announce_def Let_def)
      have pp: "pk_Endpoint p = ep\<lparr>Port := hs_ListenPort hs\<rparr>" "pk_IsIncoming p" "\<not> p_stopped p"
        using p by (auto simp: newPeer_def split: option.splits)
      have "\<exists>p. Atoi (hs_ListenPort hs) = Some p \<and> 1 \<le> p \<and> p \<le> 65535" by (rule detect_port [OF d])
      with res allow inv a pp s'(1) show ?thesis by simp
    qed
  qed
qed

text \<open>The comment of \<open>handshakeIncoming\<close> says that a banned endpoint is turned away without alternatives; it gets the
  same rejection as any other.\<close>

lemma banned_gets_share:
  assumes "isBannedIP (clk 0) (IP ep) s" and "makePeerShare ep s = (share, s1)" and "n_conf s1 = n_conf s"
    and "RejectWithShare lib (n_conf s) con share = Inr (prot, c)"
  shows "handshakeIncoming lib clk metrics con ep s = Some ((Inl (Conn ErrRejecting, []), c), s1)"
  using assms by (simp add: handshakeIncoming_def allowIncoming_def)

text \<open>The example: a node that takes two incoming connections, and has two.\<close>

definition sample_full :: NetState where
  "sample_full = sample_net\<lparr>n_conf := DefaultP2PConfiguration\<lparr>cf_MaxIncoming := 2\<rparr>\<rparr>"

lemma sample_full_inv: "net_inv sample_full"
  using sample_net_inv
  by (simp add: sample_full_def net_inv_def conf_ok_def resend_ok_def sample_net_def DefaultP2PConfiguration_def)

lemma sample_full_refuses: "allowIncoming 5 ip sample_full = Inl ErrMaxedOut"
proof -
  have "length (ps_peers sample_store) = length (peers_of sample_store)" by (simp add: peers_of_def)
  then show ?thesis
    by (simp add: allowIncoming_def isBannedIP_def ban_end_def isSpecialIP_def sample_full_def sample_net_def
        PeerStore_Total_def sample_peers)
qed

theorem incoming_admission_witness:
  "allowIncoming 5 ''z'' sample_full = Inl ErrMaxedOut
    \<and> (\<exists>res con' s'. handshakeIncoming sample_lib (\<lambda>_. 5) (NewMetricsReadWriter ()) (open_rw []) \<lparr>IP = ''z'', Port = ''1''\<rparr>
      sample_full = Some ((Inl res, con'), s') \<and> n_next s' = 2)"
proof -
  let ?ep = "\<lparr>IP = ''z'', Port = ''1''\<rparr>"
  from handshakeIncoming_inv [OF sample_full_inv, of sample_lib "\<lambda>_. 5" "NewMetricsReadWriter ()" "open_rw []" ?ep]
  obtain res con' s' where h: "handshakeIncoming sample_lib (\<lambda>_. 5) (NewMetricsReadWriter ()) (open_rw []) ?ep sample_full
      = Some ((res, con'), s')" by auto
  note a = incoming_admission [OF sample_full_inv h]
  have "\<not> (PeerStore_Total (c_peers sample_full) < unat (cf_MaxIncoming (n_conf sample_full)) \<or> isSpecialIP ''z'' sample_full)"
    using sample_full_refuses [of "''z''"] by (auto simp: allowIncoming_def split: if_splits)
  with a obtain e where "res = Inl e" by (cases res) auto
  with a h show ?thesis by (auto simp: sample_full_refuses) (simp add: sample_full_def sample_net_def)
qed

end
