(* ===== verification/Persistence.thy ===== *)
theory Persistence
  imports Controller
begin

section \<open>The peer cache file\<close>

text \<open>
  \<open>controller_persistence.go\<close>. The file system and the JSON package are arguments: \<open>ReadFile\<close> gives the
  content of a file, and \<open>jm\<close> and \<open>ju\<close> are \<open>json.Marshal\<close> and \<open>json.Unmarshal\<close> for \<open>PeerCache\<close>.
  \<open>ju\<close> is applied to data only, since the object it fills in is always a new one. The bans of a cache may be a nil
  map (\<open>None\<close>): that is what \<open>json.Unmarshal\<close> makes of a file in which they are \<open>null\<close>.
\<close>

record PeerCache =
  pc_Bans :: "(string \<Rightarrow> time option) option"
  pc_Peers :: "Endpoint list"

type_synonym files = "string \<Rightarrow> bytes option"

definition newPeerCache :: PeerCache where
  "newPeerCache = \<lparr>pc_Bans = Some Map.empty, pc_Peers = []\<rparr>"

text \<open>Deleting from a map the entries that are over. Each entry is compared with a reading of the clock of its
  own (\<open>now\<close>) when the file is loaded, with one reading when it is written.\<close>

definition drop_over :: "(string \<Rightarrow> time) \<Rightarrow> (string \<Rightarrow> time option) \<Rightarrow> string \<Rightarrow> time option" where
  "drop_over now bans = (\<lambda>k. case bans k of None \<Rightarrow> None | Some v \<Rightarrow> if v < now k then None else Some v)"

definition loadPeerCache_file :: "(bytes \<Rightarrow> PeerCache option) \<Rightarrow> (string \<Rightarrow> time) \<Rightarrow> files \<Rightarrow> string \<Rightarrow>
    sys_error + PeerCache" where
  "loadPeerCache_file ju now fs path =
     (case fs path of
        None \<Rightarrow> Inl ErrFile
      | Some data \<Rightarrow>
          (case ju data of
             None \<Rightarrow> Inl ErrJson
           | Some pc \<Rightarrow> Inr (pc\<lparr>pc_Bans := map_option (drop_over now) (pc_Bans pc)\<rparr>)))"

text \<open>\<open>write_ok\<close>: whether the operating system lets the file be written.\<close>

definition WriteToFile :: "(PeerCache \<Rightarrow> bytes option) \<Rightarrow> bool \<Rightarrow> PeerCache \<Rightarrow> string \<Rightarrow> files \<Rightarrow> sys_error + files" where
  "WriteToFile jm write_ok pc path fs =
     (case jm pc of
        None \<Rightarrow> Inl ErrJson
      | Some data \<Rightarrow> if write_ok then Inr (fs(path \<mapsto> data)) else Inl ErrFile)"

definition createPeerCache :: "time \<Rightarrow> NetState \<Rightarrow> PeerCache \<times> NetState" where
  "createPeerCache now s =
     (let bans = drop_over (\<lambda>_. now) (bans_of s);
          s = s\<lparr>c_bans := map_option (drop_over (\<lambda>_. now)) (c_bans s)\<rparr>;
          (peers, s) = slice_peers s
      in (newPeerCache\<lparr>pc_Bans := Some bans, pc_Peers := map (ep_of s) peers\<rparr>, s))"

definition writePeerCache :: "(PeerCache \<Rightarrow> bytes option) \<Rightarrow> bool \<Rightarrow> time \<Rightarrow> files \<Rightarrow> NetState \<Rightarrow>
    (sys_error + files) \<times> NetState" where
  "writePeerCache jm write_ok now fs s =
     (if cf_PeerCacheFile (n_conf s) = [] then (Inr fs, s)
      else let (pc, s) = createPeerCache now s
           in (WriteToFile jm write_ok pc (cf_PeerCacheFile (n_conf s)) fs, s))"

text \<open>Without a file name there is no cache and no error.\<close>

definition loadPeerCache :: "(bytes \<Rightarrow> PeerCache option) \<Rightarrow> (string \<Rightarrow> time) \<Rightarrow> files \<Rightarrow> Configuration \<Rightarrow>
    sys_error + PeerCache option" where
  "loadPeerCache ju now fs conf =
     (if cf_PeerCacheFile conf = [] then Inr None
      else bindR (loadPeerCache_file ju now fs (cf_PeerCacheFile conf)) (\<lambda>pc. Inr (Some pc)))"

text \<open>What the JSON package promises: it reads back what it wrote, if the strings are ASCII.\<close>

definition ascii_cache :: "PeerCache \<Rightarrow> bool" where
  "ascii_cache pc \<longleftrightarrow> (\<forall>m. pc_Bans pc = Some m \<longrightarrow> (\<forall>k \<in> dom m. ascii k)) \<and> list_all ascii_endpoint (pc_Peers pc)"

definition cache_codec :: "(PeerCache \<Rightarrow> bytes option) \<Rightarrow> (bytes \<Rightarrow> PeerCache option) \<Rightarrow> bool" where
  "cache_codec jm ju \<longleftrightarrow> (\<forall>pc data. ascii_cache pc \<and> jm pc = Some data \<longrightarrow> ju data = Some pc)"

subsection \<open>Facts\<close>

lemma drop_over_twice:
  "(\<And>k. now k \<le> now' k) \<Longrightarrow> drop_over now' (drop_over now bans) = drop_over now' bans"
  by (auto simp: drop_over_def fun_eq_iff split: option.splits) (meson order.strict_trans2)

lemma createPeerCache_eq:
  assumes "net_inv s" and "createPeerCache now s = (pc, s')"
  shows "\<exists>rs. slice_peers (s\<lparr>c_bans := Some (drop_over (\<lambda>_. now) (bans_of s))\<rparr>) = (rs, s')
    \<and> pc = \<lparr>pc_Bans = Some (drop_over (\<lambda>_. now) (bans_of s)), pc_Peers = map (ep_of s') rs\<rparr>"
  using assms(2) net_inv_bans_of [OF assms(1)]
  by (auto simp: createPeerCache_def newPeerCache_def Let_def split: prod.splits)

lemma createPeerCache_inv:
  assumes "net_inv s" and "createPeerCache now s = (pc, s')"
  shows "net_inv s'" "mset (pc_Peers pc) = mset (map (ep_of s) (peers_of (c_peers s)))"
    "pc_Bans pc = Some (drop_over (\<lambda>_. now) (bans_of s))" "bans_of s' = drop_over (\<lambda>_. now) (bans_of s)" "n_heap s' = n_heap s"
    "peers_of (c_peers s') = peers_of (c_peers s)" "n_conf s' = n_conf s" "n_next s' = n_next s"
    "c_special s' = c_special s"
proof -
  let ?s = "s\<lparr>c_bans := Some (drop_over (\<lambda>_. now) (bans_of s))\<rparr>"
  from createPeerCache_eq [OF assms] obtain rs where sl: "slice_peers ?s = (rs, s')"
    and pc: "pc = \<lparr>pc_Bans = Some (drop_over (\<lambda>_. now) (bans_of s)), pc_Peers = map (ep_of s') rs\<rparr>" by blast
  have "net_inv ?s" by (rule net_inv_bans [OF assms(1)])
  note slice = slice_peers_inv [OF this sl] and fr = slice_frame [OF sl]
  show "net_inv s'" by (rule slice(1))
  from slice(2) fr(1) show "mset (pc_Peers pc) = mset (map (ep_of s) (peers_of (c_peers s)))"
    by (simp add: pc)
  show "pc_Bans pc = Some (drop_over (\<lambda>_. now) (bans_of s))" "bans_of s' = drop_over (\<lambda>_. now) (bans_of s)" "n_heap s' = n_heap s"
    "peers_of (c_peers s') = peers_of (c_peers s)" "n_conf s' = n_conf s" "n_next s' = n_next s"
    "c_special s' = c_special s"
    using fr by (simp_all add: pc)
qed

subsection \<open>Property\<close>

text \<open>C21: a restart loses neither bans nor peers: what a node writes to its cache file is read back at a later
  start as the endpoints of exactly the peers that were connected, and as a list of bans under which an
  address is banned at any time from then on exactly if it was banned for the node that wrote the file. This
  holds however much later the start is: \<open>configuration.go:47\<close> and the README give the file a maximum age for
  bootstrapping (\<open>PeerCacheAge\<close>, one hour by default), but no code looks at it.\<close>

theorem peer_cache_survives_restart:
  assumes "net_inv s" and "cf_PeerCacheFile (n_conf s) \<noteq> []" and "cache_codec jm ju"
    and "\<And>k. bans_of s k \<noteq> None \<Longrightarrow> ascii k" and "\<And>r. r \<in> set (peers_of (c_peers s)) \<Longrightarrow> ascii_endpoint (ep_of s r)"
    and "writePeerCache jm True now fs s = (Inr fs', s')" and "\<And>k. now \<le> later k"
  shows "\<exists>pc. loadPeerCache ju later fs' (n_conf s) = Inr (Some pc)
    \<and> mset (pc_Peers pc) = mset (map (ep_of s) (peers_of (c_peers s)))
    \<and> (\<forall>t a. 0 \<le> t \<and> later a \<le> t \<longrightarrow>
         (isBannedIP t a (s'\<lparr>c_bans := pc_Bans pc\<rparr>) \<longleftrightarrow> isBannedIP t a s)
       \<and> (isBannedIP t a s' \<longleftrightarrow> isBannedIP t a s))"
proof -
  obtain pc s1 where c: "createPeerCache now s = (pc, s1)" by (rule prod.exhaust)
  note inv = createPeerCache_inv [OF assms(1) c]
  from assms(2,6) c inv(7) obtain data where
    data: "jm pc = Some data" "fs' = fs(cf_PeerCacheFile (n_conf s) \<mapsto> data)" and s': "s' = s1"
    by (auto simp: writePeerCache_def WriteToFile_def split: option.splits)
  have "set (pc_Peers pc) = ep_of s ` set (peers_of (c_peers s))"
    using mset_eq_setD [OF inv(2)] by simp
  moreover have "dom (drop_over (\<lambda>_. now) (bans_of s)) \<subseteq> dom (bans_of s)"
    by (auto simp: drop_over_def split: option.splits)
  ultimately have "ascii_cache pc" using assms(4,5) inv(3) by (auto simp: ascii_cache_def list_all_iff)
  with data(1) assms(3) have ju: "ju data = Some pc" by (auto simp: cache_codec_def)
  let ?pc = "pc\<lparr>pc_Bans := Some (drop_over later (bans_of s))\<rparr>"
  have "loadPeerCache ju later fs' (n_conf s) = Inr (Some ?pc)"
    using assms(2,7) data ju by (simp add: loadPeerCache_def loadPeerCache_file_def inv(3) drop_over_twice)
  moreover have "isBannedIP t a (s'\<lparr>c_bans := pc_Bans ?pc\<rparr>) \<longleftrightarrow> isBannedIP t a s"
    "isBannedIP t a s' \<longleftrightarrow> isBannedIP t a s" if "0 \<le> t" "later a \<le> t" for t a
    using that assms(7) [of a] inv(3,4)
    by (auto simp: isBannedIP_def ban_end_def drop_over_def s' split: option.splits)
  ultimately show ?thesis using inv(2) by auto
qed

text \<open>The example: a coding that knows one cache only.\<close>

definition sample_filed :: NetState where
  "sample_filed = sample_net\<lparr>n_conf := DefaultP2PConfiguration\<lparr>cf_PeerCacheFile := ''f''\<rparr>\<rparr>"

definition sample_cache :: PeerCache where
  "sample_cache = fst (createPeerCache 5 sample_filed)"

lemma sample_filed_inv: "net_inv sample_filed"
  using sample_net_inv by (simp add: sample_filed_def net_inv_def conf_ok_def resend_ok_def sample_net_def DefaultP2PConfiguration_def)

theorem peer_cache_survives_restart_witness:
  "\<exists>fs' pc. fst (writePeerCache (\<lambda>pc. if pc = sample_cache then Some [] else None) True 5 Map.empty sample_filed) = Inr fs'
    \<and> loadPeerCache (\<lambda>_. Some sample_cache) (\<lambda>_. 6) fs' (n_conf sample_filed) = Inr (Some pc)
    \<and> mset (pc_Peers pc) = {#\<lparr>IP = ''a'', Port = ''1''\<rparr>, \<lparr>IP = ''a'', Port = ''11''\<rparr>#}"
proof -
  let ?jm = "\<lambda>pc. if pc = sample_cache then Some [] else None"
  obtain s1 where c: "createPeerCache 5 sample_filed = (sample_cache, s1)"
    by (metis prod.collapse sample_cache_def)
  have w: "writePeerCache ?jm True 5 Map.empty sample_filed = (Inr [''f'' \<mapsto> []], s1)"
    using createPeerCache_inv(7) [OF sample_filed_inv c]
    by (simp add: writePeerCache_def c WriteToFile_def) (simp add: sample_filed_def)
  have p: "peers_of (c_peers sample_filed) = [0, 1]" by (simp add: sample_filed_def sample_net_def sample_peers)
  have e: "ep_of sample_filed r = \<lparr>IP = ''a'', Port = replicate (Suc r) CHR ''1''\<rparr>" for r
    by (simp add: sample_filed_def sample_net_def sample_peer_consts)
  have a: "ascii_endpoint (ep_of sample_filed r)" for r
    by (simp add: e ascii_endpoint_def ascii_def list_all_iff)
  have "cache_codec ?jm (\<lambda>_. Some sample_cache)" by (simp add: cache_codec_def)
  from peer_cache_survives_restart [OF sample_filed_inv _ this _ a w, of "\<lambda>_. 6"]
  have "\<exists>pc. loadPeerCache (\<lambda>_. Some sample_cache) (\<lambda>_. 6) [''f'' \<mapsto> []] (n_conf sample_filed) = Inr (Some pc)
      \<and> mset (pc_Peers pc) = mset (map (ep_of sample_filed) [0, 1])"
    by (auto simp: p) (auto simp: sample_filed_def sample_net_def)
  then show ?thesis by (auto simp: w e)
qed

end
