(* ===== verification/Cat.thy ===== *)
theory Cat
  imports Connecting Persistence
begin

section \<open>The CAT algorithm: dropping and finding peers\<close>

text \<open>
  The rest of \<open>controller_cat.go\<close>: \<open>runCatRound\<close>, which drops random connections, and \<open>catReplenish\<close>, which
  finds new ones. The parts of the world that these reach are collected in a record: the libraries, the web
  and the network, with a clock and a connection for each dial, what the other goroutines of the node do
  after it (\<open>w_env\<close>), and whether a peer request has timed out when it is looked at (\<open>w_late\<close>).
\<close>

record World =
  w_lib :: Lib
  w_cache_jm :: "PeerCache \<Rightarrow> bytes option"
  w_write_ok :: bool
  w_http :: web
  w_dial :: "nat \<Rightarrow> string \<Rightarrow> sys_error + gob_conn"
  w_clock :: "nat \<Rightarrow> clock"
  w_metrics :: "nat \<Rightarrow> unit MetricsReadWriter"
  w_env :: "nat \<Rightarrow> NetState \<Rightarrow> NetState"
  w_late :: bool

subsection \<open>Rounds\<close>

text \<open>The loop that drops peers, over the peers in the order of the permutation.\<close>

primrec drop_loop :: "nat \<Rightarrow> peer_ref list \<Rightarrow> nat \<Rightarrow> NetState \<Rightarrow> NetState option" where
  "drop_loop toDrop [] dropped s = Some s"
| "drop_loop toDrop (p # ps) dropped s =
     (if isSpecial (ep_of s p) s then drop_loop toDrop ps dropped s
      else case Peer_Stop p s of
        None \<Rightarrow> None
      | Some s \<Rightarrow> if Suc dropped \<ge> toDrop then Some s else drop_loop toDrop ps (Suc dropped) s)"

definition runCatRound :: "World \<Rightarrow> time \<Rightarrow> time \<Rightarrow> time \<Rightarrow> files \<Rightarrow> NetState \<Rightarrow> (files \<times> NetState) option" where
  "runCatRound w now1 now2 now3 fs s =
     (if Since now1 (c_lastRound s) < cf_RoundTime (n_conf s) then Some (fs, s)
      else
        let s = s\<lparr>c_lastRound := now2, c_rounds := Suc (c_rounds s)\<rparr>;
            (written, s) = writePeerCache (w_cache_jm w) (w_write_ok w) now3 fs s;
            fs = (case written of Inl _ \<Rightarrow> fs | Inr fs' \<Rightarrow> fs');
            (peers, s) = slice_peers s;
            toDrop = int (length peers) - go_int (int (unat (cf_DropTo (n_conf s))))
        in if toDrop > 0
           then let (perm, rnd) = Perm (n_rng s) (length peers);
                    s = s\<lparr>n_rng := rnd\<rparr>
                in map_option (\<lambda>s. (fs, s)) (drop_loop (nat toDrop) (map (\<lambda>i. peers ! i) perm) 0 s)
           else Some (fs, s))"

subsection \<open>Asking a peer for peers\<close>

text \<open>\<open>asyncPeerRequest\<close> up to the point where it waits, and from there on: the response that was delivered, or
  the timeout. If there is a response and the time is over as well, either may be seen; \<open>late\<close> decides. Without a
  response the end is the timeout in any case. What the other goroutines do in the meantime is \<open>env\<close>.\<close>

definition request_begin :: "time \<Rightarrow> peer_ref \<Rightarrow> NetState \<Rightarrow> NetState option" where
  "request_begin now peer s =
     (let s = s\<lparr>c_shareListener := (c_shareListener s)(pk_Hash (n_heap s peer) \<mapsto> newParcelChannel 1)\<rparr>;
          s = s\<lparr>n_heap := (n_heap s)(peer := (n_heap s peer)\<lparr>p_lastPeerSend := now\<rparr>)\<rparr>
      in send_to (Some (newParcel TypePeerRequest (string_bytes ''Peer Request''))) peer s)"

definition request_end :: "Lib \<Rightarrow> clock \<Rightarrow> bool \<Rightarrow> peer_ref \<Rightarrow> NetState \<Rightarrow> (conn_error + Endpoint list) \<times> NetState" where
  "request_end lib clk late peer s =
     (let hsh = pk_Hash (n_heap s peer);
          response = (if late then None
            else case c_shareListener s hsh of None \<Rightarrow> None | Some async \<Rightarrow> Channel_Receive async);
          (res, s) = (case response of
             Some (Some parcel, _) \<Rightarrow>
               (let (share, s) = shuffleTrimShare (processPeerShare lib clk peer parcel s) s in (Inr share, s))
           | _ \<Rightarrow> (Inl ErrTimeout, s))
      in (res, s\<lparr>c_shareListener := (c_shareListener s)(hsh := None)\<rparr>))"

definition asyncPeerRequest :: "Lib \<Rightarrow> time \<Rightarrow> clock \<Rightarrow> bool \<Rightarrow> (NetState \<Rightarrow> NetState) \<Rightarrow> peer_ref \<Rightarrow> NetState \<Rightarrow>
    ((conn_error + Endpoint list) \<times> NetState) option" where
  "asyncPeerRequest lib now clk late env peer s = map_option (\<lambda>s. request_end lib clk late peer (env s)) (request_begin now peer s)"

subsection \<open>Finding new peers\<close>

definition canDial :: "clock \<Rightarrow> Endpoint \<Rightarrow> NetState \<Rightarrow> bool" where
  "canDial clk ep s \<longleftrightarrow> \<not> PeerStore_Connected (c_peers s) ep \<and> \<not> isBannedEndpoint (clk 0) (clk 1) ep s
     \<and> CanDial (clk 2) ep (c_dialer s)"

primrec dialable :: "clock \<Rightarrow> NetState \<Rightarrow> Endpoint list \<Rightarrow> Endpoint list" where
  "dialable clk s [] = []"
| "dialable clk s (ep # eps) = (if canDial clk ep s then ep # dialable (later 3 clk) s eps else dialable (later 3 clk) s eps)"

text \<open>One dial of the loops below: the \<open>i\<close>-th of the run, and what happens in the node until the loop goes on.\<close>

definition dial_one :: "World \<Rightarrow> nat \<Rightarrow> Endpoint \<Rightarrow> NetState \<Rightarrow> ((peer_ref option \<times> Endpoint list) \<times> NetState) option" where
  "dial_one w i ep s =
     map_option (\<lambda>(res, s). (res, w_env w i s)) (Dial (w_lib w) (w_dial w i) (later 3 (w_clock w i)) (w_metrics w i) ep s)"

text \<open>The bootstrap peers, before the loop.\<close>

primrec bootstrap_loop :: "World \<Rightarrow> nat \<Rightarrow> Endpoint list \<Rightarrow> NetState \<Rightarrow> NetState option" where
  "bootstrap_loop w i [] s = Some s"
| "bootstrap_loop w i (ep # eps) s =
     (if canDial (w_clock w i) ep s
      then Option.bind (dial_one w i ep s) (\<lambda>(_, s). bootstrap_loop w (Suc i) eps s)
      else bootstrap_loop w (Suc i) eps s)"

definition bootstrap_peers :: "World \<Rightarrow> NetState \<Rightarrow> NetState option" where
  "bootstrap_peers w s =
     (if length (c_bootstrap s) > 0
      then map_option (\<lambda>s. s\<lparr>c_bootstrap := []\<rparr>) (bootstrap_loop w 0 (c_bootstrap s) s)
      else Some s)"

text \<open>The seeds are shuffled in place, in the seed's own cache.\<close>

definition seed_peers :: "World \<Rightarrow> clock \<Rightarrow> NetState \<Rightarrow> Endpoint list \<times> NetState" where
  "seed_peers w clk s =
     (let (seeds, sd) = seed_retrieve (w_http w) (clk 0) (clk 1) (c_seed s);
          (seeds, rnd) = Shuffle (n_rng s) seeds
      in (dialable (later 2 clk) s seeds, s\<lparr>c_seed := sd\<lparr>sd_cache := Some seeds\<rparr>, n_rng := rnd\<rparr>))"

text \<open>The number of peers up to which the seed is asked again. The seed's size is looked up twice; it is unsigned,
  so that an empty seed gives the largest number.\<close>

definition reseed_limit :: "World \<Rightarrow> clock \<Rightarrow> NetState \<Rightarrow> uint \<times> NetState" where
  "reseed_limit w clk s =
     (let minReseed = cf_MinReseed (n_conf s);
          (n, sd) = seed_size (w_http w) (clk 0) (clk 1) (c_seed s);
          s = s\<lparr>c_seed := sd\<rparr>
      in if of_nat n < minReseed
         then let (n, sd) = seed_size (w_http w) (clk 2) (clk 3) (c_seed s) in (of_nat n - 1, s\<lparr>c_seed := sd\<rparr>)
         else (minReseed, s))"

definition reseed :: "World \<Rightarrow> (nat \<Rightarrow> clock) \<Rightarrow> time \<Rightarrow> NetState \<Rightarrow> Endpoint list \<times> time \<times> NetState" where
  "reseed w ck lastReseed s =
     (let (minReseed, s) = reseed_limit w (ck 1) s
      in if of_nat (PeerStore_Total (c_peers s)) \<le> minReseed
            \<or> Since (ck 2 0) lastReseed > cf_PeerReseedInterval (n_conf s)
         then let (seeds, s) = seed_peers w (ck 3) s in (seeds, ck 2 1, s)
         else ([], lastReseed, s))"

text \<open>One endpoint, or none, from the share of a random peer. The condition on the random peer reads the clock for
  each peer (\<open>ck 6\<close>).\<close>

definition ask_random :: "World \<Rightarrow> (nat \<Rightarrow> clock) \<Rightarrow> (NetState \<Rightarrow> NetState) \<Rightarrow> NetState \<Rightarrow>
    (Endpoint list \<times> NetState) option" where
  "ask_random w ck env s =
     (if PeerStore_Total (c_peers s) > 0
      then
        let (rand, s) = randomPeerConditional
              (\<lambda>i p. Since (ck 6 i) (p_lastPeerSend p) \<ge> cf_PeerRequestInterval (n_conf s)) s
        in case rand of
             None \<Rightarrow> Some ([], s)
           | Some peer \<Rightarrow>
               (case asyncPeerRequest (w_lib w) (ck 2 3) (ck 4) (w_late w) env peer s of
                  None \<Rightarrow> None
                | Some (Inl _, s) \<Rightarrow> Some ([], s)
                | Some (Inr eps, s) \<Rightarrow>
                    if length eps > 0
                    then let (el, rnd) = Intn (n_rng s) (length eps);
                             s = s\<lparr>n_rng := rnd\<rparr>;
                             ep = eps ! el
                         in Some (if canDial (ck 5) ep s then [ep] else [], s)
                    else Some ([], s))
      else Some ([], s))"

text \<open>The endpoints to connect to: special peers, seeds, and one from the share of a random peer.\<close>

definition candidates :: "World \<Rightarrow> (nat \<Rightarrow> clock) \<Rightarrow> (NetState \<Rightarrow> NetState) \<Rightarrow> time \<Rightarrow> NetState \<Rightarrow>
    (Endpoint list \<times> time \<times> NetState) option" where
  "candidates w ck env lastReseed s =
     (let connect = dialable (ck 0) s (c_specialEndpoints s);
          (seeds, lastReseed, s) = reseed w ck lastReseed s
      in map_option (\<lambda>(shared, s). (connect @ seeds @ shared, lastReseed, s)) (ask_random w ck env s))"

text \<open>The loop that dials. \<open>attempts\<close> counts the dials.\<close>

function connect_loop :: "World \<Rightarrow> nat \<Rightarrow> Endpoint list \<Rightarrow> nat \<Rightarrow> nat \<Rightarrow> NetState \<Rightarrow> (nat \<times> NetState) option" where
  "connect_loop w i connect attemptsLimit attempts s =
     (if length connect > 0 \<and> attempts < attemptsLimit
         \<and> PeerStore_Total (c_peers s) < unat (cf_TargetPeers (n_conf s))
      then
        let ep = hd connect; connect = tl connect
        in if \<not> canDial (w_clock w i) ep s then connect_loop w (Suc i) connect attemptsLimit attempts s
           else case dial_one w i ep s of
             None \<Rightarrow> None
           | Some ((p, alts), s) \<Rightarrow>
               connect_loop w (Suc i) (if p \<noteq> None then connect @ alts else connect) attemptsLimit (Suc attempts) s
      else Some (attempts, s))"
  by pat_completeness auto
termination
  by (relation "measures [\<lambda>(w, i, connect, limit, attempts, s). limit - attempts,
    \<lambda>(w, i, connect, limit, attempts, s). length connect]") auto

declare connect_loop.simps [simp del]

text \<open>One turn of the replenish loop. The result says how many dials there were; after a turn without any, and
  when there are enough peers, the loop sleeps for a second.\<close>

definition replenish_step :: "World \<Rightarrow> (nat \<Rightarrow> clock) \<Rightarrow> (NetState \<Rightarrow> NetState) \<Rightarrow> time \<Rightarrow> NetState \<Rightarrow> (nat \<times> time \<times> NetState) option" where
  "replenish_step w ck env lastReseed s =
     (if PeerStore_Total (c_peers s) \<ge> unat (cf_TargetPeers (n_conf s)) then Some (0, lastReseed, s)
      else case candidates w ck env lastReseed s of
        None \<Rightarrow> None
      | Some (connect, lastReseed, s) \<Rightarrow>
          map_option (\<lambda>(attempts, s). (attempts, lastReseed, s)) (connect_loop w 0 connect (length connect + 5) 0 s))"

subsection \<open>The invariant\<close>

text \<open>What the other goroutines do keeps the node in order.\<close>

definition env_ok :: "(NetState \<Rightarrow> NetState) \<Rightarrow> bool" where
  "env_ok env \<longleftrightarrow> (\<forall>s. net_inv s \<longrightarrow> net_inv (env s))"

definition world_ok :: "World \<Rightarrow> bool" where
  "world_ok w \<longleftrightarrow> (\<forall>i. env_ok (w_env w i))"

lemma net_inv_seed: "net_inv s \<Longrightarrow> seed_ok sd \<Longrightarrow> net_inv (s\<lparr>c_seed := sd\<rparr>)"
  by (simp add: net_inv_def)

lemma net_inv_cat [simp]:
  "net_inv (s\<lparr>c_bootstrap := b\<rparr>) = net_inv s" "net_inv (s\<lparr>c_lastRound := t\<rparr>) = net_inv s"
  "net_inv (s\<lparr>c_rounds := n\<rparr>) = net_inv s"
  by (simp_all add: net_inv_def)

lemma seed_size_ok: "seed_ok sd \<Longrightarrow> seed_size web t1 t2 sd = (n, sd') \<Longrightarrow> seed_ok sd'"
proof -
  assume a: "seed_ok sd" "seed_size web t1 t2 sd = (n, sd')"
  obtain eps sd1 where r: "seed_retrieve web t1 t2 sd = (eps, sd1)" by (rule prod.exhaust)
  from seed_retrieve_correct [OF a(1) r] a(2) r show "seed_ok sd'" by (simp add: seed_size_def)
qed

lemma seed_peers_inv:
  assumes "net_inv s" and "seed_peers w clk s = (eps, s')"
  shows "net_inv s' \<and> (\<exists>sd rnd. s' = s\<lparr>c_seed := sd, n_rng := rnd\<rparr>)"
proof -
  obtain seeds sd where r: "seed_retrieve (w_http w) (clk 0) (clk 1) (c_seed s) = (seeds, sd)" by (rule prod.exhaust)
  obtain shuffled rnd where sh: "Shuffle (n_rng s) seeds = (shuffled, rnd)" by (rule prod.exhaust)
  have "seed_ok (c_seed s)" using assms(1) by (simp add: net_inv_def)
  from seed_retrieve_correct [OF this r] have v: "list_all Endpoint_Valid seeds" by blast
  have "set shuffled = set seeds" using Shuffle_mset [OF sh] by (metis mset_eq_setD)
  with v have "seed_ok (sd\<lparr>sd_cache := Some shuffled\<rparr>)" by (auto simp: seed_ok_def list_all_iff)
  from net_inv_seed [OF assms(1) this] have "net_inv (s\<lparr>c_seed := sd\<lparr>sd_cache := Some shuffled\<rparr>, n_rng := rnd\<rparr>)" by simp
  moreover have "s' = s\<lparr>c_seed := sd\<lparr>sd_cache := Some shuffled\<rparr>, n_rng := rnd\<rparr>"
    using assms(2) r sh by (simp add: seed_peers_def)
  ultimately show ?thesis by blast
qed

lemma reseed_limit_inv:
  assumes "net_inv s" and "reseed_limit w clk s = (m, s')"
  shows "net_inv s' \<and> (\<exists>sd. s' = s\<lparr>c_seed := sd\<rparr>)"
proof -
  have "seed_ok (c_seed s)" using assms(1) by (simp add: net_inv_def)
  note ok = seed_size_ok [OF this]
  obtain n sd where n: "seed_size (w_http w) (clk 0) (clk 1) (c_seed s) = (n, sd)" by (rule prod.exhaust)
  obtain n' sd' where n': "seed_size (w_http w) (clk 2) (clk 3) sd = (n', sd')" by (rule prod.exhaust)
  have "s' = s\<lparr>c_seed := sd\<rparr> \<or> s' = s\<lparr>c_seed := sd'\<rparr>"
    using assms(2) n n' by (auto simp: reseed_limit_def Let_def split: if_splits)
  with net_inv_seed [OF assms(1) ok [OF n]] net_inv_seed [OF assms(1) seed_size_ok [OF ok [OF n] n']]
  show ?thesis by blast
qed

lemma dial_one_inv:
  assumes "net_inv s" and "world_ok w"
  shows "\<exists>res s'. dial_one w i ep s = Some (res, s') \<and> net_inv s'"
  using Dial_inv [OF assms(1)] assms(2) by (fastforce simp: dial_one_def world_ok_def env_ok_def)

lemma bootstrap_loop_inv:
  "net_inv s \<Longrightarrow> world_ok w \<Longrightarrow> \<exists>s'. bootstrap_loop w i eps s = Some s' \<and> net_inv s'"
proof (induction eps arbitrary: i s)
  case (Cons ep eps)
  from dial_one_inv [OF Cons.prems, of i ep] Cons.IH [OF _ Cons.prems(2)] Cons.prems show ?case by fastforce
qed simp

lemma bootstrap_peers_inv:
  "net_inv s \<Longrightarrow> world_ok w \<Longrightarrow> \<exists>s'. bootstrap_peers w s = Some s' \<and> net_inv s'"
  using bootstrap_loop_inv by (fastforce simp: bootstrap_peers_def)

lemma request_begin_inv:
  assumes "net_inv s" and "peer < n_next s"
  shows "\<exists>s'. request_begin now peer s = Some s' \<and> net_inv s'"
proof -
  let ?t = "s\<lparr>c_shareListener := (c_shareListener s)(pk_Hash (n_heap s peer) \<mapsto> newParcelChannel 1)\<rparr>"
  let ?u = "?t\<lparr>n_heap := (n_heap ?t)(peer := (n_heap ?t peer)\<lparr>p_lastPeerSend := now\<rparr>)\<rparr>"
  have t: "net_inv ?t" using assms(1) by simp
  have "net_inv ?u"
    using net_invD(2) [OF assms] assms(2)
    by (intro net_inv_heap [OF t]) (simp_all add: peer_ok_def PeerConsts.truncate_def)
  then show ?thesis
    using send_to_inv [of ?u peer] assms(2) by (fastforce simp: request_begin_def Let_def)
qed

lemma request_end_inv:
  assumes "net_inv s"
  shows "net_inv (snd (request_end lib clk late peer s))"
proof -
  have "net_inv s3" if "shuffleTrimShare list s = (share, s3)" for list share s3
    using shuffleTrimShare_props(3) [OF that] assms by auto
  with assms show ?thesis by (auto simp: request_end_def Let_def split: option.splits prod.splits)
qed

lemma asyncPeerRequest_inv:
  assumes "net_inv s" and "peer < n_next s" and "env_ok env"
  shows "\<exists>res s'. asyncPeerRequest lib now clk late env peer s = Some (res, s') \<and> net_inv s'"
proof -
  from request_begin_inv [OF assms(1,2)] obtain s1 where s1: "request_begin now peer s = Some s1" "net_inv s1" by blast
  then have "net_inv (snd (request_end lib clk late peer (env s1)))"
    using assms(3) by (intro request_end_inv) (simp add: env_ok_def)
  with s1(1) show ?thesis by (auto simp: asyncPeerRequest_def intro: prod.exhaust_sel)
qed

lemma reseed_inv:
  assumes "net_inv s" and "reseed w ck lastReseed s = (seeds, t, s')"
  shows "net_inv s'"
proof -
  obtain m s1 where m: "reseed_limit w (ck 1) s = (m, s1)" by (rule prod.exhaust)
  obtain eps s2 where e: "seed_peers w (ck 3) s1 = (eps, s2)" by (rule prod.exhaust)
  from reseed_limit_inv [OF assms(1) m] seed_peers_inv [OF _ e] assms(2) m e show ?thesis
    by (auto simp: reseed_def split: if_splits)
qed

lemma ask_random_inv:
  assumes "net_inv s" and "env_ok env"
  shows "\<exists>eps s'. ask_random w ck env s = Some (eps, s') \<and> net_inv s' \<and> length eps \<le> 1"
proof -
  obtain x s1 where x: "randomPeerConditional (\<lambda>i p. Since (ck 6 i) (p_lastPeerSend p) \<ge> cf_PeerRequestInterval (n_conf s)) s = (x, s1)"
    by (rule prod.exhaust)
  note s1 = randomPeerConditional_inv [OF assms(1) x]
  show ?thesis
  proof (cases x)
    case None
    with x assms(1) s1(2) show ?thesis by (simp add: ask_random_def)
  next
    case (Some peer)
    with s1(3) net_invD(3) [OF assms(1), of peer] reshuffled_frame(2) [OF s1(1)] have "peer < n_next s1" by simp
    from asyncPeerRequest_inv [OF s1(2) this assms(2), of "w_lib w" "ck 2 3" "ck 4" "w_late w"] obtain res s2 where
      "asyncPeerRequest (w_lib w) (ck 2 3) (ck 4) (w_late w) env peer s1 = Some (res, s2)" "net_inv s2" by blast
    with Some x assms(1) show ?thesis
      by (cases res) (auto simp: ask_random_def Let_def split: prod.splits)
  qed
qed

lemma candidates_inv:
  assumes "net_inv s" and "env_ok env"
  shows "\<exists>connect t s'. candidates w ck env lastReseed s = Some (connect, t, s') \<and> net_inv s'"
proof -
  obtain seeds t s1 where r: "reseed w ck lastReseed s = (seeds, t, s1)" by (rule prod_cases3)
  from ask_random_inv [OF reseed_inv [OF assms(1) r] assms(2), of w ck] r show ?thesis
    by (auto simp: candidates_def)
qed

lemma connect_loop_inv:
  "net_inv s \<Longrightarrow> world_ok w \<Longrightarrow> \<exists>n s'. connect_loop w i connect limit attempts s = Some (n, s') \<and> net_inv s'"
proof (induction w i connect limit attempts s rule: connect_loop.induct)
  case (1 w i connect limit attempts s)
  from dial_one_inv [OF 1(3,4), of i "hd connect"] obtain p alts s1 where
    d: "dial_one w i (hd connect) s = Some ((p, alts), s1)" "net_inv s1" by auto
  show ?case
  proof (cases "length connect > 0 \<and> attempts < limit \<and> PeerStore_Total (c_peers s) < unat (cf_TargetPeers (n_conf s))")
    case go: True
    show ?thesis
    proof (cases "canDial (w_clock w i) (hd connect) s")
      case True
      have "\<exists>n s'. connect_loop w (Suc i) (if p \<noteq> None then tl connect @ alts else tl connect) limit (Suc attempts) s1
          = Some (n, s') \<and> net_inv s'"
        by (rule 1(2) [OF go refl refl _ d(1) refl refl d(2) 1(4)]) (simp add: True)
      with go True d show ?thesis by (subst connect_loop.simps) (simp add: Let_def)
    next
      case False
      have "\<exists>n s'. connect_loop w (Suc i) (tl connect) limit attempts s = Some (n, s') \<and> net_inv s'"
        by (rule 1(1) [OF go refl refl False 1(3,4)])
      with go False show ?thesis by (subst connect_loop.simps) (simp add: Let_def)
    qed
  next
    case False
    with 1(3) show ?thesis by (simp only: connect_loop.simps [of w i connect limit attempts s] if_False) blast
  qed
qed

lemma replenish_step_inv:
  assumes "net_inv s" and "world_ok w" and "env_ok env"
  shows "\<exists>n t s'. replenish_step w ck env lastReseed s = Some (n, t, s') \<and> net_inv s'"
proof -
  from candidates_inv [OF assms(1,3), of w ck lastReseed] obtain connect t s1 where
    c: "candidates w ck env lastReseed s = Some (connect, t, s1)" "net_inv s1" by blast
  from connect_loop_inv [OF c(2) assms(2), of 0 connect "length connect + 5" 0] c(1) assms(1) show ?thesis
    by (auto simp: replenish_step_def)
qed

subsection \<open>Rounds drop the surplus\<close>

text \<open>The loop stops the first \<open>toDrop - dropped\<close> peers that are not special.\<close>

lemma isSpecial_stopped: "only_stopped R s s' \<Longrightarrow> isSpecial ep s' = isSpecial ep s"
  by (simp add: isSpecial_def only_stopped_frame)

lemma drop_loop_result:
  assumes "net_inv s" and "\<And>r. r \<in> set ps \<Longrightarrow> r < n_next s" and "dropped < toDrop"
  defines "D \<equiv> take (toDrop - dropped) (filter (\<lambda>r. \<not> isSpecial (ep_of s r) s) ps)"
  shows "\<exists>s'. drop_loop toDrop ps dropped s = Some s' \<and> net_inv s' \<and> only_stopped (set D) s s'
    \<and> (\<forall>r \<in> set D. p_stopped (n_heap s' r))"
  using assms(1-3) unfolding D_def
proof (induction ps arbitrary: dropped s)
  case Nil
  then show ?case by (simp add: only_stopped_refl)
next
  case (Cons p ps)
  show ?case
  proof (cases "isSpecial (ep_of s p) s")
    case True
    with Cons.IH [OF Cons.prems(1) _ Cons.prems(3)] Cons.prems(2) show ?thesis by simp
  next
    case False
    from Peer_Stop_only [OF Cons.prems(1), of p] Cons.prems(2) obtain s1 where
      s1: "Peer_Stop p s = Some s1" "net_inv s1" "only_stopped {p} s s1" "p_stopped (n_heap s1 p)" by auto
    note fr = only_stopped_frame [OF s1(3)]
    let ?np = "\<lambda>r. \<not> isSpecial (ep_of s r) s"
    show ?thesis
    proof (cases "Suc dropped \<ge> toDrop")
      case True
      with Cons.prems(3) have "toDrop - dropped = 1" by simp
      with True False s1 show ?thesis by simp
    next
      case more: False
      then have "Suc dropped < toDrop" by simp
      moreover have "\<And>r. r \<in> set ps \<Longrightarrow> r < n_next s1" using Cons.prems(2) fr(1) by simp
      ultimately obtain s' where s': "drop_loop toDrop ps (Suc dropped) s1 = Some s'" "net_inv s'"
        "only_stopped (set (take (toDrop - Suc dropped) (filter ?np ps))) s1 s'"
        "\<forall>r \<in> set (take (toDrop - Suc dropped) (filter ?np ps)). p_stopped (n_heap s' r)"
        using Cons.IH [of s1 "Suc dropped"] s1(2) by (auto simp: isSpecial_stopped [OF s1(3)] fr(7))
      have "p_stopped (n_heap s' p)" using s'(3) s1(4) by (simp add: only_stopped_def)
      moreover have "take (toDrop - dropped) (filter ?np (p # ps)) = p # take (toDrop - Suc dropped) (filter ?np ps)"
        using False more Cons.prems(3) by (simp add: Suc_diff_Suc [symmetric])
      ultimately show ?thesis
        using only_stopped_trans [OF s1(3) s'(3)] s' s1(1) False more by auto
    qed
  qed
qed

lemma Total_peers: "PeerStore_Total ps = length (peers_of ps)"
  by (simp add: PeerStore_Total_def peers_of_def)

lemma writePeerCache_inv:
  assumes "net_inv s" and "writePeerCache jm ok now fs s = (res, s')"
  shows "net_inv s'" "n_heap s' = n_heap s" "peers_of (c_peers s') = peers_of (c_peers s)" "n_conf s' = n_conf s"
    "n_next s' = n_next s" "c_special s' = c_special s" "c_rounds s' = c_rounds s" "c_lastRound s' = c_lastRound s"
    "\<exists>pc. mset (pc_Peers pc) = mset (map (ep_of s) (peers_of (c_peers s))) \<and> pc_Bans pc = Some (drop_over (\<lambda>_. now) (bans_of s))
       \<and> res = (if cf_PeerCacheFile (n_conf s) = [] then Inr fs
              else WriteToFile jm ok pc (cf_PeerCacheFile (n_conf s)) fs)"
proof -
  obtain pc s1 where c: "createPeerCache now s = (pc, s1)" by (rule prod.exhaust)
  note inv = createPeerCache_inv [OF assms(1) c]
  have fr: "c_rounds s1 = c_rounds s" "c_lastRound s1 = c_lastRound s"
    using c by (auto simp: createPeerCache_def slice_peers_def Let_def split: prod.splits)
  have s': "s' = (if cf_PeerCacheFile (n_conf s) = [] then s else s1)"
    "res = (if cf_PeerCacheFile (n_conf s) = [] then Inr fs else WriteToFile jm ok pc (cf_PeerCacheFile (n_conf s)) fs)"
    using assms(2) c inv(7) by (auto simp: writePeerCache_def)
  show "net_inv s'" "n_heap s' = n_heap s" "peers_of (c_peers s') = peers_of (c_peers s)" "n_conf s' = n_conf s"
    "n_next s' = n_next s" "c_special s' = c_special s" "c_rounds s' = c_rounds s" "c_lastRound s' = c_lastRound s"
    using s'(1) inv fr assms(1) by simp_all
  show "\<exists>pc. mset (pc_Peers pc) = mset (map (ep_of s) (peers_of (c_peers s))) \<and> pc_Bans pc = Some (drop_over (\<lambda>_. now) (bans_of s))
       \<and> res = (if cf_PeerCacheFile (n_conf s) = [] then Inr fs
              else WriteToFile jm ok pc (cf_PeerCacheFile (n_conf s)) fs)"
    using inv(2,3) s'(2) by blast
qed

text \<open>Dropping along a random permutation of the peers.\<close>

lemma drop_surplus:
  assumes "net_inv s" and "slice_peers s = (peers, s1)" and "0 < toDrop"
  defines "plain \<equiv> {r \<in> set (peers_of (c_peers s)). \<not> isSpecial (ep_of s r) s}"
  shows "\<exists>s' D. drop_loop toDrop (map (\<lambda>i. peers ! i) (fst (Perm rnd (length peers)))) 0 (s1\<lparr>n_rng := rnd'\<rparr>) = Some s'
    \<and> net_inv s' \<and> D \<subseteq> plain \<and> card D = min toDrop (card plain)
    \<and> (\<forall>r. r \<notin> D \<longrightarrow> n_heap s' r = n_heap s r) \<and> (\<forall>r \<in> D. p_stopped (n_heap s' r))
    \<and> peers_of (c_peers s') = peers_of (c_peers s) \<and> c_rounds s' = c_rounds s1 \<and> c_lastRound s' = c_lastRound s1"
proof -
  let ?s = "s1\<lparr>n_rng := rnd'\<rparr>" and ?ps = "map ((!) peers) (fst (Perm rnd (length peers)))"
  note sl = slice_reshuffled [OF assms(1,2)] and fr = reshuffled_frame [OF slice_reshuffled(1) [OF assms(1,2)]]
  have m: "mset ?ps = mset peers" by (rule Perm_lookup_mset)
  have st: "set ?ps = set (peers_of (c_peers s))" using mset_eq_setD [OF m] sl(3) by simp
  have dist: "distinct ?ps" using mset_eq_imp_distinct_iff [OF m] sl(4) by simp
  let ?np = "\<lambda>r. \<not> isSpecial (ep_of ?s r) ?s"
  define D where "D = take toDrop (filter ?np ?ps)"
  have sp: "isSpecial (ep_of ?s r) ?s = isSpecial (ep_of s r) s" for r using fr(1,4) by (simp add: isSpecial_def)
  have plain: "set (filter ?np ?ps) = plain" using st by (simp only: set_filter sp plain_def)
  have "\<And>r. r \<in> set ?ps \<Longrightarrow> r < n_next ?s" using st net_invD(3) [OF assms(1)] fr(2) by auto
  moreover have "net_inv ?s" using sl(2) by simp
  ultimately obtain s' where s': "drop_loop toDrop ?ps 0 ?s = Some s'" "net_inv s'" "only_stopped (set D) ?s s'"
    "\<forall>r \<in> set D. p_stopped (n_heap s' r)"
    using drop_loop_result [of ?s ?ps 0 toDrop] assms(3) unfolding D_def by auto
  have "card (set D) = length D" unfolding D_def by (intro distinct_card distinct_take distinct_filter dist)
  moreover have "card plain = length (filter ?np ?ps)" using dist distinct_card [of "filter ?np ?ps"] unfolding plain by simp
  ultimately have "card (set D) = min toDrop (card plain)" by (simp add: D_def min.commute)
  moreover have "set D \<subseteq> plain" unfolding D_def plain [symmetric] by (rule set_take_subset)
  moreover have "c_rounds s' = c_rounds s1" "c_lastRound s' = c_lastRound s1" "peers_of (c_peers s') = peers_of (c_peers s)"
    using s'(3) fr(5) by (auto simp: only_stopped_def)
  moreover have "\<forall>r. r \<notin> set D \<longrightarrow> n_heap s' r = n_heap s r" using s'(3) fr(1) by (auto simp: only_stopped_def)
  ultimately show ?thesis using s'(1,2,4) by (intro exI [of _ s'] exI [of _ "set D"]) simp
qed

text \<open>C15: a CAT round brings the node down to its target and spares the special peers: if a round is due, exactly
  as many peers are stopped as there are too many, or all that are not special if those are fewer; all of them
  are connected and not special, and no other peer is touched. Before that, the list of all connected peers and
  of the bans that still hold is written to the cache file. If no round is due nothing happens at all.\<close>

theorem runCatRound_drops:
  assumes "net_inv s" and "unat (cf_DropTo (n_conf s)) < 2 ^ 63"
  defines "plain \<equiv> {r \<in> set (peers_of (c_peers s)). \<not> isSpecial (ep_of s r) s}"
  shows "if Since now1 (c_lastRound s) < cf_RoundTime (n_conf s)
    then runCatRound w now1 now2 now3 fs s = Some (fs, s)
    else \<exists>fs' s' D pc. runCatRound w now1 now2 now3 fs s = Some (fs', s') \<and> net_inv s'
      \<and> D \<subseteq> plain \<and> card D = min (PeerStore_Total (c_peers s) - unat (cf_DropTo (n_conf s))) (card plain)
      \<and> (\<forall>r. r \<notin> D \<longrightarrow> n_heap s' r = n_heap s r) \<and> (\<forall>r \<in> D. p_stopped (n_heap s' r))
      \<and> peers_of (c_peers s') = peers_of (c_peers s) \<and> c_rounds s' = Suc (c_rounds s) \<and> c_lastRound s' = now2
      \<and> mset (pc_Peers pc) = mset (map (ep_of s) (peers_of (c_peers s))) \<and> pc_Bans pc = Some (drop_over (\<lambda>_. now3) (bans_of s))
      \<and> fs' = (if cf_PeerCacheFile (n_conf s) = [] then fs
          else case WriteToFile (w_cache_jm w) (w_write_ok w) pc (cf_PeerCacheFile (n_conf s)) fs of Inl _ \<Rightarrow> fs | Inr f \<Rightarrow> f)"
proof (cases "Since now1 (c_lastRound s) < cf_RoundTime (n_conf s)")
  case True
  then show ?thesis by (simp add: runCatRound_def)
next
  case due: False
  let ?s = "s\<lparr>c_lastRound := now2, c_rounds := Suc (c_rounds s)\<rparr>" and ?drop = "unat (cf_DropTo (n_conf s))"
  obtain res s1 where w: "writePeerCache (w_cache_jm w) (w_write_ok w) now3 fs ?s = (res, s1)" by (rule prod.exhaust)
  have "net_inv ?s" using assms(1) by simp
  note wi = writePeerCache_inv [OF this w]
  define fs' where "fs' = (case res of Inl _ \<Rightarrow> fs | Inr f \<Rightarrow> f)"
  from wi(9) obtain pc where pc: "mset (pc_Peers pc) = mset (map (ep_of s) (peers_of (c_peers s)))"
    "pc_Bans pc = Some (drop_over (\<lambda>_. now3) (bans_of s))"
    "fs' = (if cf_PeerCacheFile (n_conf s) = [] then fs
          else case WriteToFile (w_cache_jm w) (w_write_ok w) pc (cf_PeerCacheFile (n_conf s)) fs of Inl _ \<Rightarrow> fs | Inr f \<Rightarrow> f)"
    unfolding fs'_def by auto
  obtain peers s2 where sl: "slice_peers s1 = (peers, s2)" by (rule prod.exhaust)
  obtain perm rnd where pm: "Perm (n_rng s2) (length peers) = (perm, rnd)" by (rule prod.exhaust)
  note sh = slice_reshuffled [OF wi(1) sl] and fr = reshuffled_frame [OF slice_reshuffled(1) [OF wi(1) sl]]
  have fr2: "c_rounds s2 = Suc (c_rounds s)" "c_lastRound s2 = now2"
    using sl wi(7,8) by (auto simp: slice_peers_def split: prod.splits)
  have len: "length peers = PeerStore_Total (c_peers s)"
    using mset_eq_length [OF slice_peers_inv(2) [OF wi(1) sl]] by (simp add: Total_peers wi(3))
  have go: "go_int (int (unat (cf_DropTo (n_conf s2)))) = int ?drop"
  proof -
    have "int ?drop < 2 ^ 63" using assms(2) by (metis of_nat_less_iff of_nat_numeral of_nat_power)
    moreover have "- (2 ^ 63) \<le> int ?drop" by (rule order_trans [of _ 0]) simp_all
    ultimately have "go_int (int ?drop) = int ?drop" by (intro go_int_id)
    then show ?thesis using fr(3) wi(4) by simp
  qed
  have plain: "plain = {r \<in> set (peers_of (c_peers s1)). \<not> isSpecial (ep_of s1 r) s1}"
    using wi(2,3,6) by (simp add: plain_def isSpecial_def)
  have run: "runCatRound w now1 now2 now3 fs s =
    (if ?drop < length peers
     then map_option (\<lambda>s. (fs', s)) (drop_loop (length peers - ?drop) (map (\<lambda>i. peers ! i) perm) 0 (s2\<lparr>n_rng := rnd\<rparr>))
     else Some (fs', s2))"
  proof -
    define toDrop where "toDrop = int (length peers) - int ?drop"
    have td: "0 < toDrop \<longleftrightarrow> ?drop < length peers" "nat toDrop = length peers - ?drop"
      unfolding toDrop_def by linarith+
    show ?thesis
      using due w sl pm unfolding td [symmetric] toDrop_def go [symmetric] by (simp add: runCatRound_def Let_def fs'_def)
  qed
  show ?thesis
  proof (cases "?drop < length peers")
    case True
    from drop_surplus [OF wi(1) sl, of "length peers - ?drop" "n_rng s2" rnd] True obtain s' D where
      "drop_loop (length peers - ?drop) (map (\<lambda>i. peers ! i) perm) 0 (s2\<lparr>n_rng := rnd\<rparr>) = Some s'"
      "net_inv s'" "D \<subseteq> plain" "card D = min (length peers - ?drop) (card plain)"
      "\<forall>r. r \<notin> D \<longrightarrow> n_heap s' r = n_heap s1 r" "\<forall>r \<in> D. p_stopped (n_heap s' r)"
      "peers_of (c_peers s') = peers_of (c_peers s1)" "c_rounds s' = c_rounds s2" "c_lastRound s' = c_lastRound s2"
      using pm unfolding plain by auto
    with True run due fr2 len wi(2,3) pc show ?thesis
      by (intro if_not_P [THEN iffD2, OF due] exI [of _ fs'] exI [of _ s'] exI [of _ D] exI [of _ pc]) simp
  next
    case False
    with run due fr2 fr(1,5) sh(2) len wi(2,3) pc show ?thesis
      by (intro if_not_P [THEN iffD2, OF due] exI [of _ fs'] exI [of _ s2] exI [of _ "{}"] exI [of _ pc]) simp
  qed
qed

text \<open>An example: the network of two peers, one of them too many.\<close>

definition sample_world :: World where
  "sample_world = \<lparr>w_lib = sample_lib, w_cache_jm = (\<lambda>_. None), w_write_ok = True, w_http = (\<lambda>_. Inl ErrHttp),
     w_dial = (\<lambda>_ _. Inl ErrEOF), w_clock = (\<lambda>_ _. 5), w_metrics = (\<lambda>_. NewMetricsReadWriter ()), w_env = (\<lambda>_ s. s), w_late = False\<rparr>"

lemma sample_world_ok: "world_ok sample_world" "env_ok (\<lambda>s. s)"
  by (simp_all add: world_ok_def env_ok_def sample_world_def)

definition sample_crowded :: NetState where
  "sample_crowded = sample_net\<lparr>n_conf := DefaultP2PConfiguration\<lparr>cf_DropTo := 1, cf_RoundTime := 1\<rparr>\<rparr>"

theorem runCatRound_drops_witness:
  "\<exists>s' D. map_option snd (runCatRound sample_world 5 5 5 Map.empty sample_crowded) = Some s' \<and> D \<subseteq> {0, 1} \<and> card D = 1
     \<and> (\<forall>r \<in> D. p_stopped (n_heap s' r))"
proof -
  let ?s = sample_crowded
  have inv: "net_inv ?s" using sample_net_inv
    by (simp add: sample_crowded_def net_inv_def conf_ok_def resend_ok_def sample_net_def DefaultP2PConfiguration_def)
  have d: "unat (cf_DropTo (n_conf ?s)) < 2 ^ 63" by (simp add: sample_crowded_def)
  have due: "\<not> Since 5 (c_lastRound ?s) < cf_RoundTime (n_conf ?s)"
    by (simp add: sample_crowded_def sample_net_def Since_def max_duration_def min_duration_def)
  have s: "peers_of (c_peers ?s) = peers_of (c_peers sample_net)" "PeerStore_Total (c_peers ?s) = 2"
    "{r \<in> set (peers_of (c_peers ?s)). \<not> isSpecial (ep_of ?s r) ?s} = {0, 1}"
    by (auto simp: sample_crowded_def sample_net_def sample_peers isSpecial_def Total_peers)
  from runCatRound_drops [OF inv d, of 5 sample_world 5 5 Map.empty] due s(2,3) show ?thesis
    by (auto simp: sample_crowded_def)
qed

subsection \<open>What the replenish loop dials\<close>

text \<open>The plain loop: every candidate is tried once, in order, while there are too few peers.\<close>

primrec dial_list :: "World \<Rightarrow> nat \<Rightarrow> Endpoint list \<Rightarrow> nat \<Rightarrow> NetState \<Rightarrow> (nat \<times> NetState) option" where
  "dial_list w i [] attempts s = Some (attempts, s)"
| "dial_list w i (ep # eps) attempts s =
     (if PeerStore_Total (c_peers s) < unat (cf_TargetPeers (n_conf s))
      then if canDial (w_clock w i) ep s
           then Option.bind (dial_one w i ep s) (\<lambda>(_, s). dial_list w (Suc i) eps (Suc attempts) s)
           else dial_list w (Suc i) eps attempts s
      else Some (attempts, s))"

lemma dial_one_alts: "dial_one w i ep s = Some ((Some p, alts), s') \<Longrightarrow> alts = []"
  by (auto simp: dial_one_def Dial_def Let_def split: prod.splits sum.splits option.splits if_splits)

lemma connect_loop_dial_list:
  "attempts + length connect \<le> limit \<Longrightarrow> connect_loop w i connect limit attempts s = dial_list w i connect attempts s"
proof (induction connect arbitrary: i attempts s)
  case Nil
  then show ?case by (simp add: connect_loop.simps [of w i "[]"])
next
  case (Cons ep eps)
  have "(if p \<noteq> None then eps @ alts else eps) = eps" if "dial_one w i ep s = Some ((p, alts), s')" for p alts s'
    using that by (cases p) (auto dest: dial_one_alts)
  with Cons.prems Cons.IH show ?case
    by (auto simp: connect_loop.simps [of w i "ep # eps"] Let_def split: option.splits)
qed

lemma dial_list_attempts: "dial_list w i eps attempts s = Some (n, s') \<Longrightarrow> n \<le> attempts + length eps"
proof (induction eps arbitrary: i attempts s)
  case (Cons ep eps)
  from Cons.prems show ?case
    by (auto split: if_splits Option.bind_splits dest!: Cons.IH)
qed simp

text \<open>C38: the alternatives that full nodes offer are never dialled. The loop that makes room for five more dials
  than it has candidates, for the sake of these alternatives, is in fact the plain loop over the candidates:
  the alternatives come with a failed dial, and are looked at after a successful one only.\<close>

theorem alternatives_ignored:
  "connect_loop w i connect (length connect + 5) 0 s = dial_list w i connect 0 s"
  by (rule connect_loop_dial_list) simp

text \<open>How many seeds there may be.\<close>

definition seeds_bounded :: "nat \<Rightarrow> web \<Rightarrow> seed \<Rightarrow> bool" where
  "seeds_bounded B http sd \<longleftrightarrow> (\<forall>url status ls. http url = Inr (status, ls) \<longrightarrow> length ls \<le> B)
     \<and> (\<forall>eps. sd_cache sd = Some eps \<longrightarrow> length eps \<le> B)"

lemma seed_line_length: "length (fold seed_line ls eps) \<le> length eps + length ls"
proof (induction ls arbitrary: eps)
  case (Cons l ls)
  have "length (seed_line l eps) \<le> Suc (length eps)"
    by (auto simp: seed_line_def Let_def split: option.splits sum.splits)
  with Cons.IH [of "seed_line l eps"] show ?case by simp
qed simp

lemma seed_retrieve_bounded:
  assumes "seeds_bounded B http sd" and "seed_retrieve http t1 t2 sd = (eps, sd')"
  shows "seeds_bounded B http sd' \<and> length eps \<le> B"
proof -
  have "length (snd (WebScanner http url seed_line [])) \<le> B" for url
    using assms(1) seed_line_length [of _ "[]"]
    by (auto simp: seeds_bounded_def WebScanner_def split: sum.splits) (meson order_trans)
  with assms show ?thesis
    by (auto simp: seeds_bounded_def seed_retrieve_def Let_def split: option.splits if_splits)
qed

lemma seed_size_bounded:
  assumes "seeds_bounded B http sd" and "seed_size http t1 t2 sd = (n, sd')"
  shows "seeds_bounded B http sd'"
proof -
  obtain eps sd1 where r: "seed_retrieve http t1 t2 sd = (eps, sd1)" by (rule prod.exhaust)
  from seed_retrieve_bounded [OF assms(1) r] assms(2) r show ?thesis by (simp add: seed_size_def)
qed

lemma dialable_length: "length (dialable clk s eps) \<le> length eps"
  by (induction eps arbitrary: clk) (auto intro: le_SucI)

lemma reseed_bounded:
  assumes "seeds_bounded B (w_http w) (c_seed s)" and "reseed w ck lastReseed s = (seeds, t, s')"
  shows "length seeds \<le> B"
proof -
  obtain m s1 where m: "reseed_limit w (ck 1) s = (m, s1)" by (rule prod.exhaust)
  have s1: "seeds_bounded B (w_http w) (c_seed s1)"
    using m seed_size_bounded [OF assms(1)] seed_size_bounded
    by (fastforce simp: reseed_limit_def Let_def split: prod.splits if_splits)
  obtain eps sd where r: "seed_retrieve (w_http w) (ck 3 0) (ck 3 1) (c_seed s1) = (eps, sd)" by (rule prod.exhaust)
  obtain eps' rnd where sh: "Shuffle (n_rng s1) eps = (eps', rnd)" by (rule prod.exhaust)
  have "length eps' \<le> B"
    using seed_retrieve_bounded [OF s1 r] mset_eq_length [OF Shuffle_mset [OF sh]] by simp
  then have "length (dialable clk s1 eps') \<le> B" for clk using dialable_length order_trans by blast
  with assms(2) m r sh show ?thesis by (auto simp: reseed_def seed_peers_def split: if_splits)
qed

text \<open>C16: a turn of the replenish loop ends, without a panic and with the node in order, whatever the dials and
  the other goroutines do. It makes no more dials than there are special peers and seeds, and one; with as
  many peers as it wants, the node does nothing.\<close>

theorem replenish_bounded:
  assumes "net_inv s" and "world_ok w" and "env_ok env" and "seeds_bounded B (w_http w) (c_seed s)"
  shows "\<exists>n t s'. replenish_step w ck env lastReseed s = Some (n, t, s') \<and> net_inv s'
    \<and> n \<le> length (c_specialEndpoints s) + B + 1
    \<and> (unat (cf_TargetPeers (n_conf s)) \<le> PeerStore_Total (c_peers s) \<longrightarrow> n = 0 \<and> t = lastReseed \<and> s' = s)"
proof (cases "unat (cf_TargetPeers (n_conf s)) \<le> PeerStore_Total (c_peers s)")
  case True
  with assms(1) show ?thesis by (simp add: replenish_step_def)
next
  case False
  obtain seeds t s1 where r: "reseed w ck lastReseed s = (seeds, t, s1)" by (rule prod_cases3)
  from ask_random_inv [OF reseed_inv [OF assms(1) r] assms(3), of w ck] obtain shared s2 where
    a: "ask_random w ck env s1 = Some (shared, s2)" "net_inv s2" "length shared \<le> 1" by blast
  define connect where "connect = dialable (ck 0) s (c_specialEndpoints s) @ seeds @ shared"
  have len: "length connect \<le> length (c_specialEndpoints s) + B + 1"
    using dialable_length [of "ck 0" s "c_specialEndpoints s"] reseed_bounded [OF assms(4) r] a(3)
    by (simp add: connect_def)
  from connect_loop_inv [OF a(2) assms(2), of 0 connect "length connect + 5" 0] obtain n s' where
    c: "connect_loop w 0 connect (length connect + 5) 0 s2 = Some (n, s')" "net_inv s'" by blast
  with connect_loop_dial_list [of 0 connect "length connect + 5" w 0 s2] dial_list_attempts [of w 0 connect 0 s2 n s'] len
  have "n \<le> length (c_specialEndpoints s) + B + 1" by simp
  with False r a(1) c show ?thesis by (simp add: replenish_step_def candidates_def connect_def)
qed

theorem replenish_bounded_witness:
  "\<exists>n t s'. replenish_step sample_world (\<lambda>_ _. 5) (\<lambda>s. s) 0 sample_net = Some (n, t, s') \<and> n \<le> 1"
proof -
  have "seeds_bounded 0 (w_http sample_world) (c_seed sample_net)"
    by (simp add: seeds_bounded_def sample_world_def sample_net_def newSeed_def)
  from replenish_bounded [OF sample_net_inv sample_world_ok this, of "\<lambda>_ _. 5" 0] show ?thesis
    by (auto simp: sample_net_def)
qed

text \<open>An empty seed makes the limit wrap around, so that the seed is asked on every turn.\<close>

lemma empty_seed_wraps:
  assumes "0 < cf_MinReseed (n_conf s)" and "\<And>url. http url = Inl (e url)" and "w_http w = http" and "sd_cache (c_seed s) = None"
    and "Since (ck 1 2) (ck 1 1) \<le> sd_cacheTTL (c_seed s)"
  shows "fst (reseed_limit w (ck 1) s) = - 1 \<and> fst (snd (reseed w ck lastReseed s)) = ck 2 1"
  using assms by (auto simp: reseed_def reseed_limit_def seed_size_def seed_retrieve_def WebScanner_def Let_def split: prod.splits)

end
