(* ===== verification/RunLoop.thy ===== *)
theory RunLoop
  imports Cat
begin

section \<open>The run loop\<close>

text \<open>
  \<open>controller_run.go\<close>: what a node does once a second. The metrics are a map from hashes, in the order in
  which it was filled; sums of rates below \<open>2 ^ 53\<close> do not depend on the order (\<open>rate_exact\<close>). The
  metrics hook is a function of the application that is called with the map, so a call of it is the map; the
  Prometheus gauges are a record.
\<close>

text \<open>The loop of \<open>runPing\<close>.\<close>

primrec ping_loop :: "clock \<Rightarrow> peer_ref list \<Rightarrow> NetState \<Rightarrow> NetState option" where
  "ping_loop clk [] s = Some s"
| "ping_loop clk (p # ps) s =
     (if LastSendAge (clk 0) (n_heap s p) > cf_PingInterval (n_conf s)
      then Option.bind (send_to (Some (newParcel TypePing (string_bytes ''Ping''))) p s) (ping_loop (later 1 clk) ps)
      else ping_loop (later 1 clk) ps s)"

definition runPing :: "clock \<Rightarrow> NetState \<Rightarrow> NetState option" where
  "runPing clk s = (let (peers, s) = slice_peers s in ping_loop clk peers s)"

type_synonym metrics_map = "(string \<times> PeerMetrics) list"

abbreviation peer_metrics :: "NetState \<Rightarrow> peer_ref \<Rightarrow> PeerMetrics" where
  "peer_metrics s p \<equiv> GetMetrics (isSpecial (ep_of s p) s) (n_heap s p)"

definition makeMetrics :: "NetState \<Rightarrow> metrics_map \<times> NetState" where
  "makeMetrics s =
     (let (peers, s) = slice_peers s
      in (fold (\<lambda>p metrics. AList.update (pk_Hash (n_heap s p)) (peer_metrics s p) metrics) peers [], s))"

record Gauges =
  g_ByteRateDown :: float64
  g_ByteRateUp :: float64
  g_MessageRateUp :: float64
  g_MessageRateDown :: float64
  g_ToNetwork :: float64
  g_ToNetworkRatio :: float64
  g_FromNetwork :: float64
  g_FromNetworkRatio :: float64

definition rate :: "(PeerMetrics \<Rightarrow> float64) \<Rightarrow> metrics_map \<Rightarrow> float64" where
  "rate f metrics = f64_sum (map (\<lambda>(_, m). f m) metrics)"

text \<open>The result: the argument of the hook, if there is one, and the gauges, if Prometheus is on.\<close>

definition runMetrics :: "bool \<Rightarrow> NetState \<Rightarrow> metrics_map option \<times> Gauges option \<times> NetState" where
  "runMetrics hook s =
     (let (metrics, s) = makeMetrics s
      in (if hook then Some metrics else None,
          if n_prom s \<noteq> None
          then Some \<lparr>g_ByteRateDown = rate pm_BPSDown metrics, g_ByteRateUp = rate pm_BPSUp metrics,
                 g_MessageRateUp = rate pm_MPSUp metrics, g_MessageRateDown = rate pm_MPSDown metrics,
                 g_ToNetwork = float64_of (length (ch_buf (n_toNetwork s))), g_ToNetworkRatio = FillRatio (n_toNetwork s),
                 g_FromNetwork = float64_of (length (ch_buf (n_fromNetwork s))), g_FromNetworkRatio = FillRatio (n_fromNetwork s)\<rparr>
          else None,
          s))"

text \<open>One turn of \<open>run\<close>.\<close>

definition run_cycle :: "World \<Rightarrow> clock \<Rightarrow> bool \<Rightarrow> files \<Rightarrow> NetState \<Rightarrow> (files \<times> NetState) option" where
  "run_cycle w clk hook fs s =
     (case runCatRound w (clk 0) (clk 1) (clk 2) fs s of
        None \<Rightarrow> None
      | Some (fs, s) \<Rightarrow>
          (let (_, _, s) = runMetrics hook s in map_option (\<lambda>s. (fs, s)) (runPing (later 3 clk) s)))"

subsection \<open>Facts\<close>

lemma rate_exact:
  assumes "\<And>h m. (h, m) \<in> set metrics \<Longrightarrow> f m = of_nat (g m)" and "(\<Sum>(_, m) \<leftarrow> metrics. g m) < 2 ^ 53"
  shows "rate f metrics = of_nat (\<Sum>(_, m) \<leftarrow> metrics. g m)"
proof -
  have "map (\<lambda>(_, m). f m) metrics = map of_nat (map (\<lambda>(_, m). g m) metrics)" using assms(1) by auto
  with f64_sum_exact [OF assms(2)] show ?thesis by (simp only: rate_def)
qed

lemma sent_to_frame [frame_simps]:
  "n_conf (sent_to x R s) = n_conf s" "n_next (sent_to x R s) = n_next s" "c_peers (sent_to x R s) = c_peers s"
  "r \<notin> R \<Longrightarrow> n_heap (sent_to x R s) r = n_heap s r"
  by (simp_all add: sent_to_def)

lemma nth_set_Cons:
  "{(x # xs) ! i |i. i < length (x # xs) \<and> P i ((x # xs) ! i)}
   = (if P 0 x then insert x {xs ! i |i. i < length xs \<and> P (Suc i) (xs ! i)} else {xs ! i |i. i < length xs \<and> P (Suc i) (xs ! i)})"
    (is "?A = (if _ then insert x ?B else ?B)")
proof -
  have "y \<in> ?A \<longleftrightarrow> P 0 x \<and> y = x \<or> y \<in> ?B" for y
  proof
    assume "y \<in> ?A"
    then obtain i where "y = (x # xs) ! i" "i < length (x # xs)" "P i ((x # xs) ! i)" by blast
    then show "P 0 x \<and> y = x \<or> y \<in> ?B" by (cases i) auto
  next
    assume "P 0 x \<and> y = x \<or> y \<in> ?B"
    then consider "P 0 x" "y = x" | i where "y = xs ! i" "i < length xs" "P (Suc i) (xs ! i)" by blast
    then have "\<exists>i. y = (x # xs) ! i \<and> i < length (x # xs) \<and> P i ((x # xs) ! i)"
    proof cases
      case 1
      then show ?thesis by (intro exI [of _ 0]) simp
    next
      case (2 i)
      then show ?thesis by (intro exI [of _ "Suc i"]) simp
    qed
    then show "y \<in> ?A" by blast
  qed
  then show ?thesis by auto
qed

text \<open>Exactly the peers that have been silent for too long are pinged.\<close>

lemma ping_loop_result:
  fixes clk :: clock
  assumes "net_inv s" and "distinct ps" and "\<And>r. r \<in> set ps \<Longrightarrow> r < n_next s"
  defines "ping \<equiv> Some (newParcel TypePing (string_bytes ''Ping''))"
    and "R \<equiv> {ps ! i |i. i < length ps \<and> LastSendAge (clk i) (n_heap s (ps ! i)) > cf_PingInterval (n_conf s)}"
  shows "ping_loop clk ps s = Some (sent_to ping R s) \<and> net_inv (sent_to ping R s)"
  using assms(1-3) unfolding R_def
proof (induction ps arbitrary: clk s)
  case (Cons p ps)
  let ?late = "LastSendAge (clk 0) (n_heap s p) > cf_PingInterval (n_conf s)"
  let ?Q = "\<lambda>s. {ps ! i |i. i < length ps \<and> LastSendAge (clk (i + 1)) (n_heap s (ps ! i)) > cf_PingInterval (n_conf s)}"
  have split: "{(p # ps) ! i |i. i < length (p # ps) \<and> LastSendAge (clk i) (n_heap s ((p # ps) ! i)) > cf_PingInterval (n_conf s)}
      = (if ?late then insert p (?Q s) else ?Q s)"
    using nth_set_Cons [of p ps "\<lambda>i r. LastSendAge (clk i) (n_heap s r) > cf_PingInterval (n_conf s)"] by simp
  show ?case
  proof (cases ?late)
    case False
    with Cons.IH [OF Cons.prems(1), of "later 1 clk"] Cons.prems(2,3) show ?thesis unfolding split by simp
  next
    case True
    note p = send_to_sent [OF Cons.prems(1), of p ping]
    let ?s = "sent_to ping {p} s"
    have "i < length ps \<Longrightarrow> n_heap ?s (ps ! i) = n_heap s (ps ! i)" for i
      using Cons.prems(2) by (intro sent_to_frame(4)) auto
    then have Q: "?Q ?s = ?Q s" by (simp add: sent_to_frame(1) cong: conj_cong)
    have "p \<notin> ?Q s" using Cons.prems(2) by auto
    note un = sent_to_Un [OF this, of ping s]
    have "ping_loop (later 1 clk) ps ?s = Some (sent_to ping (?Q ?s) ?s) \<and> net_inv (sent_to ping (?Q ?s) ?s)"
      using Cons.prems p by (intro Cons.IH) (auto simp: frame_simps)
    then have "ping_loop (later 1 clk) ps ?s = Some (sent_to ping (insert p (?Q s)) s) \<and> net_inv (sent_to ping (insert p (?Q s)) s)"
      by (simp only: Q un)
    with True p(1) Cons.prems(3) show ?thesis unfolding split by (simp add: ping_def [symmetric])
  qed
qed simp

lemma runPing_inv:
  assumes "net_inv s"
  shows "\<exists>s'. runPing clk s = Some s' \<and> net_inv s'"
proof -
  obtain rs s1 where sl: "slice_peers s = (rs, s1)" by (rule prod.exhaust)
  note sh = slice_reshuffled [OF assms sl]
  from ping_loop_result [OF sh(2,4,5), of clk] sl show ?thesis by (simp add: runPing_def)
qed

text \<open>The metrics are those of exactly the connected peers.\<close>

lemma metrics_fold:
  "map_of (fold (\<lambda>p m. AList.update (f p) (g p) m) ps acc) = fold (\<lambda>p m. m(f p \<mapsto> g p)) ps (map_of acc)"
  by (induction ps arbitrary: acc) (simp_all add: update_conv')

lemma fold_upd_distinct:
  assumes "inj_on f (set ps)"
  shows "fold (\<lambda>p m. m(f p \<mapsto> g p)) ps m k = (case List.find (\<lambda>p. f p = k) ps of None \<Rightarrow> m k | Some p \<Rightarrow> Some (g p))"
  using assms
proof (induction ps arbitrary: m)
  case (Cons p ps)
  then have IH: "fold (\<lambda>p m. m(f p \<mapsto> g p)) ps (m(f p \<mapsto> g p)) k =
      (case List.find (\<lambda>p. f p = k) ps of None \<Rightarrow> (m(f p \<mapsto> g p)) k | Some p \<Rightarrow> Some (g p))"
    by (intro Cons.IH) simp
  show ?case unfolding fold_simps IH
  proof (cases "f p = k")
    case True
    have "List.find (\<lambda>q. f q = k) ps = Some q \<Longrightarrow> q = p" for q
      using Cons.prems True by (auto simp: find_Some_iff inj_on_def)
    with True show "(case List.find (\<lambda>p. f p = k) ps of None \<Rightarrow> (m(f p \<mapsto> g p)) k | Some p \<Rightarrow> Some (g p))
      = (case List.find (\<lambda>p. f p = k) (p # ps) of None \<Rightarrow> m k | Some p \<Rightarrow> Some (g p))"
      by (auto split: option.splits)
  qed (auto split: option.splits)
qed simp

lemma makeMetrics_correct:
  assumes "net_inv s" and "makeMetrics s = (metrics, s')"
  shows "net_inv s'" "reshuffled s s'"
    "map_of metrics k = map_option (peer_metrics s) (PeerStore_Get (c_peers s) k)"
proof -
  obtain rs s1 where sl: "slice_peers s = (rs, s1)" by (rule prod.exhaust)
  note sh = slice_reshuffled [OF assms(1) sl] and fr = reshuffled_frame [OF slice_reshuffled(1) [OF assms(1) sl]]
  from assms(2) sl have s': "s' = s1" and m: "metrics = fold (\<lambda>p m. AList.update (pk_Hash (n_heap s p)) (peer_metrics s p) m) rs []"
    by (simp_all add: makeMetrics_def fr(1,6))
  show "net_inv s'" "reshuffled s s'" using sh s' by simp_all
  note get = Get_iff [OF net_invD(1) [OF assms(1)], of k, folded sh(3)]
  have inj: "inj_on (\<lambda>p. pk_Hash (n_heap s p)) (set rs)"
  proof (rule inj_onI)
    fix p q
    assume "p \<in> set rs" "q \<in> set rs" "pk_Hash (n_heap s p) = pk_Hash (n_heap s q)"
    with Get_iff [OF net_invD(1) [OF assms(1)], of "pk_Hash (n_heap s q)", folded sh(3)]
    have "PeerStore_Get (c_peers s) (pk_Hash (n_heap s q)) = Some p" "PeerStore_Get (c_peers s) (pk_Hash (n_heap s q)) = Some q"
      by simp_all
    then show "p = q" by simp
  qed
  have "List.find (\<lambda>p. pk_Hash (n_heap s p) = k) rs = PeerStore_Get (c_peers s) k"
  proof (cases "PeerStore_Get (c_peers s) k")
    case None
    with get show ?thesis by (auto simp: find_None_iff)
  next
    case (Some p)
    then have "p \<in> set rs" "pk_Hash (n_heap s p) = k" using get by auto
    then obtain q where q: "List.find (\<lambda>p. pk_Hash (n_heap s p) = k) rs = Some q"
      by (cases "List.find (\<lambda>p. pk_Hash (n_heap s p) = k) rs") (auto simp: find_None_iff)
    then have "q \<in> set rs" "pk_Hash (n_heap s q) = k" by (auto simp: find_Some_iff)
    then have "PeerStore_Get (c_peers s) k = Some q" using get by simp
    with q show ?thesis by simp
  qed
  then show "map_of metrics k = map_option (peer_metrics s) (PeerStore_Get (c_peers s) k)"
    unfolding m metrics_fold fold_upd_distinct [OF inj] by (simp split: option.splits)
qed

lemma runMetrics_inv:
  assumes "net_inv s" and "runMetrics hook s = (h, g, s')"
  shows "net_inv s'"
proof -
  obtain metrics s1 where m: "makeMetrics s = (metrics, s1)" by (rule prod.exhaust)
  from makeMetrics_correct(1) [OF assms(1) m] assms(2) m show ?thesis by (simp add: runMetrics_def)
qed

lemma runCatRound_inv:
  assumes "net_inv s"
  shows "\<exists>fs' s'. runCatRound w now1 now2 now3 fs s = Some (fs', s') \<and> net_inv s'"
proof (cases "Since now1 (c_lastRound s) < cf_RoundTime (n_conf s)")
  case False
  let ?s = "s\<lparr>c_lastRound := now2, c_rounds := Suc (c_rounds s)\<rparr>"
  obtain res s1 where w: "writePeerCache (w_cache_jm w) (w_write_ok w) now3 fs ?s = (res, s1)" by (rule prod.exhaust)
  have "net_inv ?s" using assms by simp
  note s1 = writePeerCache_inv(1) [OF this w]
  obtain peers s2 where sl: "slice_peers s1 = (peers, s2)" by (rule prod.exhaust)
  obtain perm rnd where pm: "Perm (n_rng s2) (length peers) = (perm, rnd)" by (rule prod.exhaust)
  have "\<exists>s'. drop_loop d (map (\<lambda>i. peers ! i) perm) 0 (s2\<lparr>n_rng := rnd\<rparr>) = Some s' \<and> net_inv s'" if "0 < d" for d
    using drop_surplus [OF s1 sl that, of "n_rng s2" rnd] pm by auto
  with False w sl pm slice_reshuffled(2) [OF s1 sl] show ?thesis by (auto simp: runCatRound_def Let_def)
qed (simp add: runCatRound_def assms)

lemma run_cycle_inv:
  assumes "net_inv s"
  shows "\<exists>fs' s'. run_cycle w clk hook fs s = Some (fs', s') \<and> net_inv s'"
proof -
  from runCatRound_inv [OF assms] obtain fs1 s1 where
    r: "runCatRound w (clk 0) (clk 1) (clk 2) fs s = Some (fs1, s1)" "net_inv s1" by blast
  obtain h g s2 where m: "runMetrics hook s1 = (h, g, s2)" by (rule prod_cases3)
  from runPing_inv [OF runMetrics_inv [OF r(2) m], of "later 3 clk"] r(1) m show ?thesis
    by (auto simp: run_cycle_def)
qed

end
