(* ===== verification/Negotiation.thy ===== *)
theory Negotiation
  imports Connecting
begin

section \<open>Two nodes meet\<close>

text \<open>
  The two sides of a connection run together: \<open>handshakeOutgoing\<close> of the node that dials and
  \<open>handshakeIncoming\<close> of the node that listens, each reading what the other one writes.
\<close>

subsection \<open>Handshakes on the wire\<close>

text \<open>A connection that takes whatever is written to it.\<close>

definition total_writer :: "'a RW \<Rightarrow> bool" where
  "total_writer rw \<longleftrightarrow> (\<forall>out data. rw_write rw out data = (length data, False))"

lemma total_writer_update [simp]:
  "total_writer (rw\<lparr>rw_out := x\<rparr>) = total_writer rw" "total_writer (rw\<lparr>rw_in := x\<rparr>) = total_writer rw"
  by (simp_all add: total_writer_def)

lemma Write_total: "total_writer rw \<Longrightarrow> Write data rw = (length data, False, rw\<lparr>rw_out := rw_out rw @ data\<rparr>)"
  by (simp add: Write_def total_writer_def)

lemma gob_write_total: "total_writer rw \<Longrightarrow> gob_write g rw = Inr (rw\<lparr>rw_out := rw_out rw @ [Gob g]\<rparr>)"
  by (simp add: gob_write_def Write_total)

lemma writeCheck_total: "total_writer rw \<Longrightarrow> writeCheck data rw = Inr (rw\<lparr>rw_out := rw_out rw @ map Byte data\<rparr>)"
  by (simp add: writeCheck_def Write_total)

text \<open>A protocol object whose encoder, if it has one, has not been used.\<close>

fun enc_of :: "Protocol \<Rightarrow> gob_types" where
  "enc_of (PV9 v) = v9_encoder v"
| "enc_of (PV10 v) = v10_encoder v"
| "enc_of PV11 = []"

fun dec_of :: "Protocol \<Rightarrow> gob_types" where
  "dec_of (PV9 v) = v9_decoder v"
| "dec_of (PV10 v) = v10_decoder v"
| "dec_of PV11 = []"

fun used :: "Protocol \<Rightarrow> Protocol" where
  "used (PV9 v) = PV9 (v\<lparr>v9_encoder := [TV9Msg, TV9Header]\<rparr>)"
| "used (PV10 v) = PV10 (v\<lparr>v10_encoder := [TV9Msg, TV9Header]\<rparr>)"
| "used PV11 = PV11"

text \<open>What the other side reads of a handshake.\<close>

fun seen_as :: "Protocol \<Rightarrow> Handshake \<Rightarrow> Handshake" where
  "seen_as (PV9 v) h = v9_seen (if hs_Type h = TypeHandshake then h\<lparr>hs_Type := TypePeerRequest\<rparr> else h)"
| "seen_as (PV10 v) h = v9_seen h"
| "seen_as PV11 h = h"

definition small_handshake :: "Handshake \<Rightarrow> bool" where
  "small_handshake h \<longleftrightarrow> length (enc_V11Handshake (handshake_to_V11 h)) \<le> V11MaxParcelSize"

lemma Encode_V9_total:
  "total_writer w \<Longrightarrow> Encode (GobV9 m) [] w = Inr ([TV9Msg, TV9Header],
     w\<lparr>rw_out := rw_out w @ [Gob (GobType TV9Msg), Gob (GobType TV9Header), Gob (GobV9 m)]\<rparr>)"
  by (simp add: Encode_def gob_write_total)

lemma send_total:
  assumes "lib_ok lib" and "list_all ascii_endpoint (hs_Alternatives h)" and "enc_of prot = []"
    and "prot = PV11 \<longrightarrow> small_handshake h"
  shows "\<exists>f. \<forall>w. total_writer w \<longrightarrow>
    Prot_SendHandshake lib h (prot, w) = Inr (used prot, w\<lparr>rw_out := rw_out w @ f\<rparr>)"
proof -
  from assms(1,2) obtain alts where "lib_jmE lib (hs_Alternatives h) = Inr alts"
    by (auto simp: lib_ok_def json_codec_def)
  then have v9: "\<exists>f. \<forall>w. total_writer w \<longrightarrow>
      v9SendHandshake (lib_jmE lib) [] (h\<lparr>hs_Type := t\<rparr>) w = Inr ([TV9Msg, TV9Header], w\<lparr>rw_out := rw_out w @ f\<rparr>)" for t
    by (auto simp: v9SendHandshake_def Encode_V9_total Let_def)
  show ?thesis
  proof (cases prot)
    case (PV9 v)
    obtain t where t: "(if hs_Type h = TypeHandshake then h\<lparr>hs_Type := TypePeerRequest\<rparr> else h) = h\<lparr>hs_Type := t\<rparr>"
      by (metis (full_types) Handshake.surjective Handshake.update_convs(3))
    from v9 [of t] obtain f where "\<And>w. total_writer w \<Longrightarrow> v9SendHandshake (lib_jmE lib) [] (h\<lparr>hs_Type := t\<rparr>) w
      = Inr ([TV9Msg, TV9Header], w\<lparr>rw_out := rw_out w @ f\<rparr>)" by blast
    with PV9 assms(3) t show ?thesis
      by (intro exI [of _ f]) (simp add: Prot_SendHandshake_def V9_SendHandshake_def Let_def)
  next
    case (PV10 v)
    from v9 [of "hs_Type h"] obtain f where "\<And>w. total_writer w \<Longrightarrow> v9SendHandshake (lib_jmE lib) [] h w
      = Inr ([TV9Msg, TV9Header], w\<lparr>rw_out := rw_out w @ f\<rparr>)" by auto
    with PV10 assms(3) show ?thesis
      by (intro exI [of _ f]) (simp add: Prot_SendHandshake_def V10_SendHandshake_def)
  next
    case PV11
    have "lib_pmH lib = gen_Marshal V11Handshake_Marshal"
      using assms(1) proto_dispatch_eq(1) [of V11Handshake_Marshal] by (auto simp: lib_ok_def V11_Marshal_eq)
    with PV11 assms(4) show ?thesis
      by (intro exI [of _ "map Byte V11Signature @ v11_frame (enc_V11Handshake (handshake_to_V11 h))"])
        (simp add: Prot_SendHandshake_def V11_SendHandshake_eq writeCheck_total writeMessage_def gen_Marshal_def
          V11_Marshal_eq small_handshake_def v11_frame_def)
  qed
qed

text \<open>The choice that \<open>detectProtocolFromFirstMessage\<close> makes once it has read a gob handshake.\<close>

definition gob_choice :: "Configuration \<Rightarrow> Handshake \<Rightarrow> ProtocolV9 \<Rightarrow> gob_conn \<Rightarrow> (Handshake \<times> prot_conn) result" where
  "gob_choice conf hs v9 rw =
     (let hs = (if hs_Version hs = 10 \<and> cf_ProtocolVersion conf = 9 then hs\<lparr>hs_Version := 9\<rparr> else hs)
      in if hs_Version hs = 9 then Inr (hs, PV9 v9, rw)
         else if hs_Version hs = 10 then Inr (hs, PV10 (newProtocolV10 (v9_decoder v9) (v9_encoder v9)), rw)
         else Inl (Hs ErrUnsupportedVersion))"

lemma V9_ReadHandshake_Gob:
  assumes "V9_ReadHandshake ju (v9, r) = Inr x"
  shows "\<exists>g xs. rw_in r = Gob g # xs"
proof -
  from assms obtain y where "gob_next (v9_decoder v9) (rw_in r) = Inr y"
    by (auto simp: V9_ReadHandshake_def V9_read_def Decode_def bindR_Inr_iff split: sum.splits)
  then show ?thesis by (cases "(v9_decoder v9, rw_in r)" rule: gob_next.cases) auto
qed

lemma detect_gob:
  assumes "V9_ReadHandshake (lib_juE lib) (newProtocolV9 (cf_Network conf) (cf_NodeID conf) (cf_ListenPort conf) [] [], r)
      = Inr (hs, v9, r')" and "Handshake_Valid conf hs = Inr ()"
  shows "detectProtocolFromFirstMessage lib conf r = gob_choice conf hs v9 r'"
proof -
  from V9_ReadHandshake_Gob [OF assms(1)] obtain g xs where "rw_in r = Gob g # xs" by blast
  then have "Peek4 r = Inr None" by (simp add: Peek4_def)
  moreover have "\<not> hs_Version hs < cf_ProtocolVersionMinimum conf" using assms(2) by (simp add: Handshake_Valid_iff not_less)
  ultimately show ?thesis
    using assms by (simp add: detectProtocolFromFirstMessage_def check_handshake_def gob_choice_def)
qed

lemma detect_V11:
  assumes "rw_in r = map Byte V11Signature @ xs" and "V11_ReadHandshake (lib_puH lib) r = Inr (hs, r')"
    and "Handshake_Valid conf hs = Inr ()"
  shows "detectProtocolFromFirstMessage lib conf r = Inr (hs, PV11, r')"
proof -
  have "take 4 (rw_in r) = map Byte V11Signature" using assms(1) by (simp add: V11Signature_def)
  then have "items_bytes (take 4 (rw_in r)) = Some V11Signature" by (simp only: items_bytes_map)
  then have "Peek4 r = Inr (Some V11Signature)" by (simp add: Peek4_def) (simp add: V11Signature_def)
  with assms(2,3) show ?thesis
    by (simp add: detectProtocolFromFirstMessage_def Prot_ReadHandshake_def check_handshake_def)
qed

lemma seen_as_ok:
  "hs_Alternatives (seen_as prot h) = hs_Alternatives h" "hs_ListenPort (seen_as prot h) = hs_ListenPort h"
  "hs_Network (seen_as prot h) = hs_Network h" "hs_Version (seen_as prot h) = hs_Version h"
  "hs_NodeID (seen_as prot h) = hs_NodeID h"
  "hs_Alternatives h = [] \<Longrightarrow> hs_Loopback (seen_as prot h) = hs_Loopback h"
  "hs_Type (seen_as prot h) = TypeRejectAlternative \<longleftrightarrow> hs_Type h = TypeRejectAlternative"
  by (cases prot; simp add: v9_seen_def ParcelType_defs)+

text \<open>A handshake on the wire: what it takes there, and what is detected at the other end.\<close>

lemma handshake_wire:
  assumes "lib_ok lib" and "list_all ascii_endpoint (hs_Alternatives h)"
    and "hs_Type h = TypeRejectAlternative \<longleftrightarrow> hs_Alternatives h \<noteq> []" and "enc_of prot = []"
    and "prot = PV11 \<longrightarrow> small_handshake h"
  shows "\<exists>f. (\<forall>w. total_writer w \<longrightarrow> Prot_SendHandshake lib h (prot, w) = Inr (used prot, w\<lparr>rw_out := rw_out w @ f\<rparr>))
    \<and> (\<forall>conf r rest. rw_in r = f @ rest \<and> Handshake_Valid conf (seen_as prot h) = Inr () \<longrightarrow>
        (if prot = PV11 then detectProtocolFromFirstMessage lib conf r = Inr (h, PV11, r\<lparr>rw_in := rest\<rparr>)
         else \<exists>v9. v9_encoder v9 = [] \<and> set (v9_decoder v9) = {TV9Msg, TV9Header}
           \<and> detectProtocolFromFirstMessage lib conf r = gob_choice conf (seen_as prot h) v9 (r\<lparr>rw_in := rest\<rparr>)))"
proof -
  from send_total [OF assms(1,2,4,5)] obtain f where
    send: "\<And>w. total_writer w \<Longrightarrow> Prot_SendHandshake lib h (prot, w) = Inr (used prot, w\<lparr>rw_out := rw_out w @ f\<rparr>)" by blast
  let ?w = "open_rw [] :: gob_conn"
  have "total_writer ?w" by (simp add: total_writer_def open_rw_def)
  note s = send [OF this]
  have codec: "json_codec ascii_endpoint (lib_jmE lib) (lib_juE lib)" using assms(1) by (simp add: lib_ok_def)
  have gob: "\<exists>v9. v9_encoder v9 = [] \<and> set (v9_decoder v9) = {TV9Msg, TV9Header}
      \<and> detectProtocolFromFirstMessage lib conf r = gob_choice conf (v9_seen g) v9 (r\<lparr>rw_in := rest\<rparr>)"
    if sent: "v9SendHandshake (lib_jmE lib) [] g ?w = Inr ([TV9Msg, TV9Header], ?w\<lparr>rw_out := f\<rparr>)"
      and g: "hs_Alternatives g = hs_Alternatives h" "hs_Type g = TypeRejectAlternative \<longleftrightarrow> hs_Alternatives h \<noteq> []"
      and r: "rw_in r = f @ rest" and valid: "Handshake_Valid conf (v9_seen g) = Inr ()" for g r rest conf
  proof -
    let ?v = "newProtocolV9 (cf_Network conf) (cf_NodeID conf) (cf_ListenPort conf) [] []"
    have "rw_out (?w\<lparr>rw_out := f\<rparr>) = rw_out ?w @ f" by (simp add: open_rw_def)
    with v9SendHandshake_read [OF codec _ _ sent] g assms(2)
    have read: "\<And>v9 r rest. set (v9_decoder v9) = {} \<Longrightarrow> rw_in r = f @ rest \<Longrightarrow>
        \<exists>v9'. V9_ReadHandshake (lib_juE lib) (v9, r) = Inr (v9_seen g, v9', r\<lparr>rw_in := rest\<rparr>)
          \<and> v9' = v9\<lparr>v9_decoder := v9_decoder v9'\<rparr> \<and> set (v9_decoder v9') = {TV9Msg, TV9Header}" by auto
    have "set (v9_decoder ?v) = {}" by (simp add: newProtocolV9_def)
    from read [OF this r] obtain v9 where
      v9: "V9_ReadHandshake (lib_juE lib) (?v, r) = Inr (v9_seen g, v9, r\<lparr>rw_in := rest\<rparr>)"
        "v9 = ?v\<lparr>v9_decoder := v9_decoder v9\<rparr>" "set (v9_decoder v9) = {TV9Msg, TV9Header}"
      by blast
    have "v9_encoder v9 = []" by (subst v9(2)) (simp add: newProtocolV9_def)
    with v9 detect_gob [OF v9(1) valid] show ?thesis by blast
  qed
  have "if prot = PV11 then detectProtocolFromFirstMessage lib conf r = Inr (h, PV11, r\<lparr>rw_in := rest\<rparr>)
      else \<exists>v9. v9_encoder v9 = [] \<and> set (v9_decoder v9) = {TV9Msg, TV9Header}
        \<and> detectProtocolFromFirstMessage lib conf r = gob_choice conf (seen_as prot h) v9 (r\<lparr>rw_in := rest\<rparr>)"
    if r: "rw_in r = f @ rest" and valid: "Handshake_Valid conf (seen_as prot h) = Inr ()" for conf r rest
  proof (cases prot)
    case (PV9 v)
    let ?g = "if hs_Type h = TypeHandshake then h\<lparr>hs_Type := TypePeerRequest\<rparr> else h"
    have "v9SendHandshake (lib_jmE lib) [] ?g ?w = Inr ([TV9Msg, TV9Header], ?w\<lparr>rw_out := f\<rparr>)"
      using s assms(4) PV9
      by (auto simp: Prot_SendHandshake_def V9_SendHandshake_def bindR_Inr_iff open_rw_def Let_def dest: arg_cong [where f = v9_encoder])
    from gob [OF this _ _ r] assms(3) valid PV9 show ?thesis by (auto simp: ParcelType_defs)
  next
    case (PV10 v)
    have "v9SendHandshake (lib_jmE lib) [] h ?w = Inr ([TV9Msg, TV9Header], ?w\<lparr>rw_out := f\<rparr>)"
      using s assms(4) PV10
      by (auto simp: Prot_SendHandshake_def V10_SendHandshake_def bindR_Inr_iff open_rw_def dest: arg_cong [where f = v10_encoder])
    from gob [OF this _ assms(3) r] valid PV10 show ?thesis by simp
  next
    case PV11
    have "V11_SendHandshake (lib_pmH lib) h ?w = Inr (?w\<lparr>rw_out := f\<rparr>)"
      using s PV11 by (auto simp: Prot_SendHandshake_def bindR_Inr_iff open_rw_def)
    with V11_handshake_frame [of "lib_pmH lib" "lib_puH lib" h ?w] assms(1) obtain f' where
      f': "f = map Byte V11Signature @ f'" "\<And>r rest. rw_in r = map Byte V11Signature @ f' @ rest \<Longrightarrow>
        V11_ReadHandshake (lib_puH lib) r = Inr (h, r\<lparr>rw_in := rest\<rparr>)"
      by (auto simp: lib_ok_def open_rw_def)
    have "rw_in r = map Byte V11Signature @ f' @ rest" using r f'(1) by simp
    from detect_V11 [OF this f'(2) [OF this]] valid PV11 show ?thesis by simp
  qed
  with send show ?thesis by blast
qed

subsection \<open>Compatible nodes\<close>

definition port_ok :: "Configuration \<Rightarrow> bool" where
  "port_ok conf \<longleftrightarrow> length (cf_ListenPort conf) \<le> 1000
     \<and> (\<exists>p. Atoi (cf_ListenPort conf) = Some p \<and> 1 \<le> p \<and> p \<le> 65535)"

text \<open>The version that a node with configuration \<open>a\<close> and the node with configuration \<open>b\<close> that it dials will
  speak: that of the one that dials, except that a version 9 node does not go up to version 10.\<close>

definition negotiated :: "Configuration \<Rightarrow> Configuration \<Rightarrow> 16 word" where
  "negotiated a b = (if cf_ProtocolVersion a = 10 \<and> cf_ProtocolVersion b = 9 then 9 else cf_ProtocolVersion a)"

definition compatible :: "Configuration \<Rightarrow> Configuration \<Rightarrow> bool" where
  "compatible a b \<longleftrightarrow> cf_Network a = cf_Network b \<and> cf_ProtocolVersion a \<in> {9, 10, 11}
     \<and> cf_ProtocolVersionMinimum b \<le> cf_ProtocolVersion a \<and> cf_ProtocolVersionMinimum a \<le> negotiated a b
     \<and> port_ok a \<and> port_ok b"

lemma size_field_le: "size_varint_field v \<le> 11" "size_len_field l \<le> 11 + l"
  using sov_le_10 [of v] sov_le_10 [of "of_nat l"] by (simp_all add: size_varint_field_def size_len_field_def size_len_def)

lemma small_handshakeI:
  assumes "hs_Alternatives h = []" and "length (hs_ListenPort h) \<le> 1000"
  shows "small_handshake h"
proof -
  let ?v = "handshake_to_V11 h"
  have "V11Handshake_Size ?v \<le> 11 + 11 + 11 + 11 + (11 + 1000) + 11"
    using assms size_field_le(2) [of "length (vh_ListenPort ?v)"] size_field_le(1) [of "ucast (vh_Type ?v)"]
      size_field_le(1) [of "ucast (vh_Network ?v)"] size_field_le(1) [of "ucast (vh_Version ?v)"]
      size_field_le(1) [of "ucast (vh_NodeID ?v)"] size_field_le(1) [of "vh_Loopback ?v"]
    unfolding V11Handshake_Size_def by (simp add: handshake_to_V11_def new_V11Handshake_def)
  then show ?thesis by (simp add: small_handshake_def V11MaxParcelSize_def flip: V11Handshake_Size_eq)
qed

lemma select_fresh: "enc_of (selectProtocol conf) = []"
  by (simp add: selectProtocol_def newProtocolV9_def newProtocolV10_def)

text \<open>The protocol object the listening node ends up with, given the one the handshake was sent with.\<close>

definition agreed :: "Protocol \<Rightarrow> Protocol \<Rightarrow> bool" where
  "agreed sender prot \<longleftrightarrow> enc_of prot = [] \<and> (sender = PV11 \<longleftrightarrow> prot = PV11)
     \<and> (sender \<noteq> PV11 \<longrightarrow> set (dec_of prot) = {TV9Msg, TV9Header})"

lemma detect_agreed:
  assumes "if prot = PV11 then detectProtocolFromFirstMessage lib conf r = Inr (h, PV11, r')
      else \<exists>v9. v9_encoder v9 = [] \<and> set (v9_decoder v9) = {TV9Msg, TV9Header}
        \<and> detectProtocolFromFirstMessage lib conf r = gob_choice conf (seen_as prot h) v9 r'"
    and "prot \<noteq> PV11 \<longrightarrow> hs_Version h = 9 \<or> hs_Version h = 10" and "prot = PV11 \<longrightarrow> hs_Version h = 11"
  defines "v \<equiv> if prot \<noteq> PV11 \<and> hs_Version h = 10 \<and> cf_ProtocolVersion conf = 9 then 9 else hs_Version h"
  shows "\<exists>prot'. detectProtocolFromFirstMessage lib conf r = Inr ((seen_as prot h)\<lparr>hs_Version := v\<rparr>, prot', r')
    \<and> agreed prot prot' \<and> Prot_Version prot' = v"
proof (cases "prot = PV11")
  case True
  with assms(1) have "detectProtocolFromFirstMessage lib conf r = Inr (h, PV11, r')" by simp
  moreover have "(seen_as prot h)\<lparr>hs_Version := v\<rparr> = h" using True by (simp add: v_def)
  moreover have "agreed prot PV11" using True by (simp add: agreed_def)
  moreover have "Prot_Version PV11 = v" using True assms(3) by (simp add: v_def Prot_Version_def V11_Version_def)
  ultimately show ?thesis by auto
next
  case False
  with assms(1) obtain v9 where v9: "v9_encoder v9 = []" "set (v9_decoder v9) = {TV9Msg, TV9Header}"
    "detectProtocolFromFirstMessage lib conf r = gob_choice conf (seen_as prot h) v9 r'" by auto
  let ?p = "if v = 9 then PV9 v9 else PV10 (newProtocolV10 (v9_decoder v9) (v9_encoder v9))"
  have v: "v = 9 \<or> v = 10" using assms(2) False by (auto simp: v_def)
  have "gob_choice conf (seen_as prot h) v9 r' = Inr ((seen_as prot h)\<lparr>hs_Version := v\<rparr>, ?p, r')"
    using assms(2) False by (auto simp: gob_choice_def v_def seen_as_ok Let_def)
  moreover have "agreed prot ?p" using v9 False by (simp add: agreed_def newProtocolV10_def)
  moreover have "Prot_Version ?p = v" using v by (auto simp: Prot_Version_def V9_Version_def V10_Version_def)
  ultimately show ?thesis using v9(3) by (intro exI [of _ ?p]) simp
qed

lemma agreed_in_step:
  assumes "agreed PA PB" and "agreed PB PA'" and "Prot_Version PB = Prot_Version PA'"
  shows "prot_in_step (keep_encoder (used PA) PA', x) (used PB, y) \<and> prot_in_step (used PB, y) (keep_encoder (used PA) PA', x)
    \<and> Prot_Version (keep_encoder (used PA) PA') = Prot_Version PA' \<and> Prot_Version (used PB) = Prot_Version PB"
  using assms
  by (cases PA; cases PB; cases PA')
    (auto simp: agreed_def v9_in_step_def v10_in_step_def Prot_Version_def V9_Version_def V10_Version_def V11_Version_def)

lemma start_peer_prot:
  assumes "net_inv s"
  shows "\<exists>r s'. start_peer now hs ep (prot, con) metrics incoming s = Some ((Inr r, con), s') \<and> net_inv s'
    \<and> p_prot (n_heap s' r) = prot \<and> p_conn (n_heap s' r) = con"
proof -
  from start_peer_inv [OF assms, of now hs ep "(prot, con)" metrics incoming] obtain p s' where
    "start_peer now hs ep (prot, con) metrics incoming s = Some ((Inr (n_next s), con), s')" "net_inv s'"
    "newPeer (n_conf s) now (hs_NodeID hs) ep con prot metrics incoming = Some p"
    "s' = announce (n_next s) (hs_Type hs) (s\<lparr>n_heap := (n_heap s)(n_next s := p), n_next := Suc (n_next s)\<rparr>)" by auto
  moreover from this(3) have "p_prot p = prot" "p_conn p = con" by (auto simp: newPeer_def split: option.splits)
  ultimately show ?thesis by (auto simp: announce_def Let_def)
qed

lemma newHandshake_wire:
  fixes l :: "64 word" and v :: "16 word"
  assumes "lib_ok lib" and "enc_of prot = []" and "port_ok conf"
    and "prot \<noteq> PV11 \<longrightarrow> v = 9 \<or> v = 10" and "prot = PV11 \<longrightarrow> v = 11"
  defines "h \<equiv> (newHandshake conf l)\<lparr>hs_Version := v\<rparr>"
  shows "\<exists>f. (\<forall>w. total_writer w \<longrightarrow> Prot_SendHandshake lib h (prot, w) = Inr (used prot, w\<lparr>rw_out := rw_out w @ f\<rparr>))
    \<and> (\<forall>conf' r rest. rw_in r = f @ rest \<and> cf_Network conf' = cf_Network conf \<and> cf_ProtocolVersionMinimum conf' \<le> v \<longrightarrow>
        (\<exists>prot' hs. detectProtocolFromFirstMessage lib conf' r = Inr (hs, prot', r\<lparr>rw_in := rest\<rparr>) \<and> agreed prot prot'
          \<and> hs_Version hs = (if v = 10 \<and> cf_ProtocolVersion conf' = 9 then 9 else v) \<and> Prot_Version prot' = hs_Version hs
          \<and> hs_Loopback hs = l \<and> hs_Type hs \<noteq> TypeRejectAlternative))"
proof -
  have h: "hs_Alternatives h = []" "hs_Type h = TypeHandshake" "hs_Version h = v" "hs_Network h = cf_Network conf"
    "hs_ListenPort h = cf_ListenPort conf" "hs_Loopback h = l" by (simp_all add: h_def)
  have small: "small_handshake h" using assms(3) by (intro small_handshakeI) (simp_all add: h port_ok_def)
  have alts: "list_all ascii_endpoint (hs_Alternatives h)" "hs_Type h = TypeRejectAlternative \<longleftrightarrow> hs_Alternatives h \<noteq> []"
    by (simp_all add: h ParcelType_defs)
  from handshake_wire [OF assms(1) alts assms(2)] small obtain f where
    f: "\<forall>w. total_writer w \<longrightarrow> Prot_SendHandshake lib h (prot, w) = Inr (used prot, w\<lparr>rw_out := rw_out w @ f\<rparr>)" and
    d: "\<And>conf r rest. rw_in r = f @ rest \<Longrightarrow> Handshake_Valid conf (seen_as prot h) = Inr () \<Longrightarrow>
        (if prot = PV11 then detectProtocolFromFirstMessage lib conf r = Inr (h, PV11, r\<lparr>rw_in := rest\<rparr>)
         else \<exists>v9. v9_encoder v9 = [] \<and> set (v9_decoder v9) = {TV9Msg, TV9Header}
           \<and> detectProtocolFromFirstMessage lib conf r = gob_choice conf (seen_as prot h) v9 (r\<lparr>rw_in := rest\<rparr>))"
    by blast
  have "\<exists>prot' hs. detectProtocolFromFirstMessage lib conf' r = Inr (hs, prot', r\<lparr>rw_in := rest\<rparr>) \<and> agreed prot prot'
      \<and> hs_Version hs = (if v = 10 \<and> cf_ProtocolVersion conf' = 9 then 9 else v) \<and> Prot_Version prot' = hs_Version hs
      \<and> hs_Loopback hs = l \<and> hs_Type hs \<noteq> TypeRejectAlternative"
    if r: "rw_in r = f @ rest" and c: "cf_Network conf' = cf_Network conf" "cf_ProtocolVersionMinimum conf' \<le> v" for conf' r rest
  proof -
    have "Handshake_Valid conf' (seen_as prot h) = Inr ()"
      using c assms(3) by (simp add: Handshake_Valid_iff seen_as_ok h port_ok_def)
    from detect_agreed [OF d [OF r this]] assms(4,5) h(3) obtain prot' where
      p: "detectProtocolFromFirstMessage lib conf' r = Inr ((seen_as prot h)\<lparr>hs_Version :=
          if prot \<noteq> PV11 \<and> v = 10 \<and> cf_ProtocolVersion conf' = 9 then 9 else v\<rparr>, prot', r\<lparr>rw_in := rest\<rparr>)"
        "agreed prot prot'" "Prot_Version prot' = (if prot \<noteq> PV11 \<and> v = 10 \<and> cf_ProtocolVersion conf' = 9 then 9 else v)"
      by auto
    have e: "(prot \<noteq> PV11 \<and> v = 10 \<and> cf_ProtocolVersion conf' = 9) \<longleftrightarrow> (v = 10 \<and> cf_ProtocolVersion conf' = 9)"
      using assms(5) by auto
    show ?thesis
      using p seen_as_ok(7) [of prot h] unfolding e by (simp add: seen_as_ok h ParcelType_defs)
  qed
  with f show ?thesis by blast
qed

subsection \<open>Properties\<close>

text \<open>C2: compatible nodes connect: if two nodes belong to the same network, the version of the one that dials is
  one of 9, 10 and 11 and not below the minimum of the other one, the version they settle on is not below its
  own minimum, and the listening node has room, then both handshakes succeed on connections that take what is
  written, each side reads exactly what the other one wrote, both speak the same version, that of the dialing
  node or 9 if the listening node speaks 9 and the other one 10, and the encoders and decoders of both sides
  are in step in both directions, so that from then on parcels are delivered either way.\<close>

theorem nodes_connect:
  assumes "lib_ok lib" and "net_inv a" and "net_inv b" and "compatible (n_conf a) (n_conf b)"
    and "n_instanceID a \<noteq> n_instanceID b" and "allowIncoming (clk 0) (IP epA) b = Inr ()"
    and "total_writer ca" and "total_writer cb" and "rw_out ca = []" and "rw_out cb = []"
  shows "\<exists>f g ra rb ca' cb' a' b'.
    handshakeOutgoing lib now ma (ca\<lparr>rw_in := g @ restA\<rparr>) epB a = Some ((Inr ra, ca'), a')
    \<and> handshakeIncoming lib clk mb (cb\<lparr>rw_in := f @ restB\<rparr>) epA b = Some ((Inr rb, cb'), b')
    \<and> rw_out ca' = f \<and> rw_in ca' = restA \<and> rw_out cb' = g \<and> rw_in cb' = restB \<and> net_inv a' \<and> net_inv b'
    \<and> p_conn (n_heap a' ra) = ca' \<and> p_conn (n_heap b' rb) = cb'
    \<and> Prot_Version (p_prot (n_heap a' ra)) = negotiated (n_conf a) (n_conf b)
    \<and> Prot_Version (p_prot (n_heap b' rb)) = negotiated (n_conf a) (n_conf b)
    \<and> prot_in_step (p_prot (n_heap a' ra), ca') (p_prot (n_heap b' rb), cb')
    \<and> prot_in_step (p_prot (n_heap b' rb), cb') (p_prot (n_heap a' ra), ca')"
proof -
  let ?A = "n_conf a" and ?B = "n_conf b" and ?v = "cf_ProtocolVersion (n_conf a)"
  define n where "n = negotiated ?A ?B"
  note compat = assms(4) [unfolded compatible_def]
  define PA where "PA = selectProtocol ?A"
  have PA: "enc_of PA = []" "PA = PV11 \<longleftrightarrow> ?v = 11" by (simp_all add: PA_def select_fresh) (simp add: selectProtocol_def)
  have hA: "newHandshake ?A (n_instanceID a) = (newHandshake ?A (n_instanceID a))\<lparr>hs_Version := ?v\<rparr>"
    by (simp add: newHandshake_def)
  have v: "PA \<noteq> PV11 \<longrightarrow> ?v = 9 \<or> ?v = 10" "PA = PV11 \<longrightarrow> ?v = 11" using compat PA(2) by auto
  from newHandshake_wire [OF assms(1) PA(1) _ v, where conf = ?A and l = "n_instanceID a"] compat obtain f where
    sendA: "\<And>w. total_writer w \<Longrightarrow> Prot_SendHandshake lib (newHandshake ?A (n_instanceID a)) (PA, w)
        = Inr (used PA, w\<lparr>rw_out := rw_out w @ f\<rparr>)" and
    detB: "\<And>conf' r rest. rw_in r = f @ rest \<and> cf_Network conf' = cf_Network ?A \<and> cf_ProtocolVersionMinimum conf' \<le> ?v \<Longrightarrow>
      \<exists>prot' hs. detectProtocolFromFirstMessage lib conf' r = Inr (hs, prot', r\<lparr>rw_in := rest\<rparr>) \<and> agreed PA prot'
          \<and> hs_Version hs = (if ?v = 10 \<and> cf_ProtocolVersion conf' = 9 then 9 else ?v) \<and> Prot_Version prot' = hs_Version hs"
    unfolding hA [symmetric] by blast
  let ?cb = "cb\<lparr>rw_in := f @ restB\<rparr>"
  from detB [of ?cb restB ?B] compat obtain PB hsA where B: "detectProtocolFromFirstMessage lib ?B ?cb = Inr (hsA, PB, cb\<lparr>rw_in := restB\<rparr>)"
    "agreed PA PB" "hs_Version hsA = n" "Prot_Version PB = n" by (auto simp: n_def negotiated_def)
  have PB: "enc_of PB = []" "PB = PV11 \<longleftrightarrow> ?v = 11" using B(2) PA(2) by (auto simp: agreed_def)
  let ?reply = "(newHandshake ?B (n_instanceID b))\<lparr>hs_Version := n\<rparr>"
  have n: "PB \<noteq> PV11 \<longrightarrow> n = 9 \<or> n = 10" "PB = PV11 \<longrightarrow> n = 11" "cf_ProtocolVersionMinimum ?A \<le> n"
    "n = 10 \<longrightarrow> ?v = 10" "cf_Network ?A = cf_Network ?B"
    using compat PB(2) by (auto simp: n_def negotiated_def)
  from newHandshake_wire [OF assms(1) PB(1) _ n(1,2), where conf = ?B and l = "n_instanceID b"] compat obtain g where
    sendB: "\<And>w. total_writer w \<Longrightarrow> Prot_SendHandshake lib ?reply (PB, w) = Inr (used PB, w\<lparr>rw_out := rw_out w @ g\<rparr>)" and
    detA: "\<And>conf' r rest. rw_in r = g @ rest \<and> cf_Network conf' = cf_Network ?B \<and> cf_ProtocolVersionMinimum conf' \<le> n \<Longrightarrow>
      \<exists>prot' hs. detectProtocolFromFirstMessage lib conf' r = Inr (hs, prot', r\<lparr>rw_in := rest\<rparr>) \<and> agreed PB prot'
          \<and> hs_Version hs = (if n = 10 \<and> cf_ProtocolVersion conf' = 9 then 9 else n) \<and> Prot_Version prot' = hs_Version hs
          \<and> hs_Loopback hs = n_instanceID b \<and> hs_Type hs \<noteq> TypeRejectAlternative"
    by blast
  let ?ca = "ca\<lparr>rw_in := g @ restA, rw_out := f\<rparr>" and ?ca' = "ca\<lparr>rw_in := restA, rw_out := f\<rparr>"
    and ?cb' = "cb\<lparr>rw_in := restB, rw_out := g\<rparr>"
  from detA [of ?ca restA ?A] n(3-5) obtain PA' hsB where A: "detectProtocolFromFirstMessage lib ?A ?ca = Inr (hsB, PA', ?ca')"
    "agreed PB PA'" "Prot_Version PA' = n" "hs_Loopback hsB = n_instanceID b" "hs_Type hsB \<noteq> TypeRejectAlternative"
    by (auto split: if_splits)
  from start_peer_prot [OF assms(3), of "clk 1" hsA "epA\<lparr>Port := hs_ListenPort hsA\<rparr>" "used PB" ?cb' mb True]
  obtain rb b' where b': "start_peer (clk 1) hsA (epA\<lparr>Port := hs_ListenPort hsA\<rparr>) (used PB, ?cb') mb True b = Some ((Inr rb, ?cb'), b')"
    "net_inv b'" "p_prot (n_heap b' rb) = used PB" "p_conn (n_heap b' rb) = ?cb'" by blast
  from start_peer_prot [OF assms(2), of now hsB epB "keep_encoder (used PA) PA'" ?ca' ma False]
  obtain ra a' where a': "start_peer now hsB epB (keep_encoder (used PA) PA', ?ca') ma False a = Some ((Inr ra, ?ca'), a')"
    "net_inv a'" "p_prot (n_heap a' ra) = keep_encoder (used PA) PA'" "p_conn (n_heap a' ra) = ?ca'" by blast
  have incoming: "handshakeIncoming lib clk mb ?cb epA b = Some ((Inr rb, ?cb'), b')"
    using assms(6,8,10) B(1,3) sendB [of "cb\<lparr>rw_in := restB\<rparr>"] b'(1) by (simp add: handshakeIncoming_def)
  have outgoing: "handshakeOutgoing lib now ma (ca\<lparr>rw_in := g @ restA\<rparr>) epB a = Some ((Inr ra, ?ca'), a')"
    using assms(5,7,9) sendA [of "ca\<lparr>rw_in := g @ restA\<rparr>"] A(1,4,5) a'(1)
    by (simp add: handshakeOutgoing_def PA_def)
  have "Prot_Version PB = Prot_Version PA'" using B(4) A(3) by simp
  from agreed_in_step [OF B(2) A(2) this, of ?ca' ?cb'] incoming outgoing a' b' B(4) A(3) show ?thesis
    unfolding n_def [symmetric] by (intro exI [of _ f] exI [of _ g] exI [of _ ra] exI [of _ rb] exI [of _ ?ca'] exI [of _ ?cb'] exI [of _ a'] exI [of _ b']) simp
qed

definition sample_v9 :: NetState where
  "sample_v9 = sample_net\<lparr>n_conf := DefaultP2PConfiguration\<lparr>cf_ProtocolVersion := 9\<rparr>, n_instanceID := 2\<rparr>"

lemma sample_v9_inv: "net_inv sample_v9"
  using sample_net_inv by (simp add: sample_v9_def net_inv_def conf_ok_def resend_ok_def sample_net_def DefaultP2PConfiguration_def)

lemma sample_port: "port_ok DefaultP2PConfiguration" "port_ok (DefaultP2PConfiguration\<lparr>cf_ProtocolVersion := v\<rparr>)"
proof -
  have "Atoi ''8108'' = Some 8108"
    by (simp add: Atoi_def digits_val_def digit_val_def is_digit_def)
  then show "port_ok DefaultP2PConfiguration" "port_ok (DefaultP2PConfiguration\<lparr>cf_ProtocolVersion := v\<rparr>)"
    by (simp_all add: port_ok_def DefaultP2PConfiguration_def)
qed

lemma sample_allow: "allowIncoming 5 ''q'' sample_v9 = Inr ()"
proof -
  have "length (ps_peers sample_store) = length (peers_of sample_store)" by (simp add: peers_of_def)
  then show ?thesis
    by (simp add: allowIncoming_def isBannedIP_def ban_end_def sample_v9_def sample_net_def PeerStore_Total_def
        sample_peers DefaultP2PConfiguration_def)
qed

theorem nodes_connect_witness:
  "\<exists>f g ra rb ca' cb' a' b'.
    handshakeOutgoing sample_lib 5 (NewMetricsReadWriter ()) (open_rw g) \<lparr>IP = ''b'', Port = ''8108''\<rparr> sample_net = Some ((Inr ra, ca'), a')
    \<and> handshakeIncoming sample_lib (\<lambda>_. 5) (NewMetricsReadWriter ()) (open_rw f) \<lparr>IP = ''q'', Port = ''5''\<rparr> sample_v9 = Some ((Inr rb, cb'), b')
    \<and> Prot_Version (p_prot (n_heap a' ra)) = 9 \<and> Prot_Version (p_prot (n_heap b' rb)) = 9"
proof -
  have c: "compatible (n_conf sample_net) (n_conf sample_v9)"
    using sample_port by (simp add: compatible_def negotiated_def sample_net_def sample_v9_def)
      (simp add: DefaultP2PConfiguration_def)
  have n: "negotiated (n_conf sample_net) (n_conf sample_v9) = 9"
    by (simp add: negotiated_def sample_net_def sample_v9_def DefaultP2PConfiguration_def)
  have i: "n_instanceID sample_net \<noteq> n_instanceID sample_v9" by (simp add: sample_net_def sample_v9_def)
  have w: "total_writer (open_rw [] :: gob_conn)" "rw_out (open_rw [] :: gob_conn) = []"
    by (simp_all add: total_writer_def open_rw_def)
  have o: "(open_rw [] :: gob_conn)\<lparr>rw_in := x\<rparr> = open_rw x" for x by (simp add: open_rw_def)
  have al: "allowIncoming ((\<lambda>_. 5) 0) (IP \<lparr>IP = ''q'', Port = ''5''\<rparr>) sample_v9 = Inr ()" using sample_allow by simp
  from nodes_connect [OF sample_lib_ok sample_net_inv sample_v9_inv c i al w(1) w(1) w(2) w(2), of 5 "NewMetricsReadWriter ()" "[]" "\<lparr>IP = ''b'', Port = ''8108''\<rparr>" "NewMetricsReadWriter ()" "[]"]
  show ?thesis unfolding o n append_Nil2 by blast
qed

text \<open>What the node that dialed gets from a node that turns it away, whatever the reason.\<close>

lemma refused_gets_share:
  assumes "lib_ok lib" and "\<not> is_ok (allowIncoming (clk 0) (IP epA) b)" and "makePeerShare epA b = (share, b1)"
    and "n_conf b1 = n_conf b" and "share \<noteq> []" and "list_all Endpoint_Valid share" and "list_all ascii_endpoint share"
    and "cf_Network (n_conf a) = cf_Network (n_conf b)" and "cf_ProtocolVersion (n_conf b) \<in> {9, 10, 11}"
    and "cf_ProtocolVersionMinimum (n_conf a) \<le> cf_ProtocolVersion (n_conf b)" and "port_ok (n_conf a)" and "port_ok (n_conf b)"
    and "cf_ProtocolVersion (n_conf b) = 11 \<longrightarrow>
      small_handshake ((newHandshake (n_conf b) 0)\<lparr>hs_Type := TypeRejectAlternative, hs_Alternatives := share\<rparr>)"
    and "n_instanceID a \<noteq> 0" and "total_writer ca" and "total_writer cb" and "rw_out cb = []"
  shows "\<exists>f ca' cb'. handshakeIncoming lib clk mb cb epA b = Some ((Inl (Conn ErrRejecting, []), cb'), b1) \<and> rw_out cb' = f
    \<and> handshakeOutgoing lib now ma (ca\<lparr>rw_in := f @ rest\<rparr>) epB a = Some ((Inl (Hs ErrConnectionRejected, share), ca'), a)"
proof -
  let ?A = "n_conf a" and ?B = "n_conf b"
  let ?h = "(newHandshake ?B 0)\<lparr>hs_Type := TypeRejectAlternative, hs_Alternatives := share\<rparr>" and ?P = "selectProtocol ?B"
  have h: "list_all ascii_endpoint (hs_Alternatives ?h)" "hs_Type ?h = TypeRejectAlternative \<longleftrightarrow> hs_Alternatives ?h \<noteq> []"
    "?P = PV11 \<longrightarrow> small_handshake ?h" using assms(5,7,13) by (simp_all add: selectProtocol_def)
  from handshake_wire [OF assms(1) h(1,2) select_fresh h(3)] obtain f where
    f: "\<And>w. total_writer w \<Longrightarrow> Prot_SendHandshake lib ?h (?P, w) = Inr (used ?P, w\<lparr>rw_out := rw_out w @ f\<rparr>)" and
    d: "\<And>conf r rest. rw_in r = f @ rest \<Longrightarrow> Handshake_Valid conf (seen_as ?P ?h) = Inr () \<Longrightarrow>
        (if ?P = PV11 then detectProtocolFromFirstMessage lib conf r = Inr (?h, PV11, r\<lparr>rw_in := rest\<rparr>)
         else \<exists>v9. v9_encoder v9 = [] \<and> set (v9_decoder v9) = {TV9Msg, TV9Header}
           \<and> detectProtocolFromFirstMessage lib conf r = gob_choice conf (seen_as ?P ?h) v9 (r\<lparr>rw_in := rest\<rparr>))"
    by blast
  have in_ok: "handshakeIncoming lib clk mb cb epA b = Some ((Inl (Conn ErrRejecting, []), cb\<lparr>rw_out := f\<rparr>), b1)"
    using assms(2-4,16,17) f [of cb] by (cases "allowIncoming (clk 0) (IP epA) b")
      (simp_all add: handshakeIncoming_def RejectWithShare_def)
  let ?s = "seen_as ?P ?h"
  have valid: "Handshake_Valid ?A ?s = Inr ()"
    using assms(6,8,10,12) by (simp add: Handshake_Valid_iff seen_as_ok port_ok_def)
  have lb: "hs_Loopback ?s = 0" by (cases ?P) (simp_all add: v9_seen_def ParcelType_defs)
  have vs: "?P \<noteq> PV11 \<longrightarrow> hs_Version ?h = 9 \<or> hs_Version ?h = 10" "?P = PV11 \<longrightarrow> hs_Version ?h = 11"
    using assms(9) by (auto simp: selectProtocol_def)
  have small: "selectProtocol ?A = PV11 \<longrightarrow> small_handshake (newHandshake ?A (n_instanceID a))"
    using assms(11) by (simp add: small_handshakeI port_ok_def)
  from send_total [OF assms(1) _ select_fresh small] obtain g where
    g: "\<And>w. total_writer w \<Longrightarrow> Prot_SendHandshake lib (newHandshake ?A (n_instanceID a)) (selectProtocol ?A, w)
      = Inr (used (selectProtocol ?A), w\<lparr>rw_out := rw_out w @ g\<rparr>)" by auto
  let ?ca = "ca\<lparr>rw_in := f @ rest, rw_out := rw_out ca @ g\<rparr>"
  have "rw_in ?ca = f @ rest" by simp
  from detect_agreed [OF d [OF this valid] vs] obtain prot' v where
    det: "detectProtocolFromFirstMessage lib ?A ?ca = Inr (?s\<lparr>hs_Version := v\<rparr>, prot', ?ca\<lparr>rw_in := rest\<rparr>)" by blast
  have "handshakeOutgoing lib now ma (ca\<lparr>rw_in := f @ rest\<rparr>) epB a
      = Some ((Inl (Hs ErrConnectionRejected, share), ?ca\<lparr>rw_in := rest\<rparr>), a)"
    using g [of "ca\<lparr>rw_in := f @ rest\<rparr>"] det assms(14,15) lb seen_as_ok(1,7) [of ?P ?h]
    by (simp add: handshakeOutgoing_def)
  with in_ok show ?thesis by (intro exI [of _ f] exI) auto
qed

text \<open>C20: a node that has no room for a connection tells the other one where to go: if it turns the connection away
  because it is full or the ip has reached its limit, the share it makes is not empty and the endpoints in it are
  valid, then the node that dialed gets exactly this share, as the alternatives of a rejection, in whatever version
  the rejecting node writes, as long as that version is not below its own minimum. (Refusals because of a ban, for
  which \<open>controller_connections.go:71\<close> promises that there are no alternatives, are not part of this claim.)\<close>

theorem rejection_offers_alternatives:
  assumes "lib_ok lib" and "allowIncoming (clk 0) (IP epA) b \<in> {Inl ErrMaxedOut, Inl ErrIPLimit}"
    and "makePeerShare epA b = (share, b1)"
    and "n_conf b1 = n_conf b" and "share \<noteq> []" and "list_all Endpoint_Valid share" and "list_all ascii_endpoint share"
    and "cf_Network (n_conf a) = cf_Network (n_conf b)" and "cf_ProtocolVersion (n_conf b) \<in> {9, 10, 11}"
    and "cf_ProtocolVersionMinimum (n_conf a) \<le> cf_ProtocolVersion (n_conf b)" and "port_ok (n_conf a)" and "port_ok (n_conf b)"
    and "cf_ProtocolVersion (n_conf b) = 11 \<longrightarrow>
      small_handshake ((newHandshake (n_conf b) 0)\<lparr>hs_Type := TypeRejectAlternative, hs_Alternatives := share\<rparr>)"
    and "n_instanceID a \<noteq> 0" and "total_writer ca" and "total_writer cb" and "rw_out cb = []"
  shows "\<exists>f ca' cb'. handshakeIncoming lib clk mb cb epA b = Some ((Inl (Conn ErrRejecting, []), cb'), b1) \<and> rw_out cb' = f
    \<and> handshakeOutgoing lib now ma (ca\<lparr>rw_in := f @ rest\<rparr>) epB a = Some ((Inl (Hs ErrConnectionRejected, share), ca'), a)"
proof -
  from assms(2) have "\<not> is_ok (allowIncoming (clk 0) (IP epA) b)" by auto
  from refused_gets_share [of lib clk epA b, OF assms(1) this assms(3-17)] show ?thesis .
qed

theorem rejection_offers_alternatives_witness:
  "\<exists>share cb' b1 ca'. share \<noteq> []
    \<and> handshakeIncoming sample_lib (\<lambda>_. 5) (NewMetricsReadWriter ()) (open_rw []) \<lparr>IP = ''q'', Port = ''5''\<rparr>
        sample_full = Some ((Inl (Conn ErrRejecting, []), cb'), b1)
    \<and> handshakeOutgoing sample_lib 5 (NewMetricsReadWriter ()) (open_rw (rw_out cb')) \<lparr>IP = ''b'', Port = ''8108''\<rparr> sample_net
        = Some ((Inl (Hs ErrConnectionRejected, share), ca'), sample_net)"
proof -
  let ?b = sample_full and ?q = "\<lparr>IP = ''q'', Port = ''5''\<rparr>"
  let ?e1 = "\<lparr>IP = ''a'', Port = ''1''\<rparr>" and ?e2 = "\<lparr>IP = ''a'', Port = ''11''\<rparr>"
  obtain share b1 where m: "makePeerShare ?q ?b = (share, b1)" by (rule prod.exhaust)
  note inv = makePeerShare_inv(2,3) [OF sample_full_inv m]
  have amount: "unat (cf_PeerShareAmount (n_conf ?b)) = 3" by (simp add: sample_full_def DefaultP2PConfiguration_def)
  from inv(2) obtain eps where eps: "mset eps = mset [?e1, ?e2]" "share = share_pick 3 ?q eps []"
    unfolding amount by (auto simp: sample_full_def sample_net_def sample_peers sample_peer_consts)
  have e: "set eps = {?e1, ?e2}" "length eps = 2"
    using mset_eq_setD [OF eps(1)] mset_eq_length [OF eps(1)] by simp_all
  have "\<forall>ep \<in> set eps. ep \<noteq> ?q" unfolding e(1) by simp
  then have "filter (\<lambda>ep. ep \<noteq> ?q) eps = eps" by (rule filter_True)
  with eps(2) e(2) have eq: "share = eps" by (simp add: share_pick_eq)
  have ne: "share \<noteq> []" using e(2) unfolding eq by force
  have st: "set share = {?e1, ?e2}" unfolding eq by (rule e(1))
  have "Endpoint_Valid ?e1" "Endpoint_Valid ?e2" by code_simp+
  with st have v: "list_all Endpoint_Valid share" by (auto simp: list_all_iff)
  have as: "list_all ascii_endpoint share" using st by (auto simp: list_all_iff ascii_endpoint_def ascii_def)
  have al: "allowIncoming ((\<lambda>_. 5) 0) (IP ?q) ?b \<in> {Inl ErrMaxedOut, Inl ErrIPLimit}" by (simp add: sample_full_refuses)
  have c: "n_conf b1 = n_conf ?b" using inv(1) by auto
  let ?full = "DefaultP2PConfiguration\<lparr>cf_MaxIncoming := 2\<rparr>"
  have conf: "n_conf ?b = ?full" "n_conf sample_net = DefaultP2PConfiguration" "n_instanceID sample_net \<noteq> 0"
    by (simp_all add: sample_net_def sample_full_def)
  have ver: "cf_ProtocolVersion DefaultP2PConfiguration = 10" "cf_ProtocolVersionMinimum DefaultP2PConfiguration = 9"
    by (simp_all add: DefaultP2PConfiguration_def)
  have w: "total_writer (open_rw [] :: gob_conn)" "rw_out (open_rw [] :: gob_conn) = []"
    by (simp_all add: total_writer_def open_rw_def)
  have o: "(open_rw [] :: gob_conn)\<lparr>rw_in := x\<rparr> = open_rw x" for x by (simp add: open_rw_def)
  have port: "port_ok ?full" using sample_port(1) by (simp add: port_ok_def)
  from rejection_offers_alternatives [OF sample_lib_ok al m c ne v as, of sample_net "open_rw []" "open_rw []"
      "NewMetricsReadWriter ()" 5 "NewMetricsReadWriter ()" "[]" "\<lparr>IP = ''b'', Port = ''8108''\<rparr>"] ne
  show ?thesis unfolding o append_Nil2 using w conf(3) sample_port(1) port by (simp add: conf(1,2) ver) blast
qed

subsection \<open>Why version 9 keeps its encoder\<close>

lemma detect_V9:
  assumes "detectProtocolFromFirstMessage lib conf r = Inr (hs, PV9 v, r')"
  shows "v9_encoder v = [] \<and> (\<exists>g rest. gob_next [] (rw_in r) = Inr (g, v9_decoder v, rest))"
  using assms
  by (auto simp: detectProtocolFromFirstMessage_def Prot_ReadHandshake_def V9_ReadHandshake_def V9_read_def Decode_def
      newProtocolV9_def bindR_Inr_iff Let_def split: sum.splits if_splits prod.splits)

lemma send_gob_handshake:
  assumes "Prot_SendHandshake lib h (selectProtocol conf, w) = Inr (desired, w1)" and "total_writer w" and "rw_out w = []"
    and "cf_ProtocolVersion conf \<noteq> 11"
  shows "enc_of desired = [TV9Msg, TV9Header] \<and> desired \<noteq> PV11
    \<and> (\<exists>m. w1 = w\<lparr>rw_out := [Gob (GobType TV9Msg), Gob (GobType TV9Header), Gob (GobV9 m)]\<rparr>)"
  using assms
  by (auto simp: Prot_SendHandshake_def selectProtocol_def V9_SendHandshake_def V10_SendHandshake_def v9SendHandshake_def
      newProtocolV9_def newProtocolV10_def bindR_Inr_iff Encode_V9_total Let_def split: if_splits)

lemma V9_Send_total:
  assumes "total_writer w" and "has_payload p"
  shows "\<exists>h. V9Msg_Valid \<lparr>m9_Header = h, m9_Payload = Payload p\<rparr> = Inr () \<and> h9_Type h = ptype p \<and> h9_TargetPeer h = Address p
    \<and> (v9_encoder v = [TV9Msg, TV9Header] \<longrightarrow>
        V9_Send p (v, w) = Inr (v, w\<lparr>rw_out := rw_out w @ [Gob (GobV9 \<lparr>m9_Header = h, m9_Payload = Payload p\<rparr>)]\<rparr>))
    \<and> (v9_encoder v = [] \<longrightarrow>
        V9_Send p (v, w) = Inr (v\<lparr>v9_encoder := [TV9Msg, TV9Header]\<rparr>, w\<lparr>rw_out := rw_out w @ [Gob (GobType TV9Msg),
          Gob (GobType TV9Header), Gob (GobV9 \<lparr>m9_Header = h, m9_Payload = Payload p\<rparr>)]\<rparr>))"
proof -
  let ?h = "zero_V9Header\<lparr>h9_Network := v9_network v, h9_Version := 9, h9_Type := ptype p,
           h9_TargetPeer := Address p, h9_NodeID := ucast (v9_nodeID v), h9_PeerAddress := [],
           h9_PeerPort := v9_port v, h9_AppHash := ''NetworkMessage'', h9_AppType := ''Network'',
           h9_Crc32 := Checksum (Payload p), h9_Length := of_nat (length (Payload p))\<rparr>"
  have "V9Msg_Valid \<lparr>m9_Header = ?h, m9_Payload = Payload p\<rparr> = Inr ()"
    using assms(2) V9Msg_Valid_sent by (simp add: has_payload_def)
  moreover have "v9_encoder v = [TV9Msg, TV9Header] \<Longrightarrow>
      V9_Send p (v, w) = Inr (v, w\<lparr>rw_out := rw_out w @ [Gob (GobV9 \<lparr>m9_Header = ?h, m9_Payload = Payload p\<rparr>)]\<rparr>)"
    by (cases v) (simp add: V9_Send_def Encode_def gob_write_total assms(1) Let_def)
  moreover have "v9_encoder v = [] \<Longrightarrow>
      V9_Send p (v, w) = Inr (v\<lparr>v9_encoder := [TV9Msg, TV9Header]\<rparr>, w\<lparr>rw_out := rw_out w @ [Gob (GobType TV9Msg),
          Gob (GobType TV9Header), Gob (GobV9 \<lparr>m9_Header = ?h, m9_Payload = Payload p\<rparr>)]\<rparr>)"
    by (simp add: V9_Send_def Encode_V9_total assms(1) Let_def)
  ultimately show ?thesis by (intro exI [of _ ?h] conjI impI) simp_all
qed

text \<open>C37: a node that dials has to go on with the encoder of its handshake once it turns out that the other side speaks
  version 9, and \<open>keep_encoder\<close> of \<open>handshakeOutgoing\<close> makes it do so: after the listening node has read the handshake, a
  parcel that is sent with the kept encoder arrives there unchanged, whereas the same parcel, sent with the encoder of
  the protocol object that the detection of the reply made, is refused as a broken gob stream, and would end the
  connection.\<close>

theorem handshake_encoder_kept:
  assumes "cf_ProtocolVersion conf \<noteq> 11" and "total_writer w" and "rw_out w = []"
    and "Prot_SendHandshake lib (newHandshake conf loopback) (selectProtocol conf, w) = Inr (desired, w1)"
    and "rw_in c = rw_out w1" and "detectProtocolFromFirstMessage lib conf' c = Inr (hs, PV9 remote, c')"
    and "detectProtocolFromFirstMessage lib conf d = Inr (reply, PV9 fresh, d')" and "has_payload p"
  shows "(\<exists>s w2 r. Prot_Send lib p (keep_encoder desired (PV9 fresh), w1) = Inr (s, w2)
      \<and> Prot_Receive lib (PV9 remote, c'\<lparr>rw_in := drop (length (rw_out w1)) (rw_out w2)\<rparr>) = Inr (p, r))
    \<and> (\<exists>s w2. Prot_Send lib p (PV9 fresh, w1) = Inr (s, w2)
      \<and> Prot_Receive lib (PV9 remote, c'\<lparr>rw_in := drop (length (rw_out w1)) (rw_out w2)\<rparr>) = Inl (Sys ErrGob))"
proof -
  from send_gob_handshake [OF assms(4,2,3,1)] obtain m where enc: "enc_of desired = [TV9Msg, TV9Header]" "desired \<noteq> PV11"
    and w1: "w1 = w\<lparr>rw_out := [Gob (GobType TV9Msg), Gob (GobType TV9Header), Gob (GobV9 m)]\<rparr>" by blast
  have seen: "v9_decoder remote = [TV9Msg, TV9Header]" using detect_V9 [OF assms(6)] assms(5) w1 by auto
  have fresh: "v9_encoder fresh = []" using detect_V9 [OF assms(7)] by blast
  have tw: "total_writer w1" using assms(2) w1 by simp
  obtain v where v: "keep_encoder desired (PV9 fresh) = PV9 v" "v9_encoder v = [TV9Msg, TV9Header]"
    using enc by (cases desired) auto
  from V9_Send_total [OF tw assms(8), of v] v(2) obtain h where
    h: "V9Msg_Valid \<lparr>m9_Header = h, m9_Payload = Payload p\<rparr> = Inr ()" "h9_Type h = ptype p" "h9_TargetPeer h = Address p"
    "V9_Send p (v, w1) = Inr (v, w1\<lparr>rw_out := rw_out w1 @ [Gob (GobV9 \<lparr>m9_Header = h, m9_Payload = Payload p\<rparr>)]\<rparr>)" by auto
  from V9_Send_total [OF tw assms(8), of fresh] fresh obtain g where
    "V9_Send p (fresh, w1) = Inr (fresh\<lparr>v9_encoder := [TV9Msg, TV9Header]\<rparr>, w1\<lparr>rw_out := rw_out w1 @ [Gob (GobType TV9Msg),
          Gob (GobType TV9Header), Gob (GobV9 \<lparr>m9_Header = g, m9_Payload = Payload p\<rparr>)]\<rparr>)" by auto
  with h v(1) seen show ?thesis
    by (auto simp: Prot_Send_def Prot_Receive_def V9_Receive_def V9_read_def Decode_def)
qed

theorem handshake_encoder_kept_witness:
  "\<exists>desired w1 hs remote c' s w2 r. Prot_SendHandshake sample_lib (newHandshake (n_conf sample_v9) 5) (selectProtocol (n_conf sample_v9), open_rw [])
      = Inr (desired, w1)
    \<and> detectProtocolFromFirstMessage sample_lib (n_conf sample_v9) (open_rw (rw_out w1)) = Inr (hs, PV9 remote, c')
    \<and> Prot_Send sample_lib (newParcel TypeMessage [7]) (keep_encoder desired (PV9 remote), w1) = Inr (s, w2)
    \<and> Prot_Receive sample_lib (PV9 remote, c'\<lparr>rw_in := drop (length (rw_out w1)) (rw_out w2)\<rparr>) = Inr (newParcel TypeMessage [7], r)"
proof -
  let ?c = "n_conf sample_v9" and ?w = "open_rw [] :: gob_conn" and ?p = "newParcel TypeMessage [7]"
  let ?h = "newHandshake ?c 5" and ?P = "selectProtocol ?c"
  have c: "cf_ProtocolVersion ?c = 9" by (simp add: sample_v9_def)
  have P: "?P \<noteq> PV11" by (simp add: selectProtocol_def c)
  have w: "total_writer ?w" "rw_out ?w = []" by (simp_all add: total_writer_def open_rw_def)
  have h: "list_all ascii_endpoint (hs_Alternatives ?h)" "hs_Type ?h = TypeRejectAlternative \<longleftrightarrow> hs_Alternatives ?h \<noteq> []"
    by (simp_all add: ParcelType_defs)
  from handshake_wire [OF sample_lib_ok h select_fresh] P obtain f where
    f: "Prot_SendHandshake sample_lib ?h (?P, ?w) = Inr (used ?P, ?w\<lparr>rw_out := f\<rparr>)"
    and d: "\<And>r. rw_in r = f \<Longrightarrow> Handshake_Valid ?c (seen_as ?P ?h) = Inr () \<Longrightarrow>
      \<exists>v9. v9_encoder v9 = [] \<and> set (v9_decoder v9) = {TV9Msg, TV9Header}
        \<and> detectProtocolFromFirstMessage sample_lib ?c r = gob_choice ?c (seen_as ?P ?h) v9 (r\<lparr>rw_in := []\<rparr>)"
    using w by (metis append_Nil append_Nil2)
  have "Handshake_Valid ?c (seen_as ?P ?h) = Inr ()"
    using sample_port(2) [of 9] by (simp add: Handshake_Valid_iff seen_as_ok port_ok_def)
      (simp add: sample_v9_def DefaultP2PConfiguration_def)
  with d [of "open_rw f"] obtain v9 where
    "detectProtocolFromFirstMessage sample_lib ?c (open_rw f) = gob_choice ?c (seen_as ?P ?h) v9 ((open_rw f)\<lparr>rw_in := []\<rparr>)"
    by (auto simp: open_rw_def)
  then have det: "detectProtocolFromFirstMessage sample_lib ?c (open_rw f) = Inr (seen_as ?P ?h, PV9 v9, (open_rw f)\<lparr>rw_in := []\<rparr>)"
    using c by (simp add: gob_choice_def seen_as_ok)
  have i: "rw_in (open_rw f :: gob_conn) = rw_out (?w\<lparr>rw_out := f\<rparr>)" by (simp add: open_rw_def)
  have "has_payload ?p" by (simp add: has_payload_def newParcel_def)
  with handshake_encoder_kept [OF _ w f i det det, of ?p] f det show ?thesis by (auto simp: c)
qed

end
