(* ===== verification/Networks.thy ===== *)
theory Networks
  imports RunLoop Negotiation
begin

section \<open>The node as a whole\<close>

text \<open>
  \<open>network.go\<close> and \<open>newController\<close> and \<open>Start\<close> of \<open>controller.go\<close>: how a node comes about, what the
  application can ask of it, and which steps its goroutines take. An event is one turn of a loop, one
  goroutine that was started and now runs, or a call of the application.
\<close>

subsection \<open>Creating a node\<close>

text \<open>What creating a node takes from its surroundings: the hash function, the random source (\<open>None\<close>: it does not
  support 64 bits), the resolver, the cache file, the clock, and the Prometheus registry of the process.\<close>

record 'r Boot =
  b_sha256 :: "bytes \<Rightarrow> bytes"
  b_source :: "time \<Rightarrow> rng option"
  b_Resolve :: "string \<Rightarrow> sys_error + unit"
  b_ju :: "bytes \<Rightarrow> PeerCache option"
  b_files :: files
  b_now :: clock
  b_bans_now :: "string \<Rightarrow> time"
  b_register :: "string \<Rightarrow> 'r \<Rightarrow> 'r option"
  b_process :: "'r Process"

definition nil_channel :: "'a channel" where
  "nil_channel = \<lparr>ch_cap = 0, ch_buf = [], ch_closed = False\<rparr>"

text \<open>The network before its controller and its channels have been made: zero values.\<close>

definition new_network :: "Configuration \<Rightarrow> Prometheus option \<Rightarrow> rng \<Rightarrow> 64 word \<Rightarrow> NetState" where
  "new_network conf prom rnd instanceID =
     \<lparr>n_conf = conf, n_rng = rnd, n_instanceID = instanceID, n_stopped = False, n_prom = prom,
      n_toNetwork = nil_channel, n_fromNetwork = nil_channel, n_heap = (\<lambda>_. undefined), n_next = 0, n_tasks = [],
      c_peerStatus = [], c_peerData = [], c_peers = NewPeerStore,
      c_dialer = \<lparr>d_bindTo = [], d_interval = 0, d_timeout = 0, d_attempts = Map.empty\<rparr>,
      c_bans = None, c_special = {}, c_specialEndpoints = [], c_bootstrap = [],
      c_shareListener = Map.empty, c_lastPersist = 0, c_lastRound = 0, c_seed = newSeed [] 0, c_rounds = 0\<rparr>"

definition newController :: "'r Boot \<Rightarrow> NetState \<Rightarrow> NetState result" where
  "newController b s =
     (let conf = n_conf s
      in case NewDialer (b_Resolve b) (cf_BindIP conf) (cf_RedialInterval conf) (cf_DialTimeout conf) of
           Inl e \<Rightarrow> Inl (Sys e)
         | Inr d \<Rightarrow>
             (let s = s\<lparr>c_dialer := d, c_lastPersist := b_now b 1, c_peerStatus := [], c_peerData := [], c_special := {},
                    c_shareListener := Map.empty, c_lastRound := b_now b 2,
                    c_seed := newSeed (cf_SeedURL conf) (cf_PeerReseedInterval conf), c_peers := NewPeerStore\<rparr>;
                  s = setSpecial (cf_Special conf) s
              in Inr (case loadPeerCache (b_ju b) (b_bans_now b) (b_files b) conf of
                        Inr (Some cache) \<Rightarrow> s\<lparr>c_bans := pc_Bans cache, c_bootstrap := pc_Peers cache\<rparr>
                      | _ \<Rightarrow> s\<lparr>c_bans := Some Map.empty, c_bootstrap := []\<rparr>)))"

definition newLockSource :: "(time \<Rightarrow> rng option) \<Rightarrow> time \<Rightarrow> rng result" where
  "newLockSource source seed = (case source seed of None \<Rightarrow> Inl (Sys ErrIO) | Some r \<Rightarrow> Inr r)"

text \<open>The result \<open>None\<close> is a panic of \<open>Setup\<close>. With Prometheus off the field \<open>prom\<close> stays nil.\<close>

definition setup_prom :: "'r Boot \<Rightarrow> Configuration \<Rightarrow> Prometheus option option" where
  "setup_prom b conf =
     (if cf_EnablePrometheus conf then map_option (\<lambda>(p, _). Some p) (new_prom (b_register b) (b_process b)) else Some None)"

definition NewNetwork :: "'r Boot \<Rightarrow> Configuration \<Rightarrow> NetState result option" where
  "NewNetwork b conf =
     (case Check conf of
        Inl e \<Rightarrow> Some (Inl (Conf e))
      | Inr _ \<Rightarrow>
          (let conf = Sanitize conf
           in map_option (\<lambda>prom.
                bindR (newLockSource (b_source b) (b_now b 0)) (\<lambda>rnd.
                let (instanceID, rnd) = rng_next rnd;
                    conf = (if cf_NodeID conf = 0 then conf\<lparr>cf_NodeID := StringToUint32 (b_sha256 b) (cf_NodeName conf)\<rparr> else conf)
                in bindR (newController b (new_network conf prom rnd (of_nat instanceID))) (\<lambda>s.
                     Inr (s\<lparr>n_toNetwork := newParcelChannel (unat (cf_ChannelCapacity conf)),
                            n_fromNetwork := newParcelChannel (unat (cf_ChannelCapacity conf))\<rparr>))))
              (setup_prom b conf)))"

subsection \<open>Running and stopping\<close>

datatype loop = L_run | L_manageData | L_manageOnline | L_listen | L_catReplenish | L_route

definition Start :: "loop set" where
  "Start = {L_run, L_manageData, L_manageOnline, L_listen, L_catReplenish, L_route}"

definition Network_Run :: "NetState \<Rightarrow> loop set result" where
  "Network_Run s = (if n_stopped s then Inl (Conn ErrRestart) else Inr Start)"

definition Network_Stop :: "NetState \<Rightarrow> NetState result" where
  "Network_Stop s = (if n_stopped s then Inl (Conn ErrAlreadyStopped) else Inr (s\<lparr>n_stopped := True\<rparr>))"

subsection \<open>What the application can do\<close>

definition Network_Ban :: "string \<Rightarrow> NetState \<Rightarrow> NetState" where
  "Network_Ban hsh s = s\<lparr>n_tasks := n_tasks s @ [T_Ban hsh (cf_ManualBan (n_conf s))]\<rparr>"

definition Network_Disconnect :: "string \<Rightarrow> NetState \<Rightarrow> NetState" where
  "Network_Disconnect hsh s = s\<lparr>n_tasks := n_tasks s @ [T_Disconnect hsh]\<rparr>"

definition Network_SetSpecial :: "string \<Rightarrow> NetState \<Rightarrow> NetState" where
  "Network_SetSpecial raw s = s\<lparr>n_tasks := n_tasks s @ [T_SetSpecial raw]\<rparr>"

definition Network_Total :: "NetState \<Rightarrow> nat" where
  "Network_Total s = PeerStore_Total (c_peers s)"

definition Network_Rounds :: "NetState \<Rightarrow> nat" where
  "Network_Rounds s = c_rounds s"

definition Network_Send :: "Parcel option \<Rightarrow> NetState \<Rightarrow> NetState option" where
  "Network_Send p s = map_option (\<lambda>(_, dropped, ch). s\<lparr>n_toNetwork := ch\<rparr>) (ParcelChannel_Send p (n_toNetwork s))"

text \<open>A send that waits as long as the channel is full.\<close>

definition Network_BlockingSend :: "Parcel option \<Rightarrow> NetState \<Rightarrow> NetState turn" where
  "Network_BlockingSend p s =
     (case try_send p (n_toNetwork s) of
        None \<Rightarrow> Panics
      | Some (True, ch) \<Rightarrow> Next (s\<lparr>n_toNetwork := ch\<rparr>)
      | Some (False, _) \<Rightarrow> Waits)"

text \<open>Receiving from the channel that \<open>Reader\<close> returns.\<close>

definition Network_Reader :: "NetState \<Rightarrow> (Parcel option option \<times> NetState) option" where
  "Network_Reader s = map_option (\<lambda>(x, ch). (x, s\<lparr>n_fromNetwork := ch\<rparr>)) (Channel_Receive (n_fromNetwork s))"

record Info =
  i_Peers :: nat
  i_Receiving :: float64
  i_Sending :: float64
  i_Download :: float64
  i_Upload :: float64
  i_Dropped :: "64 word"

definition GetInfo :: "NetState \<Rightarrow> Info \<times> NetState" where
  "GetInfo s =
     (let (peers, s) = slice_peers s;
          metrics = map (peer_metrics s) peers;
          total = (\<lambda>f. f64_sum (map f metrics))
      in (\<lparr>i_Peers = PeerStore_Total (c_peers s), i_Receiving = total pm_MPSDown, i_Sending = total pm_MPSUp,
           i_Download = total pm_BPSDown, i_Upload = total pm_BPSUp, i_Dropped = 0\<rparr>, s))"

definition GetPeerMetrics :: "NetState \<Rightarrow> metrics_map \<times> NetState" where
  "GetPeerMetrics s = makeMetrics s"

subsection \<open>Goroutines\<close>

text \<open>The loops of a peer, with what they do to the controller.\<close>

abbreviation set_peer :: "peer_ref \<Rightarrow> Peer \<Rightarrow> NetState \<Rightarrow> NetState" where
  "set_peer r p s \<equiv> s\<lparr>n_heap := (n_heap s)(r := p)\<rparr>"

definition peer_read :: "Lib \<Rightarrow> time \<Rightarrow> bool \<Rightarrow> bool \<Rightarrow> peer_ref \<Rightarrow> NetState \<Rightarrow> NetState option" where
  "peer_read lib now buffered take_it r s =
     (case readLoop_step lib now buffered take_it (n_heap s r) of
        None \<Rightarrow> None
      | Some (Loop_Continue p) \<Rightarrow> Some (set_peer r p s)
      | Some (Loop_Deliver p parcel) \<Rightarrow> Some ((set_peer r p s)\<lparr>c_peerData := c_peerData s @ [(Some r, parcel)]\<rparr>)
      | Some (Loop_Return p) \<Rightarrow> Peer_Stop r (set_peer r p s))"

definition peer_send :: "Lib \<Rightarrow> time \<Rightarrow> bool \<Rightarrow> peer_ref \<Rightarrow> NetState \<Rightarrow> NetState option" where
  "peer_send lib now quit r s =
     (if ch_closed (p_send (n_heap s r)) then Some s
      else case sendLoop_step lib now (n_stopped s) quit (n_heap s r) of
        Loop_Continue p \<Rightarrow> Some (set_peer r p s)
      | Loop_Deliver p _ \<Rightarrow> Some (set_peer r p s)
      | Loop_Return p \<Rightarrow>
          Option.bind (Peer_Stop r (set_peer r p s)) (\<lambda>s. map_option (\<lambda>p. set_peer r p s) (close_send (n_heap s r))))"

text \<open>A goroutine that was started runs.\<close>

fun run_task :: "Lib \<Rightarrow> clock \<Rightarrow> unit MetricsReadWriter \<Rightarrow> task \<Rightarrow> NetState \<Rightarrow> NetState option" where
  "run_task lib clk metrics (T_Pong r) s = send_pong r s"
| "run_task lib clk metrics (T_SharePeers r eps) s = sharePeers lib r eps s"
| "run_task lib clk metrics (T_Ban hsh d) s = ban hsh (clk 0) d s"
| "run_task lib clk metrics (T_Disconnect hsh) s = disconnect hsh s"
| "run_task lib clk metrics (T_SetSpecial raw) s = Some (setSpecial raw s)"
| "run_task lib clk metrics (T_Incoming con ep) s = map_option snd (handshakeIncoming lib clk metrics con ep s)"

datatype event =
    E_Route | E_Data time time | E_Online
  | E_Listen "(sys_error \<times> bool) + (string \<times> gob_conn)" clock3 LimitedListener
  | E_Cycle clock bool files
  | E_Dial nat Endpoint | E_Bootstrapped | E_Reseed "nat \<Rightarrow> clock" time | E_Random "nat \<Rightarrow> Peer \<Rightarrow> bool"
  | E_Request time peer_ref | E_Response clock bool peer_ref
  | E_Task nat clock "unit MetricsReadWriter"
  | E_Read peer_ref time bool bool | E_PeerSend peer_ref time bool | E_Stat peer_ref bool | E_Tick peer_ref bool
  | E_Send "Parcel option" | E_BlockingSend "Parcel option" | E_Receive
  | E_Ban string | E_Disconnect string | E_SetSpecial string | E_Info | E_Metrics | E_Stop
  | E_LateOffline peer_ref

text \<open>The loop of the controller that an event is a part of.\<close>

fun loop_of :: "event \<Rightarrow> loop option" where
  "loop_of E_Route = Some L_route"
| "loop_of (E_Data _ _) = Some L_manageData"
| "loop_of E_Online = Some L_manageOnline"
| "loop_of (E_Listen _ _ _) = Some L_listen"
| "loop_of (E_Cycle _ _ _) = Some L_run"
| "loop_of (E_Dial _ _) = Some L_catReplenish"
| "loop_of E_Bootstrapped = Some L_catReplenish"
| "loop_of (E_Reseed _ _) = Some L_catReplenish"
| "loop_of (E_Random _) = Some L_catReplenish"
| "loop_of (E_Request _ _) = Some L_catReplenish"
| "loop_of (E_Response _ _ _) = Some L_catReplenish"
| "loop_of _ = None"

text \<open>The peer that an event is about exists, the goroutine was started, and the application sends no nil parcel. When
  a peer stops after the network was stopped, it may or may not tell the controller (\<open>E_LateOffline\<close>).\<close>

fun possible :: "event \<Rightarrow> NetState \<Rightarrow> bool" where
  "possible (E_Request _ r) s \<longleftrightarrow> r < n_next s"
| "possible (E_Read r _ _ _) s \<longleftrightarrow> r < n_next s"
| "possible (E_PeerSend r _ _) s \<longleftrightarrow> r < n_next s"
| "possible (E_Stat r _) s \<longleftrightarrow> r < n_next s"
| "possible (E_Tick r _) s \<longleftrightarrow> r < n_next s"
| "possible (E_Task i _ _) s \<longleftrightarrow> i < length (n_tasks s)"
| "possible (E_Send p) s \<longleftrightarrow> p \<noteq> None"
| "possible (E_BlockingSend p) s \<longleftrightarrow> p \<noteq> None"
| "possible (E_LateOffline r) s \<longleftrightarrow> r < n_next s \<and> n_stopped s \<and> p_stopped (n_heap s r)"
| "possible _ s \<longleftrightarrow> True"

text \<open>The turn itself, its Prometheus instruments apart.\<close>

fun event_turn :: "World \<Rightarrow> event \<Rightarrow> NetState \<Rightarrow> NetState turn" where
  "event_turn w E_Route s = route_step (w_lib w) s"
| "event_turn w (E_Data now1 now2) s = manageData_step now1 now2 s"
| "event_turn w E_Online s = manageOnline_step s"
| "event_turn w (E_Listen socket ck ll) s = Next (snd (snd (listen_step socket ck ll s)))"
| "event_turn w (E_Cycle clk hook fs) s = turn_of (map_option snd (run_cycle w clk hook fs s))"
| "event_turn w (E_Dial i ep) s =
     turn_of (map_option snd (Dial (w_lib w) (w_dial w i) (later 3 (w_clock w i)) (w_metrics w i) ep s))"
| "event_turn w E_Bootstrapped s = Next (s\<lparr>c_bootstrap := []\<rparr>)"
| "event_turn w (E_Reseed ck t) s = Next (snd (snd (reseed w ck t s)))"
| "event_turn w (E_Random cond) s = Next (snd (randomPeerConditional cond s))"
| "event_turn w (E_Request now r) s = turn_of (request_begin now r s)"
| "event_turn w (E_Response clk late r) s = Next (snd (request_end (w_lib w) clk late r s))"
| "event_turn w (E_Task i clk metrics) s =
     turn_of (run_task (w_lib w) clk metrics (n_tasks s ! i) (s\<lparr>n_tasks := take i (n_tasks s) @ drop (Suc i) (n_tasks s)\<rparr>))"
| "event_turn w (E_Read r now buffered take_it) s = turn_of (peer_read (w_lib w) now buffered take_it r s)"
| "event_turn w (E_PeerSend r now quit) s = turn_of (peer_send (w_lib w) now quit r s)"
| "event_turn w (E_Stat r quit) s = Next (set_peer r (statLoop_step quit (n_heap s r)) s)"
| "event_turn w (E_Tick r quit) s = turn_of (map_option (\<lambda>p. set_peer r p s) (resend_tick quit (n_heap s r)))"
| "event_turn w (E_Send p) s = turn_of (Network_Send p s)"
| "event_turn w (E_BlockingSend p) s = Network_BlockingSend p s"
| "event_turn w E_Receive s = (case Network_Reader s of None \<Rightarrow> Waits | Some (_, s) \<Rightarrow> Next s)"
| "event_turn w (E_Ban hsh) s = Next (Network_Ban hsh s)"
| "event_turn w (E_Disconnect hsh) s = Next (Network_Disconnect hsh s)"
| "event_turn w (E_SetSpecial raw) s = Next (Network_SetSpecial raw s)"
| "event_turn w E_Info s = Next (snd (GetInfo s))"
| "event_turn w E_Metrics s = Next (snd (GetPeerMetrics s))"
| "event_turn w E_Stop s = (case Network_Stop s of Inl _ \<Rightarrow> Next s | Inr s \<Rightarrow> Next s)"
| "event_turn w (E_LateOffline r) s = Next (s\<lparr>c_peerStatus := c_peerStatus s @ [(r, False)]\<rparr>)"

text \<open>The Prometheus instruments that a turn uses, if there are any: a call of a method of one that is nil is a panic,
  and then it does not matter where in the turn it is. The loops of a peer count themselves when they start and when
  they return; this is charged to each of their turns, since with a nil counter there is no turn at all.\<close>

definition read_uses :: "Lib \<Rightarrow> bool \<Rightarrow> Peer \<Rightarrow> prom_field list" where
  "read_uses lib buffered p =
     P_ReceiveRoutines #
     (if p_connClosed p \<and> \<not> buffered then []
      else case Prot_Receive lib (p_prot p, p_conn p) of
        Inl _ \<Rightarrow> []
      | Inr (msg, _) \<Rightarrow>
          if Parcel_Valid (Some msg) \<noteq> Inr () then [P_Invalid]
          else [P_ParcelsReceived, P_ParcelSize] @ (if IsApplicationMessage msg then [P_AppReceived] else []))"

definition send_uses :: "Lib \<Rightarrow> bool \<Rightarrow> bool \<Rightarrow> Peer \<Rightarrow> prom_field list" where
  "send_uses lib net_stopped quit p =
     P_SendRoutines #
     (if (net_stopped \<or> p_stopped p) \<and> (quit \<or> ch_buf (p_send p) = []) then []
      else case Channel_Receive (p_send p) of
        Some (Some (Some parcel), _) \<Rightarrow>
          if p_connClosed p \<or> \<not> is_ok (Prot_Send lib parcel (p_prot p, p_conn p)) then []
          else [P_ParcelsSent, P_ParcelSize] @ (if IsApplicationMessage parcel then [P_AppSent] else [])
      | _ \<Rightarrow> [])"

definition send_drops :: "'a \<Rightarrow> 'a channel \<Rightarrow> bool" where
  "send_drops x ch = (case ParcelChannel_Send x ch of None \<Rightarrow> False | Some (_, dropped, _) \<Rightarrow> dropped > 0)"

fun prom_uses :: "World \<Rightarrow> event \<Rightarrow> NetState \<Rightarrow> prom_field list" where
  "prom_uses w (E_Data _ _) s =
     (case c_peerData s of
        [] \<Rightarrow> []
      | (_, parcel) # _ \<Rightarrow>
          if IsApplicationMessage parcel \<and> send_drops (Some (parcel\<lparr>ptype := TypeMessage\<rparr>)) (n_fromNetwork s)
          then [P_DroppedFromNetwork] else [])"
| "prom_uses w E_Online s = (if c_peerStatus s = [] then [] else [P_Connections, P_Incoming, P_Outgoing])"
| "prom_uses w (E_Cycle clk _ _) s =
     (if Since (clk 0) (c_lastRound s) < cf_RoundTime (n_conf s) then [] else [P_CatRounds])
     @ [P_ByteRateDown, P_ByteRateUp, P_MessageRateUp, P_MessageRateDown,
        P_ToNetwork, P_ToNetworkRatio, P_FromNetwork, P_FromNetworkRatio]"
| "prom_uses w (E_Dial _ _) s = [P_Connecting]"
| "prom_uses w (E_Task i _ _) s = (case n_tasks s ! i of T_Incoming _ _ \<Rightarrow> [P_Connecting] | _ \<Rightarrow> [])"
| "prom_uses w (E_Read r _ buffered _) s = read_uses (w_lib w) buffered (n_heap s r)"
| "prom_uses w (E_PeerSend r _ quit) s =
     (if ch_closed (p_send (n_heap s r)) then [] else send_uses (w_lib w) (n_stopped s) quit (n_heap s r))"
| "prom_uses w (E_Send p) s = (if send_drops p (n_toNetwork s) then [P_DroppedToNetwork] else [])"
| "prom_uses w _ s = []"

definition happen :: "World \<Rightarrow> event \<Rightarrow> NetState \<Rightarrow> NetState turn" where
  "happen w ev s =
     (case use_instruments (prom_uses w ev s) (n_prom s) of None \<Rightarrow> Panics | Some _ \<Rightarrow> event_turn w ev s)"

text \<open>The loops that run and the state of a node that was created with the configuration \<open>conf\<close>. The loops return when
  the network was stopped, and \<open>listen\<close> also when it cannot listen or accept any more.\<close>

inductive node :: "World \<Rightarrow> 'r Boot \<Rightarrow> Configuration \<Rightarrow> loop set \<Rightarrow> NetState \<Rightarrow> bool"
  for w :: World and b :: "'r Boot" and conf :: Configuration where
  boot: "NewNetwork b conf = Some (Inr s) \<Longrightarrow> node w b conf {} s"
| start: "node w b conf L s \<Longrightarrow> Network_Run s = Inr L' \<Longrightarrow> node w b conf (L \<union> L') s"
| step: "node w b conf L s \<Longrightarrow> possible ev s \<Longrightarrow> set_option (loop_of ev) \<subseteq> L \<Longrightarrow> happen w ev s = Next s'
    \<Longrightarrow> node w b conf L s'"
| return: "node w b conf L s \<Longrightarrow> n_stopped s \<or> l = L_listen \<Longrightarrow> node w b conf (L - {l}) s"

subsection \<open>The invariant of a node holds from the start and is never broken\<close>

text \<open>A turn of a loop of a peer keeps the constants of the peer and its filter.\<close>

definition same_peer :: "Peer \<Rightarrow> Peer \<Rightarrow> bool" where
  "same_peer p p' \<longleftrightarrow> PeerConsts.truncate p' = PeerConsts.truncate p \<and> (p_resend p' = None \<longleftrightarrow> p_resend p = None)"

lemma net_inv_set_peer:
  "net_inv s \<Longrightarrow> r < n_next s \<Longrightarrow> peer_ok p \<Longrightarrow> same_peer (n_heap s r) p \<Longrightarrow> net_inv (set_peer r p s)"
  by (rule net_inv_heap) (simp_all add: same_peer_def)

lemma readLoop_same:
  "readLoop_step lib now buffered take_it p = Some res \<Longrightarrow>
   case res of Loop_Continue p' \<Rightarrow> same_peer p p' | Loop_Deliver p' _ \<Rightarrow> same_peer p p' | Loop_Return p' \<Rightarrow> same_peer p p'"
  by (auto simp: readLoop_step_def deliver_def same_peer_def PeerConsts.truncate_def Let_def
      split: if_splits sum.splits option.splits prod.splits)

lemma sendLoop_same:
  "case sendLoop_step lib now ns quit p of Loop_Continue p' \<Rightarrow> same_peer p p' | Loop_Deliver p' _ \<Rightarrow> same_peer p p'
     | Loop_Return p' \<Rightarrow> same_peer p p'"
  by (auto simp: sendLoop_step_def same_peer_def PeerConsts.truncate_def Let_def split: option.splits sum.splits)

lemma peer_read_inv:
  assumes "net_inv s" and "r < n_next s"
  shows "\<exists>s'. peer_read lib now buffered take_it r s = Some s' \<and> net_inv s'"
proof -
  from readLoop_ok [OF net_invD(2) [OF assms], of lib now buffered take_it] obtain res where
    res: "readLoop_step lib now buffered take_it (n_heap s r) = Some res"
    "case res of Loop_Continue p' \<Rightarrow> False | Loop_Deliver p' _ \<Rightarrow> peer_ok p' | Loop_Return p' \<Rightarrow> peer_ok p'" by blast
  note same = readLoop_same [OF res(1)]
  show ?thesis
  proof (cases res)
    case (Loop_Deliver p parcel)
    with res(2) same have "net_inv (set_peer r p s)" by (intro net_inv_set_peer assms) simp_all
    then have "net_inv ((set_peer r p s)\<lparr>c_peerData := c_peerData s @ [(Some r, parcel)]\<rparr>)"
      using assms(2) by (auto simp: net_inv_def)
    with res(1) Loop_Deliver show ?thesis by (simp add: peer_read_def)
  next
    case (Loop_Return p)
    with res(2) same have "net_inv (set_peer r p s)" by (intro net_inv_set_peer assms) simp_all
    from Peer_Stop_only [OF this, of r] assms(2) res(1) Loop_Return show ?thesis by (auto simp: peer_read_def)
  qed (use res in simp)
qed

lemma peer_send_inv:
  assumes "net_inv s" and "r < n_next s"
  shows "\<exists>s'. peer_send lib now quit r s = Some s' \<and> net_inv s'"
proof -
  note ok = sendLoop_ok [OF net_invD(2) [OF assms], of lib now "n_stopped s" quit]
    and same = sendLoop_same [of "n_heap s r" lib now "n_stopped s" quit]
  show ?thesis
  proof (cases "sendLoop_step lib now (n_stopped s) quit (n_heap s r)")
    case (Loop_Continue p)
    with ok same have "net_inv (set_peer r p s)" by (intro net_inv_set_peer assms) simp_all
    with Loop_Continue assms(1) show ?thesis by (simp add: peer_send_def)
  next
    case (Loop_Return p)
    with ok same have t: "net_inv (set_peer r p s)" by (intro net_inv_set_peer assms) simp_all
    have op: "ch_closed (p_send p) = ch_closed (p_send (n_heap s r))" using Loop_Return ok by simp
    have rt: "r < n_next (set_peer r p s)" using assms(2) by simp
    from Peer_Stop_inv [OF t rt] obtain s1 q where s1: "Peer_Stop r (set_peer r p s) = Some s1" "net_inv s1"
      "s1 = (set_peer r p s)\<lparr>n_heap := (n_heap (set_peer r p s))(r := q), c_peerStatus := c_peerStatus s1\<rparr>" by blast
    have q: "n_heap s1 r = q" "n_next s1 = n_next s" using arg_cong [OF s1(3), of n_heap] arg_cong [OF s1(3), of n_next] by simp_all
    have sq: "p_send q = p_send p" "p_stopped q"
      using s1(1) q(1) by (auto simp: Peer_Stop_def Peer_Stop_local_def Let_def split: if_splits option.splits)
    have "\<exists>q'. close_send q = Some q' \<and> peer_ok q' \<and> same_peer q q'" if "\<not> ch_closed (p_send (n_heap s r))"
      using that net_invD(2) [OF s1(2), of r] assms(2) q sq op
      by (auto simp: close_send_def Channel_Close_def peer_ok_def same_peer_def PeerConsts.truncate_def)
    with s1(1,2) q assms(1,2) Loop_Return net_inv_set_peer [OF s1(2), of r] show ?thesis
      by (cases "ch_closed (p_send (n_heap s r))") (auto simp: peer_send_def)
  qed (use ok in simp)
qed

lemma resend_tick_same: "resend_tick quit p = Some p' \<Longrightarrow> same_peer p p'"
  by (auto simp: resend_tick_def same_peer_def PeerConsts.truncate_def split: option.splits)

lemma statLoop_same: "same_peer p (statLoop_step quit p)" "peer_ok p \<Longrightarrow> peer_ok (statLoop_step quit p)"
  by (auto simp: statLoop_step_def same_peer_def peer_ok_def PeerConsts.truncate_def Let_def Collect_metrics_def)

lemma ban_inv: "net_inv s \<Longrightarrow> \<exists>s'. ban hsh now d s = Some s' \<and> net_inv s'"
  using ban_result by (cases "PeerStore_Get (c_peers s) hsh") (fastforce simp: ban_def)+

lemma run_task_inv:
  assumes "net_inv s" and "\<And>r. r \<in> task_refs t \<Longrightarrow> r < n_next s"
  shows "\<exists>s'. run_task lib clk metrics t s = Some s' \<and> net_inv s'"
proof (cases t)
  case (T_Pong r)
  with send_to_inv [OF assms(1), of r] assms(2) show ?thesis by (fastforce simp: send_pong_def)
next
  case (T_SharePeers r eps)
  with sharePeers_inv [OF assms(1), of r] assms(2) show ?thesis by fastforce
next
  case (T_Incoming con ep)
  with handshakeIncoming_inv [OF assms(1)] show ?thesis by fastforce
qed (use assms(1) ban_inv disconnect_inv setSpecial_inv in auto)

lemma net_inv_fewer_tasks: "net_inv s \<Longrightarrow> set ts \<subseteq> set (n_tasks s) \<Longrightarrow> net_inv (s\<lparr>n_tasks := ts\<rparr>)"
  by (auto simp: net_inv_def)

definition turn_ok :: "NetState turn \<Rightarrow> bool" where
  "turn_ok t = (case t of Next s \<Rightarrow> net_inv s | Waits \<Rightarrow> True | Panics \<Rightarrow> False)"

lemma turn_ok_simps [simp]: "turn_ok (Next s) = net_inv s" "turn_ok Waits" "\<not> turn_ok Panics"
  by (simp_all add: turn_ok_def)

lemma turn_ok_of: "\<exists>s'. x = Some s' \<and> net_inv s' \<Longrightarrow> turn_ok (turn_of x)"
  by auto

lemma turn_ok_snd: "\<exists>res s'. x = Some (res, s') \<and> net_inv s' \<Longrightarrow> turn_ok (turn_of (map_option snd x))"
  by auto

lemma Receive_open: "channel_open ch \<Longrightarrow> Channel_Receive ch = Some (x, ch') \<Longrightarrow>
    channel_open ch' \<and> set (ch_buf ch') \<subseteq> set (ch_buf ch) \<and> (\<exists>y. x = Some y \<and> y \<in> set (ch_buf ch))"
  by (auto simp: Channel_Receive_def channel_open_def split: list.splits if_splits)

lemma route_step_inv:
  assumes "net_inv s"
  shows "turn_ok (route_step lib s)"
proof (cases "Channel_Receive (n_toNetwork s)")
  case (Some y)
  obtain x ch where y: "y = (x, ch)" by (rule prod.exhaust)
  have to: "channel_open (n_toNetwork s)" "None \<notin> set (ch_buf (n_toNetwork s))" using assms by (simp_all add: net_inv_def)
  from Receive_open [OF to(1), of x ch] Some y to(2) obtain parcel where
    ch: "channel_open ch" "set (ch_buf ch) \<subseteq> set (ch_buf (n_toNetwork s))" "x = Some (Some parcel)"
    by (metis option.exhaust)
  then have "net_inv (s\<lparr>n_toNetwork := ch\<rparr>)" using assms to(2) by (intro net_inv_toNetwork(1)) auto
  from route_parcel_result [OF this, of lib parcel] Some y ch(3) show ?thesis by (auto simp: route_step_def)
qed (simp add: route_step_def)

lemma manageData_step_inv:
  assumes "net_inv s"
  shows "turn_ok (manageData_step now1 now2 s)"
proof (cases "c_peerData s")
  case (Cons pp pps)
  obtain peer parcel where pp: "pp = (peer, parcel)" by (rule prod.exhaust)
  have "net_inv (s\<lparr>c_peerData := pps\<rparr>)" using Cons by (intro net_inv_peerData assms) auto
  moreover have "\<And>p. peer = Some p \<Longrightarrow> p < n_next (s\<lparr>c_peerData := pps\<rparr>)" using assms Cons pp by (auto simp: net_inv_def)
  ultimately show ?thesis
    using manageData_inv [of "s\<lparr>c_peerData := pps\<rparr>" peer now1 now2 parcel] Cons pp by (simp add: manageData_step_def turn_ok_def)
qed (simp add: manageData_step_def)

lemma listen_step_inv:
  assumes "net_inv s"
  shows "net_inv (snd (snd (listen_step socket ck ll s)))"
proof -
  have "net_inv (s\<lparr>n_tasks := n_tasks s @ [T_Incoming conn ep]\<rparr>)" for conn ep
    by (rule net_inv_tasks [OF assms]) auto
  with assms show ?thesis by (auto simp: listen_step_def split: sum.splits prod.splits option.splits)
qed

lemma Network_Send_inv:
  assumes "net_inv s" and "p \<noteq> None"
  shows "\<exists>s'. Network_Send p s = Some s' \<and> net_inv s'" "turn_ok (Network_BlockingSend p s)"
proof -
  have to: "channel_open (n_toNetwork s)" "None \<notin> set (ch_buf (n_toNetwork s))" using assms by (simp_all add: net_inv_def)
  from parcel_channel.send_usable [OF to(1), of p] obtain d ch where
    ch: "ParcelChannel_Send p (n_toNetwork s) = Some (True, d, ch)" "channel_open ch"
      "ch_buf ch = drop d (ch_buf (n_toNetwork s)) @ [p]" by blast
  with to(2) assms have "net_inv (s\<lparr>n_toNetwork := ch\<rparr>)" by (intro net_inv_toNetwork(1)) (auto dest: in_set_dropD)
  with ch(1) show "\<exists>s'. Network_Send p s = Some s' \<and> net_inv s'" by (simp add: Network_Send_def)
  have "net_inv (s\<lparr>n_toNetwork := n_toNetwork s\<lparr>ch_buf := ch_buf (n_toNetwork s) @ [p]\<rparr>\<rparr>)"
    if "length (ch_buf (n_toNetwork s)) < ch_cap (n_toNetwork s)"
    using to assms that by (intro net_inv_toNetwork(1)) (auto simp: channel_open_def)
  with to(1) show "turn_ok (Network_BlockingSend p s)"
    by (auto simp: Network_BlockingSend_def try_send_def channel_open_def)
qed

lemma Network_Reader_inv: "net_inv s \<Longrightarrow> Network_Reader s = Some (x, s') \<Longrightarrow> net_inv s'"
proof -
  assume inv: "net_inv s" and r: "Network_Reader s = Some (x, s')"
  from r obtain ch where ch: "Channel_Receive (n_fromNetwork s) = Some (x, ch)" "s' = s\<lparr>n_fromNetwork := ch\<rparr>"
    by (auto simp: Network_Reader_def)
  have "channel_open (n_fromNetwork s)" using inv by (simp add: net_inv_def)
  from Receive_open [OF this ch(1)] ch(2) inv show "net_inv s'" by simp
qed

lemma GetInfo_inv: "net_inv s \<Longrightarrow> net_inv (snd (GetInfo s))" "net_inv s \<Longrightarrow> net_inv (snd (GetPeerMetrics s))"
proof -
  assume inv: "net_inv s"
  obtain rs s1 where sl: "slice_peers s = (rs, s1)" by (rule prod.exhaust)
  from slice_reshuffled(2) [OF inv sl] sl show "net_inv (snd (GetInfo s))" "net_inv (snd (GetPeerMetrics s))"
    by (simp_all add: GetInfo_def GetPeerMetrics_def makeMetrics_def Let_def)
qed

lemma net_inv_task: "net_inv s \<Longrightarrow> task_refs t = {} \<Longrightarrow> net_inv (s\<lparr>n_tasks := n_tasks s @ [t]\<rparr>)"
  by (rule net_inv_tasks) auto

text \<open>Every event keeps the invariant.\<close>

lemma event_turn_inv:
  assumes "net_inv s" and "possible ev s"
  shows "turn_ok (event_turn w ev s)"
proof (cases ev)
  case (E_Task i clk metrics)
  let ?s = "s\<lparr>n_tasks := take i (n_tasks s) @ drop (Suc i) (n_tasks s)\<rparr>"
  have i: "n_tasks s ! i \<in> set (n_tasks s)" using assms(2) E_Task by simp
  have inv: "net_inv ?s" by (rule net_inv_fewer_tasks [OF assms(1)]) (auto dest: in_set_takeD in_set_dropD)
  have "\<And>r. r \<in> task_refs (n_tasks s ! i) \<Longrightarrow> r < n_next ?s" using assms(1) i by (simp add: net_inv_def)
  from run_task_inv [OF inv this] have "turn_ok (turn_of (run_task (w_lib w) clk metrics (n_tasks s ! i) ?s))"
    by (rule turn_ok_of)
  then show ?thesis by (simp only: E_Task event_turn.simps)
next
  case E_Online
  from manageOnline_inv [OF assms(1)] show ?thesis
    by (cases "manageOnline_step s") (simp_all add: E_Online)
next
  case (E_Cycle clk hook fs)
  from turn_ok_snd [OF run_cycle_inv [OF assms(1)]] show ?thesis by (simp only: E_Cycle event_turn.simps)
next
  case (E_Dial i ep)
  from turn_ok_snd [OF Dial_inv [OF assms(1)]] show ?thesis by (simp only: E_Dial event_turn.simps)
next
  case (E_Reseed ck t)
  obtain seeds t' s' where r: "reseed w ck t s = (seeds, t', s')" by (rule prod_cases3)
  from reseed_inv [OF assms(1) r] r show ?thesis by (simp add: E_Reseed)
next
  case (E_Random cond)
  obtain x s' where r: "randomPeerConditional cond s = (x, s')" by (rule prod.exhaust)
  from randomPeerConditional_inv(2) [OF assms(1) r] r show ?thesis by (simp add: E_Random)
next
  case (E_Request now r)
  with turn_ok_of [OF request_begin_inv [OF assms(1)]] assms(2) show ?thesis by simp
next
  case (E_Response clk late r)
  with request_end_inv [OF assms(1)] show ?thesis by simp
next
  case (E_Read r now buffered take_it)
  with turn_ok_of [OF peer_read_inv [OF assms(1)]] assms(2) show ?thesis by simp
next
  case (E_PeerSend r now quit)
  with turn_ok_of [OF peer_send_inv [OF assms(1)]] assms(2) show ?thesis by simp
next
  case (E_Stat r quit)
  with assms(2) have "r < n_next s" by simp
  with statLoop_same [of "n_heap s r" quit] net_invD(2) [OF assms(1)] show ?thesis
    by (simp add: E_Stat net_inv_set_peer [OF assms(1)])
next
  case (E_Tick r quit)
  with assms(2) have r: "r < n_next s" by simp
  from resend_tick_ok [OF net_invD(2) [OF assms(1) r]] obtain p where "resend_tick quit (n_heap s r) = Some p" "peer_ok p" by blast
  with resend_tick_same net_inv_set_peer [OF assms(1) r] show ?thesis by (simp add: E_Tick)
next
  case (E_Send p)
  with turn_ok_of [OF Network_Send_inv(1) [OF assms(1)]] assms(2) show ?thesis by simp
next
  case E_Receive
  with Network_Reader_inv [OF assms(1)] show ?thesis by (auto split: option.splits)
next
  case E_Stop
  have "net_inv (s\<lparr>n_stopped := True\<rparr>)" using assms(1) by (simp add: net_inv_def)
  with assms(1) E_Stop show ?thesis by (simp add: Network_Stop_def)
next
  case (E_LateOffline r)
  with assms show ?thesis by (auto simp: net_inv_def)
qed (use assms net_inv_task [OF assms(1)] in \<open>simp_all add: route_step_inv manageData_step_inv listen_step_inv Network_Send_inv(2)
    GetInfo_inv Network_Ban_def Network_Disconnect_def Network_SetSpecial_def\<close>)

lemma happen_set: "prom_set (n_prom s) \<Longrightarrow> happen w ev s = event_turn w ev s"
  by (simp add: happen_def use_instruments_set)

lemma happen_inv:
  assumes "net_inv s" and "possible ev s"
  shows "turn_ok (happen w ev s)"
proof -
  have "prom_set (n_prom s)" using assms(1) by (simp add: net_inv_def)
  with event_turn_inv [OF assms] show ?thesis by (simp add: happen_set)
qed

text \<open>What creating a node relies on: the bans in the cache file, if there is one, are not \<open>null\<close>, and if Prometheus is
  on, no node of the process has turned it on before and the names of its instruments are free.\<close>

definition cache_not_null :: "'r Boot \<Rightarrow> Configuration \<Rightarrow> bool" where
  "cache_not_null b conf \<longleftrightarrow> (\<forall>pc. loadPeerCache (b_ju b) (b_bans_now b) (b_files b) conf = Inr (Some pc) \<longrightarrow> pc_Bans pc \<noteq> None)"

definition prom_first :: "('r \<Rightarrow> string set) \<Rightarrow> 'r Boot \<Rightarrow> Configuration \<Rightarrow> bool" where
  "prom_first known b conf \<longleftrightarrow> (cf_EnablePrometheus conf \<longrightarrow>
     takes_new_names (b_register b) known \<and> \<not> pr_once (b_process b)
     \<and> set (map snd instruments) \<inter> known (pr_registry (b_process b)) = {})"

lemma setup_prom_first:
  assumes "prom_first known b conf"
  shows "\<exists>prom. setup_prom b conf = Some prom \<and> prom_set prom"
proof (cases "cf_EnablePrometheus conf")
  case True
  with assms first_network_has_instruments [of "b_register b" known "b_process b"] obtain p proc where
    "new_prom (b_register b) (b_process b) = Some (p, proc)" "\<forall>f. use_instrument f p = Some ()"
    by (auto simp: prom_first_def)
  with True show ?thesis by (auto simp: setup_prom_def prom_set_def use_instrument_def)
qed (simp add: setup_prom_def prom_set_def)

lemma newController_fresh:
  "newController b s = Inr s' \<Longrightarrow> n_conf s' = n_conf s \<and> n_next s' = n_next s \<and> n_tasks s' = n_tasks s
    \<and> c_peerStatus s' = [] \<and> c_peerData s' = [] \<and> c_peers s' = NewPeerStore \<and> n_prom s' = n_prom s
    \<and> c_seed s' = newSeed (cf_SeedURL (n_conf s)) (cf_PeerReseedInterval (n_conf s))
    \<and> c_bans s' = (case loadPeerCache (b_ju b) (b_bans_now b) (b_files b) (n_conf s) of
        Inr (Some cache) \<Rightarrow> pc_Bans cache | _ \<Rightarrow> Some Map.empty)"
  by (auto simp: newController_def setSpecial_def Let_def split: sum.splits option.splits if_splits)

lemma NewNetwork_started:
  assumes "NewNetwork b conf = Some (Inr s)"
  obtains conf' prom rnd s1 where "Check conf = Inr ()" "cf_ChannelCapacity conf' = cf_ChannelCapacity conf"
    "cf_PeerCacheFile conf' = cf_PeerCacheFile conf" "resend_ok conf' = resend_ok conf"
    "setup_prom b conf = Some prom"
    "newController b (new_network conf' prom (snd (rng_next rnd)) (of_nat (fst (rng_next rnd)))) = Inr s1"
    "s = s1\<lparr>n_toNetwork := newParcelChannel (unat (cf_ChannelCapacity conf')),
            n_fromNetwork := newParcelChannel (unat (cf_ChannelCapacity conf'))\<rparr>"
proof -
  define conf' where "conf' = (if cf_NodeID (Sanitize conf) = 0
    then (Sanitize conf)\<lparr>cf_NodeID := StringToUint32 (b_sha256 b) (cf_NodeName (Sanitize conf))\<rparr> else Sanitize conf)"
  have c: "Check conf = Inr ()" using assms by (auto simp: NewNetwork_def split: sum.splits)
  have "cf_EnablePrometheus (Sanitize conf) = cf_EnablePrometheus conf" by (simp add: Sanitize_def Let_def)
  with assms c obtain prom rnd s1 where "setup_prom b conf = Some prom"
    "newController b (new_network conf' prom (snd (rng_next rnd)) (of_nat (fst (rng_next rnd)))) = Inr s1"
    "s = s1\<lparr>n_toNetwork := newParcelChannel (unat (cf_ChannelCapacity conf')),
            n_fromNetwork := newParcelChannel (unat (cf_ChannelCapacity conf'))\<rparr>"
    by (auto simp: NewNetwork_def Let_def bindR_Inr_iff case_prod_beta setup_prom_def conf'_def [symmetric])
  moreover have "cf_ChannelCapacity conf' = cf_ChannelCapacity conf" "cf_PeerCacheFile conf' = cf_PeerCacheFile conf"
    "resend_ok conf' = resend_ok conf" by (auto simp: conf'_def resend_ok_def Sanitize_def Let_def)
  ultimately show thesis using c that by blast
qed

lemma NewNetwork_inv:
  assumes "NewNetwork b conf = Some (Inr s)" and "resend_ok conf" and "cache_not_null b conf" and "prom_first known b conf"
  shows "net_inv s"
proof -
  from NewNetwork_started [OF assms(1)] obtain conf' prom rnd s1 where
    c: "Check conf = Inr ()" "cf_ChannelCapacity conf' = cf_ChannelCapacity conf" "cf_PeerCacheFile conf' = cf_PeerCacheFile conf"
      "resend_ok conf' = resend_ok conf" and prom: "setup_prom b conf = Some prom"
    and s1: "newController b (new_network conf' prom (snd (rng_next rnd)) (of_nat (fst (rng_next rnd)))) = Inr s1"
    and s: "s = s1\<lparr>n_toNetwork := newParcelChannel (unat (cf_ChannelCapacity conf')),
            n_fromNetwork := newParcelChannel (unat (cf_ChannelCapacity conf'))\<rparr>" by metis
  have ok: "conf_ok conf'" using c assms(2) Check_ok_iff [of conf] by (simp add: conf_ok_def)
  have "prom_set prom" using setup_prom_first [OF assms(4)] prom by auto
  moreover have "loadPeerCache (b_ju b) (b_bans_now b) (b_files b) conf' = loadPeerCache (b_ju b) (b_bans_now b) (b_files b) conf"
    using c(3) by (simp add: loadPeerCache_def)
  then have "c_bans s1 \<noteq> None"
    using newController_fresh [OF s1] assms(3) by (auto simp: cache_not_null_def new_network_def split: sum.splits option.splits)
  moreover have "0 < unat (cf_ChannelCapacity conf')" using ok by (simp add: conf_ok_def unat_gt_0)
  moreover have "peers_of NewPeerStore = []" by (simp add: peers_of_def NewPeerStore_def)
  ultimately show ?thesis using newController_fresh [OF s1] ok s store_inv_New [of "n_heap s1"]
    by (simp add: net_inv_def new_network_def newParcelChannel_def channel_open_def seed_ok_def newSeed_def)
qed

lemma node_inv:
  assumes "node w b conf L s" and "resend_ok conf" and "cache_not_null b conf" and "prom_first known b conf"
  shows "net_inv s"
  using assms(1)
proof (induction rule: node.induct)
  case (boot s)
  from NewNetwork_inv [OF boot assms(2-4)] show ?case .
next
  case (step L s ev s')
  from happen_inv [OF step.IH step.hyps(2), of w] step.hyps(4) show ?case by simp
qed

text \<open>What the rest of the node does while a loop waits is a sequence of events, and so it keeps the node in order.\<close>

primrec meanwhile :: "World \<Rightarrow> event list \<Rightarrow> NetState \<Rightarrow> NetState" where
  "meanwhile w [] s = s"
| "meanwhile w (ev # evs) s =
     meanwhile w evs (if possible ev s then (case happen w ev s of Next s' \<Rightarrow> s' | _ \<Rightarrow> s) else s)"

lemma meanwhile_ok: "env_ok (meanwhile w evs)"
  unfolding env_ok_def
proof (intro allI impI)
  fix s
  assume "net_inv s"
  then show "net_inv (meanwhile w evs s)"
  proof (induction evs arbitrary: s)
    case (Cons ev evs)
    have "net_inv (if possible ev s then (case happen w ev s of Next s' \<Rightarrow> s' | _ \<Rightarrow> s) else s)"
      using Cons.prems happen_inv [OF Cons.prems, of ev w] by (auto simp: turn_ok_def split: turn.splits)
    with Cons.IH show ?case by simp
  qed simp
qed

subsection \<open>Examples and limits\<close>

definition sample_boot :: "string set Boot" where
  "sample_boot = \<lparr>b_sha256 = (\<lambda>_. [1, 2, 3, 4]), b_source = (\<lambda>_. Some (\<lambda>_. 0)), b_Resolve = (\<lambda>_. Inr ()),
     b_ju = (\<lambda>_. None), b_files = Map.empty, b_now = (\<lambda>_. 0), b_bans_now = (\<lambda>_. 0),
     b_register = (\<lambda>name reg. if name \<in> reg then None else Some (insert name reg)),
     b_process = \<lparr>pr_once = False, pr_registry = {}\<rparr>\<rparr>"

lemma sample_boot_ok: "cache_not_null sample_boot conf" "prom_first (\<lambda>reg. reg) sample_boot conf"
proof -
  show "cache_not_null sample_boot conf"
    by (auto simp: cache_not_null_def sample_boot_def loadPeerCache_def loadPeerCache_file_def split: if_splits)
  show "prom_first (\<lambda>reg. reg) sample_boot conf" by (auto simp: prom_first_def takes_new_names_def sample_boot_def)
qed

lemma newController_starts: "b_Resolve b = (\<lambda>_. Inr ()) \<Longrightarrow> \<exists>s'. newController b s = Inr s'"
  by (simp add: newController_def NewDialer_def Dialer_Bind_def Let_def)

lemma sample_boot_starts: "\<exists>s. NewNetwork sample_boot DefaultP2PConfiguration = Some (Inr s) \<and> n_prom s \<noteq> None"
proof -
  have "cf_EnablePrometheus (Sanitize DefaultP2PConfiguration) = cf_EnablePrometheus DefaultP2PConfiguration"
    by (simp add: Sanitize_def Let_def)
  then have "setup_prom sample_boot (Sanitize DefaultP2PConfiguration) = setup_prom sample_boot DefaultP2PConfiguration"
    by (simp add: setup_prom_def)
  with setup_prom_first [OF sample_boot_ok(2), of DefaultP2PConfiguration] obtain prom where
    p: "setup_prom sample_boot (Sanitize DefaultP2PConfiguration) = Some prom" by auto
  then have on: "prom \<noteq> None" by (auto simp: setup_prom_def Sanitize_def DefaultP2PConfiguration_def Let_def)
  have "b_Resolve sample_boot = (\<lambda>_. Inr ())" and src: "newLockSource (b_source sample_boot) t = Inr (\<lambda>_. 0)" for t
    by (simp_all add: sample_boot_def newLockSource_def)
  note started = newController_starts [OF this(1)]
  have "\<exists>s'. newController sample_boot (new_network conf prom r i) = Inr s' \<and> n_prom s' = prom" for conf r i
  proof -
    from started obtain s' where s': "newController sample_boot (new_network conf prom r i) = Inr s'" by blast
    from newController_fresh [OF s'] have "n_prom s' = prom" by (simp add: new_network_def)
    with s' show ?thesis by blast
  qed
  then obtain s' where "newController sample_boot (new_network
      (if cf_NodeID (Sanitize DefaultP2PConfiguration) = 0
       then (Sanitize DefaultP2PConfiguration)\<lparr>cf_NodeID := StringToUint32 (b_sha256 sample_boot) (cf_NodeName (Sanitize DefaultP2PConfiguration))\<rparr>
       else Sanitize DefaultP2PConfiguration) prom (snd (rng_next (\<lambda>_. 0))) (of_nat (fst (rng_next (\<lambda>_. 0))))) = Inr s'"
    "n_prom s' = prom" by blast
  with on show ?thesis by (simp add: NewNetwork_def Check_default p src case_prod_beta Let_def)
qed

text \<open>Where the two assumptions fail: a node that has read a cache file with \<open>"bans": null\<close> panics when it bans an
  endpoint, or the hash of a peer, for the first time; and a node that turned Prometheus on in a process in which
  another one did so before panics in the first turn of \<open>run\<close>.\<close>

lemma null_bans_panic:
  assumes "NewNetwork b conf = Some (Inr s)"
    and "loadPeerCache (b_ju b) (b_bans_now b) (b_files b) conf = Inr (Some pc)" and "pc_Bans pc = None"
  shows "c_bans s = None \<and> banEndpoint ep now d s = None
    \<and> (PeerStore_Get (c_peers t) hsh = Some r \<and> c_bans t = c_bans s \<longrightarrow> ban hsh now d t = None)"
proof -
  from NewNetwork_started [OF assms(1)] obtain conf' prom rnd s1 where
    c: "cf_PeerCacheFile conf' = cf_PeerCacheFile conf"
    and s1: "newController b (new_network conf' prom (snd (rng_next rnd)) (of_nat (fst (rng_next rnd)))) = Inr s1"
    and s: "s = s1\<lparr>n_toNetwork := newParcelChannel (unat (cf_ChannelCapacity conf')),
            n_fromNetwork := newParcelChannel (unat (cf_ChannelCapacity conf'))\<rparr>" by metis
  have "loadPeerCache (b_ju b) (b_bans_now b) (b_files b) conf' = Inr (Some pc)"
    using assms(2) unfolding loadPeerCache_def c .
  then have "c_bans s = None" using newController_fresh [OF s1] s assms(3) by (simp add: new_network_def)
  then show ?thesis by (simp add: banEndpoint_def ban_def set_ban_def Let_def)
qed

lemma second_network_panics:
  assumes "NewNetwork b conf = Some (Inr s)" and "cf_EnablePrometheus conf" and "pr_once (b_process b)"
  shows "happen w (E_Cycle clk hook fs) s = Panics"
proof -
  from NewNetwork_started [OF assms(1)] obtain conf' prom rnd s1 where
    p: "setup_prom b conf = Some prom"
    and s1: "newController b (new_network conf' prom (snd (rng_next rnd)) (of_nat (fst (rng_next rnd)))) = Inr s1"
    and s: "s = s1\<lparr>n_toNetwork := newParcelChannel (unat (cf_ChannelCapacity conf')),
            n_fromNetwork := newParcelChannel (unat (cf_ChannelCapacity conf'))\<rparr>" by metis
  from second_network_has_none [OF assms(3), of "b_register b"] obtain q where
    "new_prom (b_register b) (b_process b) = Some (q, b_process b)" "\<forall>f. q f = None"
    by (auto simp: use_instrument_def)
  with p assms(2) newController_fresh [OF s1] s have q: "n_prom s = Some q" "q P_ByteRateDown = None"
    by (auto simp: setup_prom_def new_network_def)
  have "P_ByteRateDown \<in> set (prom_uses w (E_Cycle clk hook fs) s)" by simp
  from use_instruments_nil [OF this, of q] q show ?thesis by (simp add: happen_def)
qed

text \<open>A nil parcel that the application sends crashes the node when it is its turn to be routed.\<close>

lemma nil_parcel_panics:
  assumes "net_inv s" and "ch_buf (n_toNetwork s) = []" and "Network_Send None s = Some s'"
  shows "happen w E_Route s' = Panics"
proof -
  have "channel_open (n_toNetwork s)" using assms(1) by (simp add: net_inv_def)
  with assms(2,3) show ?thesis
    by (auto simp: happen_def Network_Send_def ParcelChannel_Send_def try_send_def channel_open_def route_step_def Channel_Receive_def
        split: option.split)
qed

text \<open>A node runs at most once and stops at most once.\<close>

lemma stop_once:
  "Network_Stop s = Inr s' \<Longrightarrow> \<not> is_ok (Network_Stop s') \<and> \<not> is_ok (Network_Run s')"
  by (auto simp: Network_Stop_def Network_Run_def is_ok_def split: if_splits)

end
