(* ===== verification/Blocking.thy ===== *)
theory Blocking
  imports Networks
begin

section \<open>Goroutines that wait for each other\<close>

text \<open>
  In the other theories a channel that is sent to by a blocking operation holds the messages whose sending has
  completed. Here is what the waiting itself can lead to. Two places are modelled statement by statement, with
  the capacities of the channels and the locks:

  \<^item> the hand-over of a peer share from \<open>manageData\<close> (\<open>controller_routing.go\<close>) to \<open>asyncPeerRequest\<close>
    (\<open>controller_cat.go\<close>), over a channel of capacity 1 and under the lock \<open>shareMtx\<close>;
  \<^item> the channel \<open>peerStatus\<close>, of capacity 10, which only \<open>manageOnline\<close> reads, and which it also sends to when
    it stops a peer (\<open>controller_connections.go\<close>, \<open>peer.go\<close>).
\<close>

subsection \<open>The hand-over of a peer share\<close>

text \<open>Where \<open>manageData\<close> is: it has nothing to do, waits for the read lock with a response of the peer, waits for
  room in the channel while it holds the lock, or is about to release the lock.\<close>

datatype data_pc = D_Idle | D_Lock Parcel | D_Send Parcel | D_Unlock

text \<open>Where \<open>asyncPeerRequest\<close> is: before it registers the channel, waiting for the response or the timeout,
  about to take the write lock of the deferred function, or done.\<close>

datatype request_pc = R_Register | R_Wait | R_Leave | R_Done

text \<open>\<open>so_in\<close> is what the peer will send in response, \<open>so_buf\<close> the buffer of the channel.\<close>

record share_state =
  so_data :: data_pc
  so_req :: request_pc
  so_in :: "Parcel list"
  so_buf :: "Parcel list"
  so_listening :: bool

text \<open>The lock: \<open>manageData\<close> holds it for reading in the two states after it took it. The write lock is held for
  one map operation only, so taking it, the operation and releasing it are one step. A goroutine that waits for
  the write lock keeps new readers out; that only restricts when \<open>data_lock\<close> may happen after \<open>Lock\<close> was called,
  and before the call the two may happen in any order.\<close>

definition read_locked :: "share_state \<Rightarrow> bool" where
  "read_locked s \<longleftrightarrow> (case so_data s of D_Idle \<Rightarrow> False | D_Lock _ \<Rightarrow> False | D_Send _ \<Rightarrow> True | D_Unlock \<Rightarrow> True)"

inductive share_step :: "share_state \<Rightarrow> share_state \<Rightarrow> bool" where
  data_receive: "so_data s = D_Idle \<Longrightarrow> so_in s = p # ps \<Longrightarrow> share_step s (s\<lparr>so_data := D_Lock p, so_in := ps\<rparr>)"
| data_lock: "so_data s = D_Lock p \<Longrightarrow> share_step s (s\<lparr>so_data := if so_listening s then D_Send p else D_Unlock\<rparr>)"
| data_send: "so_data s = D_Send p \<Longrightarrow> length (so_buf s) < 1 \<Longrightarrow>
    share_step s (s\<lparr>so_data := D_Unlock, so_buf := so_buf s @ [p]\<rparr>)"
| data_unlock: "so_data s = D_Unlock \<Longrightarrow> share_step s (s\<lparr>so_data := D_Idle\<rparr>)"
| req_register: "so_req s = R_Register \<Longrightarrow> \<not> read_locked s \<Longrightarrow>
    share_step s (s\<lparr>so_req := R_Wait, so_listening := True, so_buf := []\<rparr>)"
| req_response: "so_req s = R_Wait \<Longrightarrow> so_buf s = p # ps \<Longrightarrow> share_step s (s\<lparr>so_req := R_Leave, so_buf := ps\<rparr>)"
| req_timeout: "so_req s = R_Wait \<Longrightarrow> share_step s (s\<lparr>so_req := R_Leave\<rparr>)"
| req_delete: "so_req s = R_Leave \<Longrightarrow> \<not> read_locked s \<Longrightarrow> share_step s (s\<lparr>so_req := R_Done, so_listening := False\<rparr>)"

inductive_cases share_stepE: "share_step s t"

text \<open>The start of a request, and its end: the request is over and all responses have been dealt with.\<close>

definition share_start :: "Parcel list \<Rightarrow> share_state" where
  "share_start ps = \<lparr>so_data = D_Idle, so_req = R_Register, so_in = ps, so_buf = [], so_listening = False\<rparr>"

definition share_over :: "share_state \<Rightarrow> bool" where
  "share_over s \<longleftrightarrow> so_req s = R_Done \<and> so_data s = D_Idle \<and> so_in s = []"

definition stuck :: "share_state \<Rightarrow> bool" where
  "stuck s \<longleftrightarrow> \<not> share_over s \<and> (\<nexists>t. share_step s t)"

text \<open>Responses that have not reached the other side, or are still in the channel.\<close>

definition pending :: "share_state \<Rightarrow> nat" where
  "pending s = length (so_in s) + length (so_buf s)
     + (case so_data s of D_Lock _ \<Rightarrow> 1 | D_Send _ \<Rightarrow> 1 | D_Idle \<Rightarrow> 0 | D_Unlock \<Rightarrow> 0)"

lemma pending_step: "share_step s t \<Longrightarrow> pending t \<le> pending s"
  by (induction rule: share_step.induct) (auto simp: pending_def split: data_pc.splits)

lemma pending_steps: "share_step\<^sup>*\<^sup>* s t \<Longrightarrow> pending t \<le> pending s"
  by (induction rule: rtranclp_induct) (auto dest: pending_step)

lemma progress:
  assumes "pending s \<le> 1" and "\<not> share_over s"
  shows "\<exists>t. share_step s t"
proof (cases "so_data s")
  case D_Idle
  show ?thesis
  proof (cases "so_in s")
    case Nil
    have "\<not> read_locked s" using D_Idle by (simp add: read_locked_def)
    with D_Idle Nil assms(2) show ?thesis
      by (cases "so_req s") (auto simp: share_over_def intro!: exI
          intro: share_step.req_register share_step.req_timeout share_step.req_delete)
  qed (use D_Idle share_step.data_receive in blast)
next
  case (D_Send p)
  with assms(1) have "length (so_buf s) < 1" by (simp add: pending_def)
  with D_Send show ?thesis by (blast intro: share_step.data_send)
qed (blast intro: share_step.data_lock share_step.data_unlock)+

lemma stuck_state: "so_data s = D_Send p \<Longrightarrow> so_req s = R_Leave \<Longrightarrow> so_buf s \<noteq> [] \<Longrightarrow> stuck s"
  by (auto simp: stuck_def share_over_def read_locked_def elim!: share_stepE)

text \<open>Each step makes the rest of the run shorter, so that there is no endless run.\<close>

definition work :: "share_state \<Rightarrow> nat" where
  "work s = 4 * length (so_in s) + (case so_data s of D_Lock _ \<Rightarrow> 3 | D_Send _ \<Rightarrow> 2 | D_Unlock \<Rightarrow> 1 | D_Idle \<Rightarrow> 0)
     + (case so_req s of R_Register \<Rightarrow> 3 | R_Wait \<Rightarrow> 2 | R_Leave \<Rightarrow> 1 | R_Done \<Rightarrow> 0)"

lemma work_step: "share_step s t \<Longrightarrow> work t < work s"
  by (induction rule: share_step.induct) (auto simp: work_def)

lemma share_step_wf: "wfp (\<lambda>t s. share_step s t)"
  by (rule wfp_if_convertible_to_nat [of _ work]) (rule work_step)

text \<open>C17: asking a peer for peers ends if the peer answers at most once: whatever the interleaving of the two
  goroutines, every run is finite and can only end with the request finished and the response dealt with.\<close>

theorem single_response_completes:
  assumes "length ps \<le> 1" and "share_step\<^sup>*\<^sup>* (share_start ps) s"
  shows "wfp (\<lambda>t s. share_step s t) \<and> ((\<exists>t. share_step s t) \<or> share_over s) \<and> (\<exists>t. share_step\<^sup>*\<^sup>* s t \<and> share_over t)"
proof -
  have p: "pending t \<le> 1" if "share_step\<^sup>*\<^sup>* (share_start ps) t" for t
    using pending_steps [OF that] assms(1) by (simp add: share_start_def pending_def)
  have "\<exists>t. share_step\<^sup>*\<^sup>* s t \<and> share_over t"
    using assms(2)
  proof (induction "work s" arbitrary: s rule: less_induct)
    case less
    show ?case
    proof (cases "share_over s")
      case False
      from progress [OF p [OF less.prems] False] obtain t where t: "share_step s t" by blast
      from less.prems t have "share_step\<^sup>*\<^sup>* (share_start ps) t" by simp
      from less.hyps [OF work_step [OF t] this] obtain u where "share_step\<^sup>*\<^sup>* t u" "share_over u" by blast
      with t show ?thesis by (meson converse_rtranclp_into_rtranclp)
    qed blast
  qed
  with progress [OF p [OF assms(2)]] share_step_wf show ?thesis by blast
qed

theorem single_response_completes_witness:
  "\<exists>t. share_step\<^sup>*\<^sup>* (share_start [newParcel TypePeerResponse [1]]) t \<and> share_over t"
  using single_response_completes [of "[newParcel TypePeerResponse [1]]" "share_start [newParcel TypePeerResponse [1]]"] by simp

text \<open>C39: a peer that answers a request three times can stop the node for good: \<open>manageData\<close> then waits for room in
  the channel of a request that has been answered, and holds the lock that the request needs to be over. Neither
  goroutine ever takes another step, so that no more data is taken from any peer, and no new peers are looked
  for.\<close>

theorem responses_deadlock:
  "\<exists>s. share_step\<^sup>*\<^sup>* (share_start (p1 # p2 # p3 # ps)) s \<and> stuck s \<and> so_in s = ps \<and> so_data s = D_Send p3 \<and> so_req s = R_Leave"
proof -
  define st where "st d r i b = \<lparr>so_data = d, so_req = r, so_in = i, so_buf = b, so_listening = True\<rparr>" for d r i b
  note upd = st_def share_start_def read_locked_def
  note step = converse_rtranclp_into_rtranclp [of share_step]
  have register: "share_step (share_start (p1 # p2 # p3 # ps)) (st D_Idle R_Wait (p1 # p2 # p3 # ps) [])"
    using share_step.req_register [of "share_start (p1 # p2 # p3 # ps)"] by (simp add: upd)
  have take: "share_step (st D_Idle r (p # i) b) (st (D_Lock p) r i b)" for r p i b
    using share_step.data_receive [of "st D_Idle r (p # i) b"] by (simp add: upd)
  have found: "share_step (st (D_Lock p) r i b) (st (D_Send p) r i b)" for r p i b
    using share_step.data_lock [of "st (D_Lock p) r i b"] by (simp add: upd)
  have put: "share_step (st (D_Send p) r i []) (st D_Unlock r i [p])" for r p i
    using share_step.data_send [of "st (D_Send p) r i []"] by (simp add: upd)
  have unlock: "share_step (st D_Unlock r i b) (st D_Idle r i b)" for r i b
    using share_step.data_unlock [of "st D_Unlock r i b"] by (simp add: upd)
  note lock = step [OF take r_into_rtranclp [of share_step, OF found]]
    and send = step [OF put r_into_rtranclp [of share_step, OF unlock]]
  note deliver = rtranclp_trans [OF lock send]
  have response: "share_step (st D_Idle R_Wait (p2 # p3 # ps) [p1]) (st D_Idle R_Leave (p2 # p3 # ps) [])"
    using share_step.req_response [of "st D_Idle R_Wait (p2 # p3 # ps) [p1]"] by (simp add: upd)
  have "share_step\<^sup>*\<^sup>* (share_start (p1 # p2 # p3 # ps)) (st (D_Send p3) R_Leave ps [p2])"
    by (rule step [OF register], rule rtranclp_trans [OF deliver], rule step [OF response],
        rule rtranclp_trans [OF deliver], rule lock)
  moreover have "stuck (st (D_Send p3) R_Leave ps [p2])" by (rule stuck_state) (simp_all add: st_def)
  ultimately show ?thesis by (intro exI [of _ "st (D_Send p3) R_Leave ps [p2]"]) (simp add: st_def)
qed

subsection \<open>The channel of peers going online and offline\<close>

text \<open>\<open>manageOnline\<close> waits for a message, or, in the middle of a message that the peer \<open>new\<close> is online, stops the
  peer \<open>old\<close> that it replaces and waits for room for the message about that.\<close>

datatype online_pc = O_Idle | O_Stopping peer_ref peer_ref

text \<open>\<open>st_wait\<close>: the messages of the goroutines that want to send one, each of which waits for room.\<close>

record status_state =
  st_pc :: online_pc
  st_buf :: "(peer_ref \<times> bool) list"
  st_wait :: "(peer_ref \<times> bool) list"
  st_peers :: "string \<Rightarrow> peer_ref option"
  st_stopped :: "peer_ref set"

definition status_cap :: nat where "status_cap = 10"

text \<open>The function \<open>h\<close> gives the hash of a peer. The steps of a network that is not being stopped.\<close>

inductive status_step :: "(peer_ref \<Rightarrow> string) \<Rightarrow> status_state \<Rightarrow> status_state \<Rightarrow> bool" for h :: "peer_ref \<Rightarrow> string" where
  send: "st_wait s = ms @ m # ms' \<Longrightarrow> length (st_buf s) < status_cap \<Longrightarrow>
    status_step h s (s\<lparr>st_wait := ms @ ms', st_buf := st_buf s @ [m]\<rparr>)"
| offline: "st_pc s = O_Idle \<Longrightarrow> st_buf s = (p, False) # ms \<Longrightarrow>
    status_step h s (s\<lparr>st_buf := ms,
      st_peers := if st_peers s (h p) = Some p then (st_peers s)(h p := None) else st_peers s\<rparr>)"
| online: "st_pc s = O_Idle \<Longrightarrow> st_buf s = (p, True) # ms \<Longrightarrow>
    (\<And>old. st_peers s (h p) = Some old \<Longrightarrow> old \<in> st_stopped s) \<Longrightarrow>
    status_step h s (s\<lparr>st_buf := ms, st_peers := (st_peers s)(h p \<mapsto> p)\<rparr>)"
| replace: "st_pc s = O_Idle \<Longrightarrow> st_buf s = (p, True) # ms \<Longrightarrow> st_peers s (h p) = Some old \<Longrightarrow> old \<notin> st_stopped s \<Longrightarrow>
    status_step h s (s\<lparr>st_buf := ms, st_pc := O_Stopping p old, st_stopped := insert old (st_stopped s)\<rparr>)"
| stopped: "st_pc s = O_Stopping p old \<Longrightarrow> length (st_buf s) < status_cap \<Longrightarrow>
    status_step h s (s\<lparr>st_pc := O_Idle, st_buf := st_buf s @ [(old, False)], st_peers := (st_peers s)(h p \<mapsto> p)\<rparr>)"

inductive_cases status_stepE: "status_step h s t"

text \<open>Messages that are in the channel or on their way to it.\<close>

definition messages :: "status_state \<Rightarrow> nat" where
  "messages s = length (st_buf s) + length (st_wait s) + (case st_pc s of O_Idle \<Rightarrow> 0 | O_Stopping _ _ \<Rightarrow> 1)"

lemma messages_step: "status_step h s t \<Longrightarrow> messages t \<le> messages s"
  by (induction rule: status_step.induct) (auto simp: messages_def split: online_pc.splits)

lemma messages_steps: "(status_step h)\<^sup>*\<^sup>* s t \<Longrightarrow> messages t \<le> messages s"
  by (induction rule: rtranclp_induct) (auto dest: messages_step)

text \<open>As long as there are no more messages than the channel has room for, nobody waits for ever.\<close>

lemma status_progress:
  assumes "messages s \<le> status_cap" and "messages s \<noteq> 0"
  shows "\<exists>t. status_step h s t"
proof (cases "st_pc s")
  case (O_Stopping p old)
  with assms(1) have "length (st_buf s) < status_cap" by (simp add: messages_def)
  with O_Stopping show ?thesis by (blast intro: status_step.stopped)
next
  case O_Idle
  show ?thesis
  proof (cases "st_buf s")
    case Nil
    with O_Idle assms(2) obtain m ms where "st_wait s = [] @ m # ms" by (cases "st_wait s") (auto simp: messages_def)
    moreover have "length (st_buf s) < status_cap" using Nil by (simp add: status_cap_def)
    ultimately show ?thesis by (blast intro: status_step.send)
  next
    case (Cons m ms)
    obtain p b where "m = (p, b)" by (rule prod.exhaust)
    note m = Cons [unfolded this]
    show ?thesis
    proof (cases b)
      case False
      from status_step.offline [OF O_Idle, of p ms h] m False show ?thesis by auto
    next
      case True
      show ?thesis
      proof (cases "\<exists>old. st_peers s (h p) = Some old \<and> old \<notin> st_stopped s")
        case replaced: True
        then obtain old where "st_peers s (h p) = Some old" "old \<notin> st_stopped s" by blast
        with status_step.replace [OF O_Idle, of p ms h old] m True show ?thesis by auto
      next
        case False
        with status_step.online [OF O_Idle, of p ms h] m True show ?thesis by auto
      qed
    qed
  qed
qed

lemma status_send_all:
  assumes "length (st_buf s) + length ms \<le> status_cap" and "st_wait s = ms @ ms'"
  shows "(status_step h)\<^sup>*\<^sup>* s (s\<lparr>st_wait := ms', st_buf := st_buf s @ ms\<rparr>)"
  using assms
proof (induction ms arbitrary: s)
  case (Cons m ms)
  let ?t = "s\<lparr>st_wait := ms @ ms', st_buf := st_buf s @ [m]\<rparr>"
  have "status_step h s ?t"
    using status_step.send [of s "[]" m "ms @ ms'" h] Cons.prems by simp
  moreover have "(status_step h)\<^sup>*\<^sup>* ?t (?t\<lparr>st_wait := ms', st_buf := st_buf ?t @ ms\<rparr>)"
    by (rule Cons.IH) (use Cons.prems in simp_all)
  ultimately show ?case by (simp add: converse_rtranclp_into_rtranclp)
next
  case Nil
  then have "ms' = st_wait s" by simp
  then show ?case by simp
qed

text \<open>C40: eleven messages about peers can stop the node for good, and fewer cannot. If a peer that comes online
  replaces a connected one while ten more peers come online or go offline, \<open>manageOnline\<close> waits for room in the
  channel that only it empties; from then on the list of peers does not change any more. With at most ten
  messages at a time somebody can always go on.\<close>

theorem status_deadlock:
  assumes "st_pc s = O_Idle" and "st_buf s = []" and "st_wait s = (new, True) # ms @ ms'" and "length ms = status_cap"
    and "st_peers s (h new) = Some old" and "old \<notin> st_stopped s"
  shows "(\<exists>t. (status_step h)\<^sup>*\<^sup>* s t \<and> st_pc t = O_Stopping new old \<and> (\<nexists>u. status_step h t u))
    \<and> (\<forall>r t. messages r \<le> status_cap \<and> (status_step h)\<^sup>*\<^sup>* r t \<longrightarrow> messages t = 0 \<or> (\<exists>u. status_step h t u))"
proof (intro conjI allI impI)
  let ?s1 = "s\<lparr>st_wait := ms @ ms', st_buf := [(new, True)]\<rparr>"
  let ?s2 = "?s1\<lparr>st_buf := [], st_pc := O_Stopping new old, st_stopped := insert old (st_stopped s)\<rparr>"
  let ?s3 = "?s2\<lparr>st_wait := ms', st_buf := ms\<rparr>"
  have "status_step h s ?s1"
    using status_step.send [of s "[]" "(new, True)" "ms @ ms'" h] assms(2,3) by (simp add: status_cap_def)
  moreover have "status_step h ?s1 ?s2"
    using status_step.replace [of ?s1 new "[]" h old] assms(1,5,6) by simp
  moreover have "(status_step h)\<^sup>*\<^sup>* ?s2 ?s3" using status_send_all [of ?s2 ms ms' h] assms(4) by simp
  ultimately have "(status_step h)\<^sup>*\<^sup>* s ?s3" by (meson converse_rtranclp_into_rtranclp)
  moreover have "\<nexists>u. status_step h ?s3 u" using assms(4) by (auto elim!: status_stepE)
  ultimately show "\<exists>t. (status_step h)\<^sup>*\<^sup>* s t \<and> st_pc t = O_Stopping new old \<and> (\<nexists>u. status_step h t u)"
    by (intro exI [of _ ?s3]) simp
next
  fix r t
  assume "messages r \<le> status_cap \<and> (status_step h)\<^sup>*\<^sup>* r t"
  then have "messages t \<le> status_cap" using messages_steps by (blast intro: order_trans)
  then show "messages t = 0 \<or> (\<exists>u. status_step h t u)" using status_progress by blast
qed

theorem status_deadlock_witness:
  "\<exists>t. (status_step (\<lambda>_. ''a''))\<^sup>*\<^sup>* \<lparr>st_pc = O_Idle, st_buf = [], st_wait = (1, True) # replicate 10 (2, False),
      st_peers = [''a'' \<mapsto> 0], st_stopped = {}\<rparr> t \<and> (\<nexists>u. status_step (\<lambda>_. ''a'') t u)"
  using status_deadlock [of "\<lparr>st_pc = O_Idle, st_buf = [], st_wait = (1, True) # replicate 10 (2, False),
      st_peers = [''a'' \<mapsto> 0], st_stopped = {}\<rparr>" 1 "replicate 10 (2, False)" "[]" "\<lambda>_. ''a''" 0]
  by (auto simp: status_cap_def)

end
