(* ===== verification/Debugging.thy ===== *)
theory Debugging
  imports Networks "HOL-Library.Char_ord" "HOL-Library.List_Lexorder"
begin

section \<open>The debug output\<close>

text \<open>
  \<open>debug.go\<close>: the table of the peers and the bans (\<open>DebugMessage\<close>), the graph of the connections (\<open>DebugHalfviz\<close>)
  and the two pages of the debug server. Printing a time depends on the time zone, and is an argument
  (\<open>fmt_time\<close>, \<open>show_time\<close>), as is the order in which the map of bans is visited. The loop of the web server, which
  answers a request with the page for its path, is not modelled.
\<close>

subsection \<open>Printing\<close>

definition newline :: string where "newline = [CHR 0x0A]"
definition tabstop :: string where "tabstop = [CHR 0x09]"

definition show_bool :: "bool \<Rightarrow> string" where
  "show_bool b = (if b then ''true'' else ''false'')"

text \<open>\<open>%.2f\<close> of a number that is not negative.\<close>

definition show_fixed2 :: "float64 \<Rightarrow> string" where
  "show_fixed2 x =
     (let n = nat (round_even (100 * x)); r = n mod 100
      in show_dec (n div 100) @ ''.'' @ show_dec (r div 10) @ show_dec (r mod 10))"

text \<open>What \<open>tabwriter\<close> makes of lines that all have the same number of cells, each of them ended by a tab, with
  padding 3: every column is as wide as its widest cell, and three more.\<close>

definition column_width :: "string list list \<Rightarrow> nat \<Rightarrow> nat" where
  "column_width rows j = Max (set (map (\<lambda>row. length (row ! j)) rows)) + 3"

definition pad_cell :: "nat \<Rightarrow> string \<Rightarrow> string" where
  "pad_cell w c = c @ replicate (w - length c) CHR '' ''"

definition tab_line :: "string list list \<Rightarrow> string list \<Rightarrow> string" where
  "tab_line rows row = concat (map (\<lambda>j. pad_cell (column_width rows j) (row ! j)) [0..<length row])"

definition tabulate_rows :: "string list list \<Rightarrow> string" where
  "tabulate_rows rows = concat (map (\<lambda>row. tab_line rows row @ newline) rows)"

subsection \<open>The graph\<close>

definition hex_val :: "char \<Rightarrow> nat option" where
  "hex_val c =
     (let n = of_char c :: nat
      in if 48 \<le> n \<and> n \<le> 57 then Some (n - 48)
         else if 97 \<le> n \<and> n \<le> 102 then Some (n - 87)
         else if 65 \<le> n \<and> n \<le> 70 then Some (n - 55)
         else None)"

text \<open>\<open>hex.DecodeString\<close>: an even number of digits.\<close>

fun DecodeString :: "string \<Rightarrow> bytes option" where
  "DecodeString [] = Some []"
| "DecodeString [c] = None"
| "DecodeString (c # d # cs) =
     (case (hex_val c, hex_val d, DecodeString cs) of
        (Some a, Some b, Some bs) \<Rightarrow> Some (of_nat (16 * a + b) # bs)
      | _ \<Rightarrow> None)"

definition LittleEndian_Uint32 :: "bytes \<Rightarrow> 32 word" where
  "LittleEndian_Uint32 bs = foldr (\<lambda>b acc. push_bit 8 acc OR ucast b) (take 4 bs) 0"

definition idFromHash :: "string \<Rightarrow> int" where
  "idFromHash s =
     (let bits = Split CHR '' '' s
      in if length bits \<noteq> 2 \<or> length (bits ! 1) \<noteq> 8 then - 1
         else case DecodeString (bits ! 1) of
           None \<Rightarrow> - 2
         | Some dec \<Rightarrow> uint (LittleEndian_Uint32 dec))"

text \<open>The part of a line that colours the edges of the first three nodes.\<close>

definition halfviz_edge :: "32 word \<Rightarrow> int \<Rightarrow> string" where
  "halfviz_edge nodeID nid =
     (if nodeID < 4 \<or> nid < 4
      then let m = (if (word_of_int nid :: 32 word) < nodeID then word_of_int nid else nodeID)
           in if m \<noteq> 0 then '' {color:'' @ [''red'', ''green'', ''blue''] ! (unat m - 1) @ '', weight=3}'' else []
      else [])"

definition show_int :: "int \<Rightarrow> string" where
  "show_int n = (if n < 0 then ''-'' @ show_dec (nat (- n)) else show_dec (nat n))"

primrec halfviz_loop :: "NetState \<Rightarrow> peer_ref list \<Rightarrow> string \<Rightarrow> string" where
  "halfviz_loop s [] halfviz = halfviz"
| "halfviz_loop s (p # ps) halfviz =
     (let nid = idFromHash (pk_Hash (n_heap s p));
          edge = halfviz_edge (cf_NodeID (n_conf s)) nid;
          here = cf_BindIP (n_conf s) @ '':'' @ cf_ListenPort (n_conf s);
          there = Endpoint_String (ep_of s p)
      in if nid < 0
         then ''[halfviz] unable to get id from '' @ pk_Hash (n_heap s p) @ '' (code '' @ show_int nid @ '')''
         else halfviz_loop s ps
           (halfviz @ (if pk_IsIncoming (n_heap s p) then there @ '' -> '' @ here else here @ '' -> '' @ there) @ edge @ newline))"

definition DebugHalfviz :: "NetState \<Rightarrow> string \<times> NetState" where
  "DebugHalfviz s = (let (peers, s) = slice_peers s in (halfviz_loop s peers [], s))"

subsection \<open>The table\<close>

text \<open>The sums at the end of the table: messages down and up, bytes down and up, and dropped parcels.\<close>

definition debug_sums :: "PeerMetrics list \<Rightarrow> 64 word list" where
  "debug_sums ms =
     foldl (\<lambda>acc m.
         [acc ! 0 + uint64_of (pm_MPSDown m), acc ! 1 + uint64_of (pm_MPSUp m), acc ! 2 + uint64_of (pm_BPSUp m),
          acc ! 3 + uint64_of (pm_BPSUp m), acc ! 4 + pm_Dropped m, acc ! 5])
       (replicate 6 0) ms"

definition debug_bps :: "64 word \<Rightarrow> string" where
  "debug_bps b =
     (if b > 1024 then show_fixed2 (f64_div (float64_of (unat b)) (float64_of 1024)) @ '' KiB/s''
      else show_dec (unat b) @ '' B/s'')"

definition debug_row :: "NetState \<Rightarrow> peer_ref \<Rightarrow> string list" where
  "debug_row s p =
     (let m = peer_metrics s p
      in [pk_Hash (n_heap s p), show_fixed2 (pm_MPSDown m), show_fixed2 (pm_MPSUp m), show_fixed2 (pm_BPSDown m),
          show_fixed2 (pm_BPSUp m), show_fixed2 (pm_SendFillRatio m), show_dec (unat (pm_Dropped m)),
          Prot_String (p_prot (n_heap s p)), if pk_IsIncoming (n_heap s p) then ''Incoming'' else ''Outgoing''])"

definition debug_rule :: "string list" where
  "debug_rule = [''----'', ''--------'', ''------'', ''--------'', ''------'', ''-----'', ''-------'', ''----'', ''----'']"

definition debug_table :: "NetState \<Rightarrow> peer_ref list \<Rightarrow> string list list" where
  "debug_table s ps =
     (let total = debug_sums (map (peer_metrics s) ps)
      in [''Hash'', ''MPS Down'', ''MPS Up'', ''Bps Down'', ''Bps up'', ''Ratio'', ''Dropped'', ''Prot'', ''Type'']
         # debug_rule
         # map (debug_row s) ps
         @ [debug_rule,
            [''Sum'', show_dec (unat (total ! 0)), show_dec (unat (total ! 1)), debug_bps (total ! 2), debug_bps (total ! 3), '' '',
             show_dec (unat (total ! 4)), [], []]])"

definition bans_table :: "(time \<Rightarrow> string) \<Rightarrow> string list \<Rightarrow> NetState \<Rightarrow> string list list" where
  "bans_table fmt_time ips s =
     [''Address'', ''Expires''] # [''-------'', ''-------''] # map (\<lambda>ip. [ip, fmt_time (the (bans_of s ip))]) ips"

text \<open>The peers are sorted by their hashes, of which no two are equal. \<open>ips\<close> are the keys of the map of bans, in some
  order.\<close>

definition debug_head :: "Configuration \<Rightarrow> nat \<Rightarrow> string" where
  "debug_head conf n =
     newline @ ''ONLINE: ('' @ show_dec n @ ''/'' @ show_dec (unat (cf_TargetPeers conf)) @ ''/''
     @ show_dec (unat (cf_MaxPeers conf)) @ '')'' @ newline"

definition DebugMessage :: "(time \<Rightarrow> string) \<Rightarrow> string list \<Rightarrow> NetState \<Rightarrow> (string \<times> nat) \<times> NetState" where
  "DebugMessage fmt_time ips s =
     (let (peers, s) = slice_peers s;
          ps = sort_key (\<lambda>p. pk_Hash (n_heap s p)) peers
      in ((debug_head (n_conf s) (length ps) @ tabulate_rows (debug_table s ps)
             @ newline @ ''BANS:'' @ newline @ tabulate_rows (bans_table fmt_time ips s),
           length ps), s))"

subsection \<open>The debug server\<close>

definition show_fill :: "'a list \<Rightarrow> nat \<Rightarrow> string" where
  "show_fill buf cap = show_dec (length buf) @ '' / '' @ show_dec cap"

definition stats_line :: "string \<Rightarrow> string \<Rightarrow> string" where
  "stats_line name val = tabstop @ tabstop @ name @ '': '' @ val @ newline"

definition stats_peer :: "(time \<Rightarrow> string) \<Rightarrow> NetState \<Rightarrow> peer_ref \<Rightarrow> string" where
  "stats_peer show_time s p =
     (let m = peer_metrics s p; d = (\<lambda>w :: 64 word. show_dec (unat w))
      in tabstop @ Endpoint_String (ep_of s p) @ newline
         @ stats_line ''send'' (show_fill (ch_buf (p_send (n_heap s p))) (ch_cap (p_send (n_heap s p))))
         @ stats_line ''BytesReceived'' (d (pm_BytesReceived m))
         @ stats_line ''BytesSent'' (d (pm_BytesSent m))
         @ stats_line ''MessagesSent'' (d (pm_MessagesSent m))
         @ stats_line ''MessagesReceived'' (d (pm_MessagesReceived m))
         @ stats_line ''MomentConnected'' (show_time (pm_MomentConnected m))
         @ stats_line ''PeerQuality'' (show_int (pm_PeerQuality m))
         @ stats_line ''Incoming'' (show_bool (pm_Incoming m))
         @ stats_line ''LastReceive'' (show_time (pm_LastReceive m))
         @ stats_line ''LastSend'' (show_time (pm_LastSend m))
         @ stats_line ''MPS Down'' (show_fixed2 (pm_MPSDown m))
         @ stats_line ''MPS Up'' (show_fixed2 (pm_MPSUp m))
         @ stats_line ''BPS Down'' (show_fixed2 (pm_BPSDown m))
         @ stats_line ''BPS Up'' (show_fixed2 (pm_BPSUp m))
         @ stats_line ''Capacity'' (show_fixed2 (pm_SendFillRatio m))
         @ stats_line ''Dropped (send)'' (d (pm_Dropped m)))"

text \<open>The peers are sorted by the time since when they are connected; peers with the same time may come in any order.\<close>

definition stats_page :: "(time \<Rightarrow> string) \<Rightarrow> NetState \<Rightarrow> string \<times> NetState" where
  "stats_page show_time s =
     (let (peers, s') = slice_peers s;
          ps = sort_key (\<lambda>p. p_connected (n_heap s' p)) peers
      in (''Channels'' @ newline
          @ tabstop @ ''ToNetwork: '' @ show_fill (ch_buf (n_toNetwork s)) (ch_cap (n_toNetwork s)) @ newline
          @ tabstop @ ''FromNetwork: '' @ show_fill (ch_buf (n_fromNetwork s)) (ch_cap (n_fromNetwork s)) @ newline
          @ tabstop @ ''peerData: '' @ show_fill (c_peerData s) (unat (cf_ChannelCapacity (n_conf s))) @ newline
          @ newline @ ''Peers ('' @ show_dec (PeerStore_Total (c_peers s)) @ '')'' @ newline
          @ concat (map (stats_peer show_time s') ps), s'))"

text \<open>The page for a path.\<close>

definition DebugServer :: "(time \<Rightarrow> string) \<Rightarrow> (time \<Rightarrow> string) \<Rightarrow> string list \<Rightarrow> string \<Rightarrow> NetState \<Rightarrow> string option \<times> NetState" where
  "DebugServer fmt_time show_time ips path s =
     (if path = ''/debug'' then let ((a, _), s) = DebugMessage fmt_time ips s in (Some a, s)
      else if path = ''/stats'' then let (out, s) = stats_page show_time s in (Some out, s)
      else (None, s))"

subsection \<open>Facts\<close>

text \<open>No line is out of range in the table of colours.\<close>

lemma halfviz_color_in_range:
  assumes "0 \<le> nid" and "nid < 2 ^ 32" and "nodeID < 4 \<or> nid < 4"
  shows "unat (if (word_of_int nid :: 32 word) < nodeID then word_of_int nid else nodeID) < 4"
proof -
  have "uint (word_of_int nid :: 32 word) = nid" using assms(1,2) by (simp add: uint_word_of_int)
  then have "unat (word_of_int nid :: 32 word) = nat nid" by (simp add: unat_eq_nat_uint)
  moreover have "nodeID < 4 \<longleftrightarrow> unat nodeID < 4" by (simp add: word_less_nat_alt)
  ultimately show ?thesis using assms by (auto simp: word_less_nat_alt)
qed

text \<open>The id is read back with the bytes in the wrong order: the peer with the id 1 counts as 16777216.\<close>

lemma halfviz_id_swapped: "idFromHash (''1.2.3.4:8108 '' @ show_hex8 1) = 16777216"
proof -
  have "show_hex8 1 = ''00000001''" by code_simp
  moreover have "idFromHash ''1.2.3.4:8108 00000001'' = 16777216" by code_simp
  ultimately show ?thesis by simp
qed

text \<open>The columns of a table are aligned: all its lines have the same length.\<close>

lemma column_width_ge: "row \<in> set rows \<Longrightarrow> length (row ! j) + 3 \<le> column_width rows j"
  by (simp add: column_width_def)

lemma length_tab_line:
  assumes "row \<in> set rows"
  shows "length (tab_line rows row) = (\<Sum>j \<leftarrow> [0..<length row]. column_width rows j)"
proof -
  have "length (pad_cell (column_width rows j) (row ! j)) = column_width rows j" for j
    using column_width_ge [OF assms, of j] by (simp add: pad_cell_def)
  then show ?thesis by (simp add: tab_line_def length_concat comp_def)
qed

lemma debug_table_aligned:
  assumes "row \<in> set (debug_table s ps)" and "row' \<in> set (debug_table s ps)"
  shows "length (tab_line (debug_table s ps) row) = length (tab_line (debug_table s ps) row')"
proof -
  have "length r = 9" if "r \<in> set (debug_table s ps)" for r
    using that by (auto simp: debug_table_def debug_rule_def debug_row_def Let_def)
  with assms show ?thesis by (simp add: length_tab_line)
qed

lemma hashes_distinct:
  assumes "store_inv h ps"
  shows "distinct (map (\<lambda>r. pk_Hash (h r)) (peers_of ps))"
proof -
  have "map (\<lambda>r. pk_Hash (h r)) (peers_of ps) = map fst (ps_peers ps)"
    using assms by (auto simp: store_inv_def peers_of_def)
  then show ?thesis using assms by (simp add: store_inv_def)
qed

text \<open>The table has one line for each connected peer, in the order of their hashes; asking for it disturbs nothing, and
  the number that is returned is the number of peers.\<close>

theorem DebugMessage_lists_peers:
  assumes "net_inv s"
  shows "\<exists>ps s' pre post. DebugMessage fmt_time ips s = ((pre @ tabulate_rows (debug_table s' ps) @ post, PeerStore_Total (c_peers s)), s')
    \<and> reshuffled s s' \<and> net_inv s' \<and> set ps = set (peers_of (c_peers s))
    \<and> sorted_wrt (<) (map (\<lambda>p. pk_Hash (n_heap s p)) ps)"
proof -
  obtain rs s' where sl: "slice_peers s = (rs, s')" by (rule prod.exhaust)
  note inv = slice_reshuffled [OF assms sl] and m = slice_peers_inv(2) [OF assms sl]
  let ?ps = "sort_key (\<lambda>p. pk_Hash (n_heap s p)) rs" and ?hs = "\<lambda>ps. map (\<lambda>p. pk_Hash (n_heap s p)) ps"
  have h: "n_heap s' = n_heap s" using reshuffled_frame(1) [OF inv(1)] .
  have "mset (?hs ?ps) = mset (?hs (peers_of (c_peers s)))" using m by simp
  then have "distinct (?hs ?ps)"
    using hashes_distinct [OF net_invD(1) [OF assms]] mset_eq_imp_distinct_iff by blast
  then have "sorted_wrt (<) (?hs ?ps)" by (simp add: strict_sorted_iff)
  moreover have "length ?ps = PeerStore_Total (c_peers s)"
    using mset_eq_length [OF m] by (simp add: PeerStore_Total_def peers_of_def)
  moreover have "\<exists>pre post. DebugMessage fmt_time ips s = ((pre @ tabulate_rows (debug_table s' ?ps) @ post, length ?ps), s')"
    unfolding DebugMessage_def sl Let_def prod.case h by blast
  ultimately show ?thesis using inv by (metis set_sort)
qed

text \<open>The sums are those of the collected counts, as long as these have at most 53 bits; but the sum of the incoming
  bytes is that of the outgoing ones.\<close>

lemma debug_sums_eq:
  "debug_sums ms =
     [\<Sum>m \<leftarrow> ms. uint64_of (pm_MPSDown m), \<Sum>m \<leftarrow> ms. uint64_of (pm_MPSUp m), \<Sum>m \<leftarrow> ms. uint64_of (pm_BPSUp m),
      \<Sum>m \<leftarrow> ms. uint64_of (pm_BPSUp m), \<Sum>m \<leftarrow> ms. pm_Dropped m, 0]"
proof -
  have "foldl (\<lambda>acc m.
         [acc ! 0 + uint64_of (pm_MPSDown m), acc ! 1 + uint64_of (pm_MPSUp m), acc ! 2 + uint64_of (pm_BPSUp m),
          acc ! 3 + uint64_of (pm_BPSUp m), acc ! 4 + pm_Dropped m, acc ! 5]) [a, b, c, d, e, f] ms
    = [a + (\<Sum>m \<leftarrow> ms. uint64_of (pm_MPSDown m)), b + (\<Sum>m \<leftarrow> ms. uint64_of (pm_MPSUp m)),
       c + (\<Sum>m \<leftarrow> ms. uint64_of (pm_BPSUp m)), d + (\<Sum>m \<leftarrow> ms. uint64_of (pm_BPSUp m)), e + (\<Sum>m \<leftarrow> ms. pm_Dropped m), f]"
    for a b c d e f
    by (induction ms arbitrary: a b c d e f) (simp_all add: add.assoc)
  then show ?thesis by (simp add: debug_sums_def numeral_eq_Suc)
qed

lemma debug_sums_down: "debug_sums ms ! 2 = debug_sums ms ! 3"
  by (simp add: debug_sums_eq)

end
