(* ===== verification/Delivery.thy ===== *)
theory Delivery
  imports Networks
begin

section \<open>From application to application\<close>

text \<open>
  The way of a message: \<open>Network.Send\<close> of one node, its \<open>route\<close> loop, the \<open>sendLoop\<close> of the peer, the connection, the
  \<open>readLoop\<close> of the peer on the other side, its \<open>manageData\<close> loop, and the channel that the other application reads.
  Each stage moves a whole sequence of messages; the theorem puts them together.
\<close>

text \<open>Events one after the other; \<open>None\<close> if one of them panics or has to wait.\<close>

primrec run_events :: "World \<Rightarrow> event list \<Rightarrow> NetState \<Rightarrow> NetState option" where
  "run_events w [] s = Some s"
| "run_events w (ev # evs) s = (case happen w ev s of Next s' \<Rightarrow> run_events w evs s' | _ \<Rightarrow> None)"

lemma run_events_append: "run_events w (xs @ ys) s = Option.bind (run_events w xs s) (run_events w ys)"
  by (induction xs arbitrary: s) (simp_all split: turn.splits)

text \<open>Bytes arrive on the connection of a peer.\<close>

definition arrive :: "gob item list \<Rightarrow> peer_ref \<Rightarrow> NetState \<Rightarrow> NetState" where
  "arrive bs r s = set_peer r ((n_heap s r)\<lparr>p_conn := (p_conn (n_heap s r))\<lparr>rw_in := bs\<rparr>\<rparr>) s"

lemma Send_room:
  assumes "\<not> ch_closed ch" and "length (ch_buf ch) < ch_cap ch"
  shows "ParcelChannel_Send x ch = Some (True, 0, ch\<lparr>ch_buf := ch_buf ch @ [x]\<rparr>)"
  using Send_open [of ch x] assms by simp

lemma channel_buf_eq: "ch_buf ch = xs \<Longrightarrow> ch\<lparr>ch_buf := xs\<rparr> = ch"
  by auto

subsection \<open>The sending node\<close>

lemma application_sends:
  assumes "\<not> ch_closed (n_toNetwork s)" and "length (ch_buf (n_toNetwork s)) + length xs \<le> ch_cap (n_toNetwork s)"
    and "prom_set (n_prom s)"
  shows "run_events w (map (\<lambda>x. E_Send (Some x)) xs) s
    = Some (s\<lparr>n_toNetwork := (n_toNetwork s)\<lparr>ch_buf := ch_buf (n_toNetwork s) @ map Some xs\<rparr>\<rparr>)"
  using assms
proof (induction xs arbitrary: s)
  case (Cons x xs)
  let ?ch = "n_toNetwork s"
  have "ParcelChannel_Send (Some x) ?ch = Some (True, 0, ?ch\<lparr>ch_buf := ch_buf ?ch @ [Some x]\<rparr>)"
    using Cons.prems by (intro Send_room) simp_all
  with Cons.IH [of "s\<lparr>n_toNetwork := ?ch\<lparr>ch_buf := ch_buf ?ch @ [Some x]\<rparr>\<rparr>"] Cons.prems show ?case
    by (simp add: happen_set Network_Send_def)
qed simp

text \<open>The queue of a peer, with parcels added to it.\<close>

definition queued :: "Parcel list \<Rightarrow> Peer \<Rightarrow> Peer" where
  "queued xs p = p\<lparr>p_send := (p_send p)\<lparr>ch_buf := ch_buf (p_send p) @ map Some xs\<rparr>\<rparr>"

lemma Peer_Send_room:
  assumes "\<not> p_stopped p" and "\<not> ch_closed (p_send p)" and "length (ch_buf (p_send p)) < ch_cap (p_send p)"
  shows "Peer_Send (Some x) p = Some (queued [x] p)"
  using assms Send_room [OF assms(2,3), of "Some x"] by (simp add: Peer_Send_def queued_def)

lemma queued_append: "queued ys (queued xs p) = queued (xs @ ys) p"
  by (simp add: queued_def)

lemma route_delivers:
  assumes "\<not> p_stopped (n_heap s r)" and "\<not> ch_closed (p_send (n_heap s r))"
    and "length (ch_buf (p_send (n_heap s r))) + length xs \<le> ch_cap (p_send (n_heap s r))"
    and "PeerStore_Get (c_peers s) h = Some r" and "h \<notin> {FullBroadcast, Broadcast, RandomPeer, []}"
    and "\<forall>x \<in> set xs. Address x = h" and "ch_buf (n_toNetwork s) = map Some xs" and "prom_set (n_prom s)"
  shows "run_events w (replicate (length xs) E_Route) s
    = Some (set_peer r (queued xs (n_heap s r)) s\<lparr>n_toNetwork := (n_toNetwork s)\<lparr>ch_buf := []\<rparr>\<rparr>)"
  using assms
proof (induction xs arbitrary: s)
  case Nil
  then show ?case by (simp add: queued_def channel_buf_eq)
next
  case (Cons x xs)
  let ?s = "s\<lparr>n_toNetwork := (n_toNetwork s)\<lparr>ch_buf := map Some xs\<rparr>\<rparr>" and ?p = "queued [x] (n_heap s r)"
  have "Peer_Send (Some x) (n_heap s r) = Some ?p" using Cons.prems by (intro Peer_Send_room) simp_all
  moreover have "Address x = h" using Cons.prems(6) by simp
  ultimately have "route_step (w_lib w) s = Next (set_peer r ?p ?s)"
    using Cons.prems(4,5,7) by (auto simp: route_step_def Channel_Receive_def route_parcel_def send_to_def)
  moreover have "run_events w (replicate (length xs) E_Route) (set_peer r ?p ?s)
      = Some (set_peer r (queued (x # xs) (n_heap s r)) s\<lparr>n_toNetwork := (n_toNetwork s)\<lparr>ch_buf := []\<rparr>\<rparr>)"
    using Cons.prems by (subst Cons.IH) (simp_all add: queued_append, simp_all add: queued_def)
  ultimately show ?case using happen_set [OF Cons.prems(8), of w E_Route]
    by (simp only: length_Cons replicate_Suc run_events.simps event_turn.simps turn.case)
qed

lemma peer_transmits:
  assumes "send_all (Prot_Send (w_lib w)) xs (p_prot (n_heap s r), p_conn (n_heap s r)) = Inr (prot', conn')"
    and "ch_buf (p_send (n_heap s r)) = map Some xs" and "\<not> ch_closed (p_send (n_heap s r))"
    and "\<not> p_stopped (n_heap s r)" and "\<not> p_connClosed (n_heap s r)" and "\<not> n_stopped s" and "prom_set (n_prom s)"
  shows "\<exists>s'. run_events w (replicate (length xs) (E_PeerSend r now False)) s = Some s'
    \<and> p_prot (n_heap s' r) = prot' \<and> p_conn (n_heap s' r) = conn'"
  using assms
proof (induction xs arbitrary: s)
  case Nil
  then show ?case by (simp add: send_all_simps)
next
  case (Cons x xs)
  let ?p = "n_heap s r"
  from Cons.prems(1) obtain pc where pc: "Prot_Send (w_lib w) x (p_prot ?p, p_conn ?p) = Inr pc"
    "send_all (Prot_Send (w_lib w)) xs pc = Inr (prot', conn')"
    by (auto simp: send_all_simps bindR_Inr_iff)
  let ?q = "?p\<lparr>p_send := (p_send ?p)\<lparr>ch_buf := map Some xs\<rparr>, p_prot := fst pc, p_conn := snd pc, p_lastSend := now\<rparr>"
  have "peer_send (w_lib w) now False r s = Some (set_peer r ?q s)"
    using Cons.prems(2-6) pc(1)
    by (cases pc) (simp add: peer_send_def sendLoop_step_def Channel_Receive_def)
  moreover have "\<exists>s'. run_events w (replicate (length xs) (E_PeerSend r now False)) (set_peer r ?q s) = Some s'
    \<and> p_prot (n_heap s' r) = prot' \<and> p_conn (n_heap s' r) = conn'"
    using Cons.prems pc(2) by (intro Cons.IH) simp_all
  ultimately show ?case using Cons.prems(7) by (simp add: happen_set)
qed

subsection \<open>The receiving node\<close>

lemma arrive_simps [simp]:
  "n_next (arrive bs r s) = n_next s" "c_peerData (arrive bs r s) = c_peerData s" "n_fromNetwork (arrive bs r s) = n_fromNetwork s"
  "p_prot (n_heap (arrive bs r s) r) = p_prot (n_heap s r)"
  "p_conn (n_heap (arrive bs r s) r) = (p_conn (n_heap s r))\<lparr>rw_in := bs\<rparr>"
  "p_stopped (n_heap (arrive bs r s) r) = p_stopped (n_heap s r)" "pk_Hash (n_heap (arrive bs r s) r) = pk_Hash (n_heap s r)"
  by (simp_all add: arrive_def)

lemma arrive_inv: "net_inv s \<Longrightarrow> r < n_next s \<Longrightarrow> net_inv (arrive bs r s)"
  unfolding arrive_def
  by (rule net_inv_set_peer) (auto simp: net_inv_def peer_ok_def same_peer_def PeerConsts.truncate_def)

definition from_peer :: "string \<Rightarrow> Parcel \<Rightarrow> Parcel" where
  "from_peer h q = q\<lparr>Address := h\<rparr>"

text \<open>One turn of the read loop with a valid message.\<close>

lemma peer_read_one:
  assumes "net_inv s" and "r < n_next s" and "\<not> p_stopped (n_heap s r)"
    and "Prot_Receive lib (p_prot (n_heap s r), p_conn (n_heap s r)) = Inr (q, prot, conn)" and "Parcel_Valid (Some q) = Inr ()"
  shows "\<exists>s'. peer_read lib now False True r s = Some s' \<and> net_inv s' \<and> n_next s' = n_next s
    \<and> p_prot (n_heap s' r) = prot \<and> p_conn (n_heap s' r) = conn \<and> \<not> p_stopped (n_heap s' r)
    \<and> pk_Hash (n_heap s' r) = pk_Hash (n_heap s r) \<and> n_fromNetwork s' = n_fromNetwork s
    \<and> c_peerData s' = c_peerData s @ [(Some r, from_peer (pk_Hash (n_heap s r)) q)]"
proof -
  note ok = net_invD(2) [OF assms(1,2)]
  from peer_read_inv [OF assms(1,2), of lib now False True] obtain s' where
    s': "peer_read lib now False True r s = Some s'" "net_inv s'" by blast
  have "\<not> p_connClosed (n_heap s r)" using ok assms(3) by (simp add: peer_ok_def)
  with s'(1) assms(3-5) show ?thesis
    using s' by (auto simp: peer_read_def readLoop_step_def deliver_def from_peer_def Let_def split: option.splits if_splits)
qed

lemma peer_reads:
  assumes "net_inv s" and "r < n_next s" and "\<not> p_stopped (n_heap s r)"
    and "recv_n (Prot_Receive (w_lib w)) (length qs) (p_prot (n_heap s r), p_conn (n_heap s r)) = Inr (qs, pc)"
    and "\<forall>q \<in> set qs. Parcel_Valid (Some q) = Inr ()"
  shows "\<exists>s'. run_events w (replicate (length qs) (E_Read r now False True)) s = Some s' \<and> net_inv s'
    \<and> n_fromNetwork s' = n_fromNetwork s
    \<and> c_peerData s' = c_peerData s @ map (\<lambda>q. (Some r, from_peer (pk_Hash (n_heap s r)) q)) qs"
  using assms
proof (induction qs arbitrary: s)
  case (Cons q qs)
  let ?lib = "w_lib w"
  from Cons.prems(4) obtain c where c: "Prot_Receive ?lib (p_prot (n_heap s r), p_conn (n_heap s r)) = Inr (q, c)"
    "recv_n (Prot_Receive ?lib) (length qs) c = Inr (qs, pc)"
    by (auto simp: bindR_Inr_iff split: prod.splits)
  from peer_read_one [OF Cons.prems(1-3), of ?lib q "fst c" "snd c" now] c(1) Cons.prems(5) obtain s1 where
    s1: "peer_read ?lib now False True r s = Some s1" "net_inv s1" "n_next s1 = n_next s"
    "p_prot (n_heap s1 r) = fst c" "p_conn (n_heap s1 r) = snd c" "\<not> p_stopped (n_heap s1 r)"
    "pk_Hash (n_heap s1 r) = pk_Hash (n_heap s r)" "n_fromNetwork s1 = n_fromNetwork s"
    "c_peerData s1 = c_peerData s @ [(Some r, from_peer (pk_Hash (n_heap s r)) q)]" by auto
  from Cons.IH [OF s1(2)] s1(3-6) Cons.prems(2,5) c(2) obtain s' where
    "run_events w (replicate (length qs) (E_Read r now False True)) s1 = Some s'" "net_inv s'" "n_fromNetwork s' = n_fromNetwork s1"
    "c_peerData s' = c_peerData s1 @ map (\<lambda>q. (Some r, from_peer (pk_Hash (n_heap s1 r)) q)) qs" by auto
  moreover have "prom_set (n_prom s)" using Cons.prems(1) by (simp add: net_inv_def)
  ultimately show ?case using s1 by (simp add: happen_set)
qed simp

text \<open>What the application gets to see of a message.\<close>

definition as_message :: "Parcel \<Rightarrow> Parcel" where
  "as_message q = q\<lparr>ptype := TypeMessage\<rparr>"

lemma manageData_delivers:
  assumes "net_inv s" and "c_peerData s = map (\<lambda>q. (Some r, q)) qs" and "\<forall>q \<in> set qs. IsApplicationMessage q"
    and "length (ch_buf (n_fromNetwork s)) + length qs \<le> ch_cap (n_fromNetwork s)"
  shows "\<exists>s'. run_events w (replicate (length qs) (E_Data t1 t2)) s = Some s' \<and> net_inv s'
    \<and> ch_buf (n_fromNetwork s') = ch_buf (n_fromNetwork s) @ map (\<lambda>q. Some (as_message q)) qs"
  using assms
proof (induction qs arbitrary: s)
  case (Cons q qs)
  let ?s = "s\<lparr>c_peerData := map (\<lambda>q. (Some r, q)) qs\<rparr>" and ?ch = "n_fromNetwork s"
  have inv: "net_inv ?s" using Cons.prems(1,2) by (auto simp: net_inv_def)
  have open_ch: "\<not> ch_closed ?ch" using Cons.prems(1) by (simp add: net_inv_def channel_open_def)
  have room: "length (ch_buf ?ch) < ch_cap ?ch" using Cons.prems(4) by simp
  let ?t = "?s\<lparr>n_fromNetwork := ?ch\<lparr>ch_buf := ch_buf ?ch @ [Some (as_message q)]\<rparr>\<rparr>"
  have one: "manageData_parcel t1 t2 (Some r, q) ?s = Next ?t"
    using Send_room [OF open_ch room] Cons.prems(3)
    by (auto simp: manageData_parcel_def IsApplicationMessage_def ParcelType_defs as_message_def)
  have "r < n_next ?s" using Cons.prems(1,2) by (auto simp: net_inv_def)
  with manageData_inv [OF inv, of "Some r" t1 t2 q] one have inv': "net_inv ?t" by simp
  have "manageData_step t1 t2 s = Next ?t" using one Cons.prems(2) by (simp add: manageData_step_def)
  moreover have "prom_set (n_prom s)" using Cons.prems(1) by (simp add: net_inv_def)
  ultimately show ?case using Cons.IH [OF inv'] Cons.prems(3,4) by (simp add: happen_set)
qed simp

subsection \<open>Properties\<close>

lemma prot_in_step_arrive: "prot_in_step c (p, w) \<Longrightarrow> prot_in_step c (p, w\<lparr>rw_in := bs\<rparr>)"
  by (cases c; cases "fst c"; cases p) (auto simp: v9_in_step_def v10_in_step_def)

lemma valid_app: "IsApplicationMessage q \<Longrightarrow> Payload q \<noteq> [] \<Longrightarrow> Parcel_Valid (Some q) = Inr ()"
  by (auto simp: Parcel_Valid_def IsApplicationMessage_def ParcelType_defs typeStrings_def)

lemma node_sends:
  assumes "net_inv a" and "PeerStore_Get (c_peers a) h = Some ra" and "h \<notin> {FullBroadcast, Broadcast, RandomPeer, []}"
    and "\<not> p_stopped (n_heap a ra)" and "\<not> n_stopped a"
    and "ch_buf (n_toNetwork a) = []" and "ch_buf (p_send (n_heap a ra)) = []"
    and "length xs \<le> ch_cap (n_toNetwork a)" and "length xs \<le> ch_cap (p_send (n_heap a ra))" and "\<forall>x \<in> set xs. Address x = h"
    and "send_all (Prot_Send (w_lib w)) xs (p_prot (n_heap a ra), p_conn (n_heap a ra)) = Inr (prot', conn')"
  shows "\<exists>a'. run_events w (map (\<lambda>x. E_Send (Some x)) xs @ replicate (length xs) E_Route
        @ replicate (length xs) (E_PeerSend ra now False)) a = Some a' \<and> p_conn (n_heap a' ra) = conn'"
proof -
  let ?pa = "n_heap a ra"
  have "ra < n_next a" using Get_iff [OF net_invD(1) [OF assms(1)]] assms(2) net_invD(3) [OF assms(1)] by blast
  then have ok: "\<not> ch_closed (p_send ?pa)" "\<not> p_connClosed ?pa" using net_invD(2) [OF assms(1)] assms(4) by (auto simp: peer_ok_def)
  have open_a: "\<not> ch_closed (n_toNetwork a)" and prom: "prom_set (n_prom a)" using assms(1) by (simp_all add: net_inv_def channel_open_def)
  define a1 where "a1 = a\<lparr>n_toNetwork := (n_toNetwork a)\<lparr>ch_buf := map Some xs\<rparr>\<rparr>"
  have e1: "run_events w (map (\<lambda>x. E_Send (Some x)) xs) a = Some a1"
    using application_sends [of a xs w] open_a prom assms(6,8) by (simp add: a1_def)
  define a2 where "a2 = set_peer ra (queued xs (n_heap a1 ra)) a1\<lparr>n_toNetwork := (n_toNetwork a1)\<lparr>ch_buf := []\<rparr>\<rparr>"
  have e2: "run_events w (replicate (length xs) E_Route) a1 = Some a2"
    unfolding a2_def using assms(2-4,7,9,10) ok prom by (intro route_delivers [where h = h]) (simp_all add: a1_def)
  have "\<exists>a'. run_events w (replicate (length xs) (E_PeerSend ra now False)) a2 = Some a' \<and> p_prot (n_heap a' ra) = prot'
      \<and> p_conn (n_heap a' ra) = conn'"
    using assms(4,5,7,11) ok prom by (intro peer_transmits) (simp_all add: a2_def a1_def queued_def)
  with e1 e2 show ?thesis by (auto simp: run_events_append)
qed

lemma node_receives:
  assumes "net_inv b" and "rb < n_next b" and "\<not> p_stopped (n_heap b rb)" and "c_peerData b = []"
    and "length (ch_buf (n_fromNetwork b)) + length qs \<le> ch_cap (n_fromNetwork b)"
    and "recv_n (Prot_Receive (w_lib w)) (length qs) (p_prot (n_heap b rb), (p_conn (n_heap b rb))\<lparr>rw_in := bs\<rparr>) = Inr (qs, r')"
    and "\<forall>q \<in> set qs. IsApplicationMessage q \<and> Payload q \<noteq> []"
  shows "\<exists>b'. run_events w (replicate (length qs) (E_Read rb now' False True) @ replicate (length qs) (E_Data t1 t2)) (arrive bs rb b) = Some b'
    \<and> net_inv b' \<and> ch_buf (n_fromNetwork b')
        = ch_buf (n_fromNetwork b) @ map Some (map (\<lambda>q. as_message (from_peer (pk_Hash (n_heap b rb)) q)) qs)"
proof -
  let ?b = "arrive bs rb b" and ?h = "pk_Hash (n_heap b rb)"
  have "\<exists>b1. run_events w (replicate (length qs) (E_Read rb now' False True)) ?b = Some b1 \<and> net_inv b1
      \<and> n_fromNetwork b1 = n_fromNetwork ?b
      \<and> c_peerData b1 = c_peerData ?b @ map (\<lambda>q. (Some rb, from_peer (pk_Hash (n_heap ?b rb)) q)) qs"
    using arrive_inv [OF assms(1,2)] assms(2,3,6,7) by (intro peer_reads) (simp_all add: valid_app)
  then obtain b1 where b1: "run_events w (replicate (length qs) (E_Read rb now' False True)) ?b = Some b1" "net_inv b1"
    "n_fromNetwork b1 = n_fromNetwork b" "c_peerData b1 = map (\<lambda>q. (Some rb, q)) (map (from_peer ?h) qs)"
    using assms(4) by (auto simp: comp_def)
  from manageData_delivers [OF b1(2,4), of w t1 t2] assms(5,7) b1(3) obtain b' where
    "run_events w (replicate (length qs) (E_Data t1 t2)) b1 = Some b'" "net_inv b'"
    "ch_buf (n_fromNetwork b') = ch_buf (n_fromNetwork b) @ map (\<lambda>q. Some (as_message q)) (map (from_peer ?h) qs)"
    by (auto simp: from_peer_def IsApplicationMessage_def)
  with b1(1) show ?thesis by (auto simp: run_events_append comp_def)
qed

text \<open>C1: what one application sends, the other one reads: if the peers at the two ends of a connection run and are in step,
  nothing else is on its way, and the channels have room, then the messages that an application sends to a peer pass
  through the sending node, the connection and the receiving node, without a panic and without waiting, and the other
  application finds them in its channel, all of them, in order and with the same payload, as messages from the peer at
  the other end.\<close>

theorem messages_delivered:
  assumes "lib_ok lib" and "w_lib wa = lib" and "w_lib wb = lib" and "net_inv a" and "net_inv b"
    and "PeerStore_Get (c_peers a) h = Some ra" and "h \<notin> {FullBroadcast, Broadcast, RandomPeer, []}"
    and "\<not> p_stopped (n_heap a ra)" and "\<not> n_stopped a" and "rb < n_next b" and "\<not> p_stopped (n_heap b rb)"
    and "ch_buf (n_toNetwork a) = []" and "ch_buf (p_send (n_heap a ra)) = []" and "c_peerData b = []"
    and "length xs \<le> ch_cap (n_toNetwork a)" and "length xs \<le> ch_cap (p_send (n_heap a ra))"
    and "length (ch_buf (n_fromNetwork b)) + length xs \<le> ch_cap (n_fromNetwork b)"
    and "\<forall>x \<in> set xs. Address x = h \<and> IsApplicationMessage x \<and> has_payload x"
    and "prot_in_step (p_prot (n_heap a ra), p_conn (n_heap a ra)) (p_prot (n_heap b rb), p_conn (n_heap b rb))"
    and "send_all (Prot_Send lib) xs (p_prot (n_heap a ra), p_conn (n_heap a ra)) = Inr (prot', conn')"
  shows "\<exists>a' b' ys.
    run_events wa (map (\<lambda>x. E_Send (Some x)) xs @ replicate (length xs) E_Route
        @ replicate (length xs) (E_PeerSend ra now False)) a = Some a'
    \<and> run_events wb (replicate (length xs) (E_Read rb now' False True) @ replicate (length xs) (E_Data t1 t2))
        (arrive (drop (length (rw_out (p_conn (n_heap a ra)))) (rw_out (p_conn (n_heap a' ra)))) rb b) = Some b'
    \<and> net_inv b' \<and> ch_buf (n_fromNetwork b') = ch_buf (n_fromNetwork b) @ map Some ys
    \<and> list_all2 (\<lambda>x y. ptype y = TypeMessage \<and> Payload y = Payload x \<and> Address y = pk_Hash (n_heap b rb)) xs ys"
proof -
  let ?pa = "n_heap a ra" and ?pb = "n_heap b rb"
  let ?bs = "drop (length (rw_out (p_conn ?pa))) (rw_out conn')"
  have "\<forall>x \<in> set xs. Address x = h" and pay: "list_all has_payload xs" using assms(18) by (simp_all add: list_all_iff)
  with node_sends [OF assms(4,6-9,12,13,15,16), of wa prot' conn' now] assms(2,20) obtain a' where
    a': "run_events wa (map (\<lambda>x. E_Send (Some x)) xs @ replicate (length xs) E_Route
        @ replicate (length xs) (E_PeerSend ra now False)) a = Some a'" "p_conn (n_heap a' ra) = conn'" by auto
  from Prot_stream [OF assms(1,20) pay prot_in_step_arrive [OF assms(19)], of ?bs "[]"] obtain qs r' where
    q: "recv_n (Prot_Receive lib) (length xs) (p_prot ?pb, (p_conn ?pb)\<lparr>rw_in := ?bs\<rparr>) = Inr (qs, r')"
    "list_all2 same_message xs qs" by auto
  have len: "length qs = length xs" using list_all2_lengthD [OF q(2)] by simp
  have app: "\<forall>q \<in> set qs. IsApplicationMessage q \<and> Payload q \<noteq> []"
  proof
    fix q' assume "q' \<in> set qs"
    with q(2) obtain x where "x \<in> set xs" "same_message x q'" by (metis in_set_conv_nth list_all2_conv_all_nth)
    with assms(18) show "IsApplicationMessage q' \<and> Payload q' \<noteq> []"
      by (auto simp: same_message_def IsApplicationMessage_def has_payload_def)
  qed
  let ?ms = "map (\<lambda>q. as_message (from_peer (pk_Hash ?pb) q)) qs"
  from node_receives [OF assms(5,10,11,14), of qs wb ?bs r' now' t1 t2] assms(3,17) q(1) app obtain b' where
    b': "run_events wb (replicate (length xs) (E_Read rb now' False True) @ replicate (length xs) (E_Data t1 t2)) (arrive ?bs rb b) = Some b'"
    "net_inv b'" "ch_buf (n_fromNetwork b') = ch_buf (n_fromNetwork b) @ map Some ?ms" unfolding len by blast
  have "list_all2 (\<lambda>x y. ptype y = TypeMessage \<and> Payload y = Payload x \<and> Address y = pk_Hash ?pb) xs ?ms"
    using q(2) by (auto simp: list_all2_conv_all_nth same_message_def as_message_def from_peer_def)
  with a' b' show ?thesis by blast
qed

theorem messages_delivered_witness:
  "\<exists>a' b' y z. run_events sample_world
      (map (\<lambda>x. E_Send (Some x)) [NewParcel (pk_Hash (sample_peer 0)) [7], NewParcel (pk_Hash (sample_peer 0)) [8]]
       @ replicate 2 E_Route @ replicate 2 (E_PeerSend 0 5 False)) sample_net = Some a'
    \<and> run_events sample_world (replicate 2 (E_Read 1 6 False True) @ replicate 2 (E_Data 7 8))
        (arrive (rw_out (p_conn (n_heap a' 0))) 1 sample_net) = Some b'
    \<and> ch_buf (n_fromNetwork b') = [Some y, Some z] \<and> Payload y = [7] \<and> Payload z = [8]"
proof -
  let ?n = sample_net and ?h = "pk_Hash (sample_peer 0)"
  let ?xs = "[NewParcel ?h [7], NewParcel ?h [8]]"
  have s: "n_heap ?n = sample_peer" "n_toNetwork ?n = newParcelChannel 10" "n_fromNetwork ?n = newParcelChannel 10"
    by (simp_all add: sample_net_def)
  have p: "p_prot (sample_peer n) = PV11" "p_conn (sample_peer n) = open_rw []" "p_send (sample_peer n) = newParcelChannel 1000" for n
    by (simp_all add: sample_peer_def newPeer_def NewPeerHashCache_def DefaultP2PConfiguration_def duration_defs)
  have ch: "ch_buf (newParcelChannel k :: Parcel option channel) = []" "ch_cap (newParcelChannel k :: Parcel option channel) = k" for k
    by (simp_all add: newParcelChannel_def)
  have lib: "w_lib sample_world = sample_lib" by (simp add: sample_world_def)
  have a: "PeerStore_Get (c_peers ?n) ?h = Some 0" "?h \<notin> {FullBroadcast, Broadcast, RandomPeer, []}"
    "\<not> p_stopped (n_heap ?n 0)" "\<not> n_stopped ?n"
    by (simp add: sample_net_def sample_Get, simp add: sample_peer_consts FullBroadcast_def Broadcast_def RandomPeer_def)
      (simp_all add: sample_net_def sample_peer_consts)
  have b: "1 < n_next ?n" "\<not> p_stopped (n_heap ?n 1)" by (simp_all add: sample_net_def sample_peer_consts)
  have idle: "ch_buf (n_toNetwork ?n) = []" "ch_buf (p_send (n_heap ?n 0)) = []" "c_peerData ?n = []"
    by (simp_all add: s p ch) (simp add: sample_net_def)
  have room: "length ?xs \<le> ch_cap (n_toNetwork ?n)" "length ?xs \<le> ch_cap (p_send (n_heap ?n 0))"
    "length (ch_buf (n_fromNetwork ?n)) + length ?xs \<le> ch_cap (n_fromNetwork ?n)"
    by (simp_all add: s p ch)
  have app: "\<forall>x \<in> set ?xs. Address x = ?h \<and> IsApplicationMessage x \<and> has_payload x"
    by (simp add: NewParcel_def newParcel_def IsApplicationMessage_def has_payload_def)
  have step: "prot_in_step (p_prot (n_heap ?n 0), p_conn (n_heap ?n 0)) (p_prot (n_heap ?n 1), p_conn (n_heap ?n 1))"
    by (simp add: s p)
  obtain w where "send_all (Prot_Send sample_lib) ?xs (PV11, open_rw []) = Inr (PV11, w)"
    using sov_le_10 [of 6] sov_le_10 [of 1]
    by (simp add: Prot_lift sample_lib_def V11_Send_def writeMessage_def gen_Marshal_def V11_Marshal_eq writeCheck_def Write_def
        open_rw_def NewParcel_def newParcel_def ParcelType_defs V11MaxParcelSize_def new_V11Msg_def Let_def
        V11Msg_Size_def size_varint_field_def size_len_field_def size_len_def flip: V11Msg_Size_eq)
  then have w: "send_all (Prot_Send sample_lib) ?xs (p_prot (n_heap ?n 0), p_conn (n_heap ?n 0)) = Inr (PV11, w)" by (simp only: s p)
  have c: "replicate 2 x = replicate (length ?xs) x" "rw_out (p_conn (n_heap ?n 0)) = []" for x :: event
    by (simp_all add: s p open_rw_def numeral_2_eq_2)
  from messages_delivered [OF sample_lib_ok lib lib sample_net_inv sample_net_inv a b idle room app step w, of 5 6 7 8]
  obtain a' b' ys where d: "run_events sample_world (map (\<lambda>x. E_Send (Some x)) ?xs @ replicate 2 E_Route @ replicate 2 (E_PeerSend 0 5 False)) ?n = Some a'"
    "run_events sample_world (replicate 2 (E_Read 1 6 False True) @ replicate 2 (E_Data 7 8)) (arrive (rw_out (p_conn (n_heap a' 0))) 1 ?n) = Some b'"
    "ch_buf (n_fromNetwork b') = map Some ys" 
    "list_all2 (\<lambda>x y. ptype y = TypeMessage \<and> Payload y = Payload x \<and> Address y = pk_Hash (n_heap ?n 1)) ?xs ys"
    unfolding c by (auto simp del: run_events.simps simp: s ch)
  from d(4) obtain y z where "ys = [y, z]" "Payload y = [7]" "Payload z = [8]"
    by (auto simp: list_all2_Cons1 NewParcel_def newParcel_def)
  with d show ?thesis by (intro exI [of _ a'] exI [of _ b']) (simp del: run_events.simps)
qed

end
