(* ===== verification/LockSource.thy ===== *)
theory LockSource
  imports P2P_Prelude
begin

section \<open>The random source that goroutines share\<close>

text \<open>
  \<open>lockSource.go\<close>: a random source whose three methods hold a mutex while they use the source beneath. That source,
  \<open>rand.Source64\<close> of the Go library, is a record of functions on its state. It is not safe for concurrent use: a
  call of it reads the state and writes the next one, and other goroutines may run in between.

  The methods are step relations of the goroutines that call them, one step for each statement and two for the call
  of the source. What they promise is that of a source that one goroutine uses alone: the answers are those of the
  calls one after the other, in the order in which they return.
\<close>

record 'g Source64 =
  src_Int63 :: "'g \<Rightarrow> 64 word \<times> 'g"
  src_Uint64 :: "'g \<Rightarrow> 64 word \<times> 'g"
  src_Seed :: "64 word \<Rightarrow> 'g \<Rightarrow> 'g"

datatype source_op = Op_Int63 | Op_Uint64 | Op_Seed "64 word"

text \<open>The answer of a call of the source; \<open>Seed\<close> has none.\<close>

fun source_call :: "'g Source64 \<Rightarrow> source_op \<Rightarrow> 'g \<Rightarrow> 64 word option \<times> 'g" where
  "source_call S Op_Int63 g = (let (n, g) = src_Int63 S g in (Some n, g))"
| "source_call S Op_Uint64 g = (let (n, g) = src_Uint64 S g in (Some n, g))"
| "source_call S (Op_Seed seed) g = (None, src_Seed S seed g)"

text \<open>\<open>lockSource\<close>, with the goroutine that holds the mutex.\<close>

record 'g lockSource =
  ls_src :: 'g
  ls_mtx :: "nat option"

text \<open>\<open>newLockSource\<close>: the error is that the source of this version of the library has no 64-bit numbers.\<close>

definition new_lockSource :: "(64 word \<Rightarrow> 'g option) \<Rightarrow> 64 word \<Rightarrow> 'g lockSource option" where
  "new_lockSource NewSource seed = map_option (\<lambda>src. \<lparr>ls_src = src, ls_mtx = None\<rparr>) (NewSource seed)"

text \<open>Where a goroutine is: outside; before \<open>Lock\<close>; before the call of the source; in this call, having read the
  state; and before \<open>Unlock\<close>, with the answer.\<close>

datatype 'g point = Outside | At_Lock source_op | At_Call source_op | In_Call source_op 'g | At_Unlock source_op "64 word option"

record 'g calls =
  lc_lock :: "'g lockSource"
  lc_at :: "nat \<Rightarrow> 'g point"
  lc_returned :: "(nat \<times> source_op \<times> 64 word option) list"

text \<open>The steps of a goroutine that is in one of the methods; \<open>None\<close> if it has to wait.\<close>

definition goroutine_step :: "'g Source64 \<Rightarrow> nat \<Rightarrow> 'g calls \<Rightarrow> 'g calls option" where
  "goroutine_step S i s =
     (let r = lc_lock s; at = (\<lambda>pt. (lc_at s)(i := pt))
      in case lc_at s i of
           Outside \<Rightarrow> None
         | At_Lock x \<Rightarrow>
             if ls_mtx r = None then Some (s\<lparr>lc_lock := r\<lparr>ls_mtx := Some i\<rparr>, lc_at := at (At_Call x)\<rparr>) else None
         | At_Call x \<Rightarrow> Some (s\<lparr>lc_at := at (In_Call x (ls_src r))\<rparr>)
         | In_Call x g \<Rightarrow>
             (let (n, g') = source_call S x g
              in Some (s\<lparr>lc_lock := r\<lparr>ls_src := g'\<rparr>, lc_at := at (At_Unlock x n)\<rparr>))
         | At_Unlock x n \<Rightarrow>
             Some (s\<lparr>lc_lock := r\<lparr>ls_mtx := None\<rparr>, lc_at := at Outside, lc_returned := lc_returned s @ [(i, x, n)]\<rparr>))"

text \<open>A goroutine calls a method.\<close>

definition enter :: "nat \<Rightarrow> source_op \<Rightarrow> 'g calls \<Rightarrow> 'g calls" where
  "enter i x s = s\<lparr>lc_at := (lc_at s)(i := At_Lock x)\<rparr>"

inductive running :: "'g Source64 \<Rightarrow> 'g \<Rightarrow> 'g calls \<Rightarrow> bool" for S :: "'g Source64" and g :: 'g where
  fresh: "running S g \<lparr>lc_lock = \<lparr>ls_src = g, ls_mtx = None\<rparr>, lc_at = (\<lambda>_. Outside), lc_returned = []\<rparr>"
| call: "running S g s \<Longrightarrow> lc_at s i = Outside \<Longrightarrow> running S g (enter i x s)"
| step: "running S g s \<Longrightarrow> goroutine_step S i s = Some s' \<Longrightarrow> running S g s'"

text \<open>The source beneath, used by one goroutine alone.\<close>

primrec alone :: "'g Source64 \<Rightarrow> source_op list \<Rightarrow> 'g \<Rightarrow> 64 word option list \<times> 'g" where
  "alone S [] g = ([], g)"
| "alone S (x # xs) g =
     (let (n, g) = source_call S x g; (ns, g) = alone S xs g in (n # ns, g))"

subsection \<open>The invariant\<close>

fun holds_lock :: "'g point \<Rightarrow> bool" where
  "holds_lock Outside = False"
| "holds_lock (At_Lock x) = False"
| "holds_lock (At_Call x) = True"
| "holds_lock (In_Call x g) = True"
| "holds_lock (At_Unlock x n) = True"

lemma alone_append:
  "alone S (xs @ ys) g = (fst (alone S xs g) @ fst (alone S ys (snd (alone S xs g))), snd (alone S ys (snd (alone S xs g))))"
  by (induction xs arbitrary: g) (simp_all add: case_prod_beta Let_def)

definition ops_of :: "(nat \<times> source_op \<times> 64 word option) list \<Rightarrow> source_op list" where
  "ops_of h = map (\<lambda>(_, x, _). x) h"

definition answers_of :: "(nat \<times> source_op \<times> 64 word option) list \<Rightarrow> 64 word option list" where
  "answers_of h = map (\<lambda>(_, _, n). n) h"

text \<open>The goroutine in a method that has the lock is the owner of the mutex. The state of the source is that after
  the calls that have returned, and the one that is about to.\<close>

definition lock_inv :: "'g Source64 \<Rightarrow> 'g \<Rightarrow> 'g calls \<Rightarrow> bool" where
  "lock_inv S g s \<longleftrightarrow>
     (\<forall>i. holds_lock (lc_at s i) \<longleftrightarrow> ls_mtx (lc_lock s) = Some i)
     \<and> answers_of (lc_returned s) = fst (alone S (ops_of (lc_returned s)) g)
     \<and> (let g1 = snd (alone S (ops_of (lc_returned s)) g)
        in case ls_mtx (lc_lock s) of
             None \<Rightarrow> ls_src (lc_lock s) = g1
           | Some i \<Rightarrow>
               (case lc_at s i of
                  At_Unlock x n \<Rightarrow> (n, ls_src (lc_lock s)) = source_call S x g1
                | In_Call x g2 \<Rightarrow> g2 = g1 \<and> ls_src (lc_lock s) = g1
                | _ \<Rightarrow> ls_src (lc_lock s) = g1))"

lemma lock_inv_owner: "lock_inv S g s \<Longrightarrow> holds_lock (lc_at s i) \<longleftrightarrow> ls_mtx (lc_lock s) = Some i"
  by (simp add: lock_inv_def)

lemma enter_inv:
  assumes "lock_inv S g s" and "lc_at s i = Outside"
  shows "lock_inv S g (enter i x s)"
proof -
  have "lc_at (enter i x s) j = lc_at s j" if "ls_mtx (lc_lock s) = Some j" for j
    using lock_inv_owner [OF assms(1), of i] assms(2) that by (auto simp: enter_def)
  moreover have "lc_lock (enter i x s) = lc_lock s" "lc_returned (enter i x s) = lc_returned s"
    "holds_lock (lc_at (enter i x s) k) = holds_lock (lc_at s k)" for k
    using assms(2) by (simp_all add: enter_def)
  ultimately show ?thesis using assms(1) unfolding lock_inv_def by (cases "ls_mtx (lc_lock s)") (simp_all cong del: point.case_cong_weak)
qed

lemma goroutine_step_inv:
  assumes "lock_inv S g s" and "goroutine_step S i s = Some s'"
  shows "lock_inv S g s'"
proof (cases "lc_at s i")
  case (At_Lock x)
  with assms show ?thesis
    by (auto simp: lock_inv_def goroutine_step_def Let_def split: if_splits)
next
  case (At_Call x)
  then have "ls_mtx (lc_lock s) = Some i" using lock_inv_owner [OF assms(1), of i] by simp
  with At_Call assms show ?thesis by (auto simp: lock_inv_def goroutine_step_def Let_def)
next
  case (In_Call x g1)
  then have "ls_mtx (lc_lock s) = Some i" using lock_inv_owner [OF assms(1), of i] by simp
  with In_Call assms show ?thesis by (auto simp: lock_inv_def goroutine_step_def Let_def split: prod.splits)
next
  case (At_Unlock x n)
  then have "ls_mtx (lc_lock s) = Some i" using lock_inv_owner [OF assms(1), of i] by simp
  with At_Unlock assms show ?thesis
    by (auto simp: lock_inv_def goroutine_step_def Let_def ops_of_def answers_of_def alone_append split: prod.splits if_splits)
qed (use assms(2) in \<open>simp add: goroutine_step_def\<close>)

lemma running_inv: "running S g s \<Longrightarrow> lock_inv S g s"
proof (induction rule: running.induct)
  case fresh
  then show ?case by (simp add: lock_inv_def ops_of_def answers_of_def)
qed (simp_all add: enter_inv goroutine_step_inv)

text \<open>The turns of the goroutines in a given order.\<close>

primrec turns :: "'g Source64 \<Rightarrow> nat list \<Rightarrow> 'g calls \<Rightarrow> 'g calls option" where
  "turns S [] s = Some s"
| "turns S (i # is) s = Option.bind (goroutine_step S i s) (turns S is)"

lemma running_turns: "running S g s \<Longrightarrow> turns S is s = Some s' \<Longrightarrow> running S g s'"
  by (induction "is" arbitrary: s) (auto simp: bind_eq_Some_conv intro: running.step)

subsection \<open>Properties\<close>

text \<open>C19: the locked source can be shared: whatever goroutines call its methods, and however their steps interleave,
  at most one of them uses the source at a time, the answers are exactly those that the same calls, in the order in
  which they return, get from a source that one goroutine uses alone, and the goroutines never wait for each other
  for ever: as long as one is in a method, some goroutine in a method can go on.\<close>

theorem lockSource_linearizable:
  assumes "running S g s"
  shows "answers_of (lc_returned s) = fst (alone S (ops_of (lc_returned s)) g)
    \<and> (\<forall>i j. holds_lock (lc_at s i) \<longrightarrow> holds_lock (lc_at s j) \<longrightarrow> i = j)
    \<and> ((\<forall>i. \<not> holds_lock (lc_at s i)) \<longrightarrow> ls_src (lc_lock s) = snd (alone S (ops_of (lc_returned s)) g))
    \<and> (\<forall>i. lc_at s i \<noteq> Outside \<longrightarrow> (\<exists>j s'. lc_at s j \<noteq> Outside \<and> goroutine_step S j s = Some s'))"
proof -
  note inv = running_inv [OF assms]
  note own = lock_inv_owner [OF inv]
  have "\<exists>j s'. lc_at s j \<noteq> Outside \<and> goroutine_step S j s = Some s'" if i: "lc_at s i \<noteq> Outside" for i
  proof (cases "ls_mtx (lc_lock s)")
    case None
    with i own [of i] obtain x where "lc_at s i = At_Lock x" by (cases "lc_at s i") auto
    with None i show ?thesis by (intro exI [of _ i]) (simp add: goroutine_step_def)
  next
    case (Some j)
    with own [of j] have "holds_lock (lc_at s j)" by simp
    then have "\<exists>s'. goroutine_step S j s = Some s'"
      by (cases "lc_at s j") (simp_all add: goroutine_step_def Let_def split: prod.splits)
    moreover have "lc_at s j \<noteq> Outside" using \<open>holds_lock (lc_at s j)\<close> by auto
    ultimately show ?thesis by blast
  qed
  moreover have "ls_src (lc_lock s) = snd (alone S (ops_of (lc_returned s)) g)" if "\<forall>i. \<not> holds_lock (lc_at s i)"
  proof -
    have "ls_mtx (lc_lock s) = None" using that own by (cases "ls_mtx (lc_lock s)") auto
    with inv show ?thesis by (simp add: lock_inv_def Let_def)
  qed
  moreover have "answers_of (lc_returned s) = fst (alone S (ops_of (lc_returned s)) g)" using inv by (simp add: lock_inv_def)
  ultimately show ?thesis using own by auto
qed

theorem lockSource_linearizable_witness:
  "\<exists>s. running \<lparr>src_Int63 = \<lambda>g. (g, g + 1), src_Uint64 = \<lambda>g. (g, g + 1), src_Seed = \<lambda>seed g. seed\<rparr> (7 :: 64 word) s
     \<and> lc_returned s = [(1, Op_Uint64, Some 7), (0, Op_Int63, Some 8)] \<and> answers_of (lc_returned s) = [Some 7, Some 8]"
proof -
  let ?S = "\<lparr>src_Int63 = \<lambda>g. (g, g + 1), src_Uint64 = \<lambda>g. (g, g + 1), src_Seed = \<lambda>seed g. seed\<rparr> :: 64 word Source64"
  let ?s = "\<lparr>lc_lock = \<lparr>ls_src = 7, ls_mtx = None\<rparr>, lc_at = (\<lambda>_. Outside), lc_returned = []\<rparr>"
  have r0: "running ?S 7 (enter 1 Op_Uint64 (enter 0 Op_Int63 ?s))"
    by (intro running.call running.fresh) (simp_all add: enter_def)
  obtain s where s: "turns ?S [1, 1, 1, 1, 0, 0, 0, 0] (enter 1 Op_Uint64 (enter 0 Op_Int63 ?s)) = Some s"
    "lc_returned s = [(1, Op_Uint64, Some 7), (0, Op_Int63, Some 8)]"
    by (simp add: goroutine_step_def enter_def)
  have r: "running ?S 7 s" by (rule running_turns [OF r0 s(1)])
  from lockSource_linearizable [OF r] have "answers_of (lc_returned s) = fst (alone ?S (ops_of (lc_returned s)) 7)" by blast
  also have "\<dots> = [Some 7, Some 8]" by (simp add: s(2) ops_of_def)
  finally show ?thesis using r s(2) by blast
qed

end
