(* ===== verification/Shutdown.thy ===== *)
theory Shutdown
  imports Networks
begin

section \<open>Stopping a node\<close>

text \<open>
  What \<open>Network.Stop\<close> leads to. The loops of the controller may return from then on (rule \<open>return\<close> of \<open>node\<close>). The
  loops of the peers end by themselves: each \<open>sendLoop\<close> sees that the network is stopped, stops its peer, which
  closes the connection, and closes the channel of the peer.
\<close>

text \<open>The turns of the send loops of the peers in a given order, with the clock and the choice of each.\<close>

primrec send_turns :: "Lib \<Rightarrow> (peer_ref \<times> time \<times> bool) list \<Rightarrow> NetState \<Rightarrow> NetState option" where
  "send_turns lib [] s = Some s"
| "send_turns lib (t # ts) s =
     Option.bind (peer_send lib (fst (snd t)) (snd (snd t)) (fst t) s) (send_turns lib ts)"

definition disconnected :: "Peer \<Rightarrow> bool" where
  "disconnected p \<longleftrightarrow> p_stopped p \<and> p_connClosed p \<and> ch_closed (p_send p)"

lemma sendLoop_stopped:
  assumes "sendLoop_step lib now True quit p = Loop_Continue p'"
  shows "length (ch_buf (p_send p')) < length (ch_buf (p_send p))"
  using assms
  by (auto simp: sendLoop_step_def Channel_Receive_def Let_def split: if_splits list.splits option.splits sum.splits prod.splits)

text \<open>A turn of a send loop in a stopped network: the loop returns, or takes a parcel from the queue.\<close>

lemma send_turn:
  assumes "net_inv s" and "n_stopped s" and "r < n_next s"
  shows "\<exists>s'. peer_send lib now quit r s = Some s' \<and> net_inv s' \<and> n_stopped s' \<and> n_next s' = n_next s
    \<and> (\<forall>q. q \<noteq> r \<longrightarrow> n_heap s' q = n_heap s q)
    \<and> (disconnected (n_heap s' r) \<or> length (ch_buf (p_send (n_heap s' r))) < length (ch_buf (p_send (n_heap s r))))
    \<and> (disconnected (n_heap s r) \<longrightarrow> disconnected (n_heap s' r))"
proof -
  from peer_send_inv [OF assms(1,3), of lib now quit] obtain s' where s': "peer_send lib now quit r s = Some s'" "net_inv s'"
    by blast
  note ok = net_invD(2) [OF assms(1,3)]
  show ?thesis
  proof (cases "ch_closed (p_send (n_heap s r))")
    case True
    with ok have "disconnected (n_heap s r)" by (auto simp: disconnected_def peer_ok_def)
    with True s' assms show ?thesis by (auto simp: peer_send_def)
  next
    case False
    then have nd: "\<not> disconnected (n_heap s r)" by (simp add: disconnected_def)
    show ?thesis
    proof (cases "sendLoop_step lib now True quit (n_heap s r)")
      case (Loop_Continue p)
      with False assms(2) s'(1) have "s' = set_peer r p s" by (simp add: peer_send_def)
      with s' assms(2) nd sendLoop_stopped [OF Loop_Continue] show ?thesis by auto
    next
      case (Loop_Return p)
      let ?s = "set_peer r p s"
      from Loop_Return False assms(2) s'(1) obtain s1 p1 where
        s1: "Peer_Stop r ?s = Some s1" "close_send (n_heap s1 r) = Some p1" "s' = set_peer r p1 s1"
        by (auto simp: peer_send_def bind_eq_Some_conv)
      have "n_next s1 = n_next s" "n_stopped s1 = n_stopped s" "\<forall>q. q \<noteq> r \<longrightarrow> n_heap s1 q = n_heap s q"
        using s1(1) by (auto simp: Peer_Stop_def Let_def split: if_splits option.splits)
      moreover have "ch_closed (p_send p1)" using s1(2) by (auto simp: close_send_def Channel_Close_def split: if_splits)
      ultimately have "disconnected (n_heap s' r)" "n_next s' = n_next s" "n_stopped s'" "\<forall>q. q \<noteq> r \<longrightarrow> n_heap s' q = n_heap s q"
        using s1(3) net_invD(2) [OF s'(2), of r] assms(2,3) by (auto simp: disconnected_def peer_ok_def)
      with s' show ?thesis by blast
    next
      case (Loop_Deliver p x)
      with sendLoop_ok [OF ok, of lib now True quit] show ?thesis by simp
    qed
  qed
qed

lemma send_turns_end:
  assumes "net_inv s" and "n_stopped s" and "\<forall>t \<in> set ts. fst t < n_next s"
  shows "\<exists>s'. send_turns lib ts s = Some s' \<and> net_inv s' \<and> n_stopped s' \<and> n_next s' = n_next s
    \<and> (\<forall>r. r < n_next s \<longrightarrow> disconnected (n_heap s r) \<or> length (ch_buf (p_send (n_heap s r))) < length (filter (\<lambda>t. fst t = r) ts)
          \<longrightarrow> disconnected (n_heap s' r))"
  using assms
proof (induction ts arbitrary: s)
  case (Cons t ts)
  then have t: "fst t < n_next s" by simp
  from send_turn [OF Cons.prems(1,2) t, of lib "fst (snd t)" "snd (snd t)"] obtain s1 where
    s1: "peer_send lib (fst (snd t)) (snd (snd t)) (fst t) s = Some s1" "net_inv s1" "n_stopped s1" "n_next s1 = n_next s"
    "\<forall>q. q \<noteq> fst t \<longrightarrow> n_heap s1 q = n_heap s q"
    "disconnected (n_heap s1 (fst t)) \<or> length (ch_buf (p_send (n_heap s1 (fst t)))) < length (ch_buf (p_send (n_heap s (fst t))))"
    "disconnected (n_heap s (fst t)) \<longrightarrow> disconnected (n_heap s1 (fst t))" by blast
  from Cons.IH [OF s1(2,3)] Cons.prems(3) s1(4) obtain s' where
    s': "send_turns lib ts s1 = Some s'" "net_inv s'" "n_stopped s'" "n_next s' = n_next s1"
    "\<forall>r. r < n_next s \<longrightarrow> disconnected (n_heap s1 r) \<or> length (ch_buf (p_send (n_heap s1 r))) < length (filter (\<lambda>t. fst t = r) ts)
          \<longrightarrow> disconnected (n_heap s' r)" by auto
  have "disconnected (n_heap s' r)" if r: "r < n_next s"
    and d: "disconnected (n_heap s r) \<or> length (ch_buf (p_send (n_heap s r))) < length (filter (\<lambda>t. fst t = r) (t # ts))" for r
  proof (cases "r = fst t")
    case True
    with d s1(6,7) have "disconnected (n_heap s1 r) \<or> length (ch_buf (p_send (n_heap s1 r))) < length (filter (\<lambda>t. fst t = r) ts)"
      by auto
    with s'(5) r show ?thesis by blast
  next
    case False
    with d s1(5) s'(5) r show ?thesis by auto
  qed
  with s1(1,4) s' show ?case by auto
qed simp

subsection \<open>Properties\<close>

text \<open>C18: a node that was stopped lets go of its peers: in whatever order their send loops take turns from then on,
  and whatever they choose, once each of them has had one more turn than there were parcels in its queue, every
  peer is stopped, its connection and its channel are closed, and its read loop returns as soon as it has used up
  what was read from the connection before.\<close>

theorem stopped_node_disconnects:
  assumes "net_inv s" and "n_stopped s"
    and "\<forall>t \<in> set ts. fst t < n_next s"
    and "\<forall>r < n_next s. length (ch_buf (p_send (n_heap s r))) < length (filter (\<lambda>t. fst t = r) ts)"
  shows "\<exists>s'. send_turns lib ts s = Some s' \<and> net_inv s' \<and> n_next s' = n_next s
    \<and> (\<forall>r < n_next s. disconnected (n_heap s' r)
         \<and> readLoop_step lib now False take_it (n_heap s' r) = Some (Loop_Return (n_heap s' r)))"
proof -
  from send_turns_end [OF assms(1-3), of lib] obtain s' where
    "send_turns lib ts s = Some s'" "net_inv s'" "n_next s' = n_next s" "\<forall>r < n_next s. disconnected (n_heap s' r)"
    using assms(4) by blast
  then show ?thesis by (auto simp: readLoop_step_def disconnected_def)
qed

theorem stopped_node_disconnects_witness:
  "\<exists>s'. send_turns sample_lib [(1, 5, False), (0, 6, True)] (sample_net\<lparr>n_stopped := True\<rparr>) = Some s'
     \<and> disconnected (n_heap s' 0) \<and> disconnected (n_heap s' 1)"
proof -
  let ?s = "sample_net\<lparr>n_stopped := True\<rparr>"
  have inv: "net_inv ?s" using sample_net_inv by (simp add: net_inv_def)
  have two: "n_next ?s = 2" by (simp add: sample_net_def)
  have empty: "ch_buf (p_send (n_heap ?s r)) = []" for r
    by (simp add: sample_net_def sample_peer_def newPeer_def NewPeerHashCache_def newParcelChannel_def DefaultP2PConfiguration_def
        duration_defs)
  have ts: "\<forall>t \<in> set [(1, 5, False), (0, 6, True)]. fst t < n_next ?s" using two by simp
  have "\<forall>r < n_next ?s. length (ch_buf (p_send (n_heap ?s r))) < length (filter (\<lambda>t. fst t = r) [(1, 5, False), (0, 6, True)])"
    using empty by (auto simp: two less_2_cases_iff)
  from stopped_node_disconnects [OF inv _ ts this, of sample_lib 7 True] obtain s' where
    "send_turns sample_lib [(1, 5, False), (0, 6, True)] ?s = Some s'" "\<forall>r < n_next ?s. disconnected (n_heap s' r)" by auto
  with two show ?thesis by (intro exI [of _ s']) (simp del: send_turns.simps)
qed

end
