(* ===== verification/Spec2Isabelle.thy ===== *)
theory Spec2Isabelle
  imports Blocking Debugging Delivery LockSource Shutdown
begin

text \<open>
  This development verifies the peer-to-peer package of the Factom node: the code under \<open>src/\<close>, written in
  Go. It is a shallow embedding: every function, method, loop turn and goroutine is a HOL function on the
  state it works on, and the theorems are about these functions.

  \<^bold>\<open>The program.\<close> A node (\<open>Network\<close>, \<open>network.go\<close>) has a \<open>controller\<close> that runs six goroutines: \<open>route\<close>
  takes the parcels of the application to the peers, \<open>manageData\<close> handles what the peers send,
  \<open>manageOnline\<close> keeps the peer store, \<open>listen\<close> accepts connections, \<open>catReplenish\<close> looks for new peers and
  \<open>run\<close> drops surplus peers, collects metrics and sends pings. A connection becomes a \<open>Peer\<close> after a handshake
  in which the two nodes agree on one of three protocol versions; a peer has three goroutines of its own. The
  goroutines talk over channels, over the peer store and over a few maps that are protected by mutexes.

  \<^bold>\<open>How the model corresponds to the code.\<close> The Go type names and function names are kept; methods carry the
  name of their type (\<open>PeerStore_Add\<close>), fields of a record a short prefix (\<open>ps_\<close>, \<open>p_\<close>, \<open>n_\<close>, \<open>c_\<close>). Fixed-width
  integers are words. Errors are values of a sum type, whose left side says which error it is; a panic is
  \<open>None\<close>, or \<open>Panics\<close> for a turn of a loop. A reading of the clock is an argument, one for each \<open>time.Now()\<close>, and
  random numbers come from a supply of draws (\<open>rng\<close>). A peer is a reference into a heap, since the code compares
  pointers. Code that is not part of the package is a parameter: JSON, gob's type registry is modelled as far as
  it matters, SHA, the file system, the web, the operating system's answer to a write; what a theorem needs of a
  parameter is a named predicate in its assumptions (\<open>json_codec\<close>, \<open>cache_codec\<close>, \<open>total_writer\<close>, \<open>takes_new_names\<close>). A map
  that the code may leave nil is an option (\<open>c_bans\<close>), and so is a pointer. The loops over
  lists are structural; \<open>connect_loop\<close>, the readers of protobuf fields and the number printing end by a measure;
  there is no fuel. A loop that never ends (a \<open>for\<close> without a condition) is modelled by its turns, and a
  node by the interleaving of all turns (\<open>node\<close> in \<open>Networks\<close>).

  \<^bold>\<open>The theories.\<close>

  \<^item> \<open>P2P_Prelude\<close>: bytes, strings, errors, time, random draws, and the lemmas on these that all share.
  \<^item> \<open>Floats\<close>: \<open>float64\<close> as rational numbers that are rounded after every operation.
  \<^item> \<open>GoLib\<close>: the functions of the Go library on strings, addresses and numbers that the package calls.
  \<^item> \<open>Regexes\<close>: regular expressions, as far as the package uses them: their syntax and what they match.
  \<^item> \<open>Parcels\<close>, \<open>Endpoints\<close>, \<open>Config\<close>, \<open>Handshakes\<close>: \<open>parcel.go\<close>, \<open>parcelType.go\<close>, \<open>networkId.go\<close>, \<open>util.go\<close>,
    \<open>endpoint.go\<close>, \<open>configuration.go\<close>, \<open>handshake.go\<close>. Printing and parsing of endpoints, the hostname
    expression against its matcher, what \<open>Check\<close> and \<open>Sanitize\<close> establish.
  \<^item> \<open>Varint\<close>, \<open>Protobuf\<close>, \<open>Protobuf_Codec\<close>, \<open>ProtoV11\<close>: \<open>protocolV11.pb.go\<close> and \<open>protocolV11.go\<close>. The generated code
    writes the field-by-field encoding and reads it back, never reads outside a message, and the framing is exact.
  \<^item> \<open>Connections\<close>, \<open>ProtoGob\<close>, \<open>Protocols\<close>: connections as streams, \<open>protocolV9.go\<close>, \<open>protocolV10.go\<close>, \<open>protocol.go\<close>. The
    interface \<open>parcel_protocol\<close> says what a protocol promises; all three versions are instances.
  \<^item> \<open>HashCache\<close>, \<open>ParcelChan\<close>, \<open>PeerStores\<close>, \<open>Limiter\<close>, \<open>Dialers\<close>, \<open>Seeds\<close>, \<open>MetricsRW\<close>: the building blocks of the same
    names. \<open>sliding_window\<close>, \<open>dropping_queue\<close> and \<open>keyed_store\<close> are the contracts that the resend filter, the
    parcel channel and the peer store fulfil.
  \<^item> \<open>Peers\<close>: \<open>peer.go\<close>, \<open>peerUtil.go\<close>. The life of one peer.
  \<^item> \<open>Controller\<close>: \<open>controller.go\<close>. The state of a node, its invariant \<open>net_inv\<close>, bans and special peers.
  \<^item> \<open>Persistence\<close>, \<open>Sharing\<close>, \<open>Routing\<close>, \<open>Connecting\<close>, \<open>Cat\<close>, \<open>RunLoop\<close>: the files \<open>controller_persistence.go\<close>,
    \<open>controller_cat.go\<close> (in two parts), \<open>controller_routing.go\<close>, \<open>controller_connections.go\<close> and
    \<open>controller_run.go\<close>. What each operation does, on every branch, and that it keeps \<open>net_inv\<close>.
  \<^item> \<open>Negotiation\<close>: the two ends of a handshake run against each other, and why version 9 keeps its encoder.
  \<^item> \<open>Networks\<close>: \<open>network.go\<close>, the creation of a node, the interface of the application, the interleaving, and the
    Prometheus instruments that each turn uses.
  \<^item> \<open>Delivery\<close>: the way of a message from one application to the other, through both nodes.
  \<^item> \<open>Shutdown\<close>: what happens to the peers of a node that was stopped.
  \<^item> \<open>Blocking\<close>: where goroutines wait for each other, statement by statement.
  \<^item> \<open>LockSource\<close>: \<open>lockSource.go\<close>, the random source that goroutines share, statement by statement.
  \<^item> \<open>Prom\<close>, \<open>Debugging\<close>: \<open>prometheus.go\<close> and \<open>debug.go\<close>.

  \<^bold>\<open>What the theorems show.\<close> What an application sends to a connected peer, the application on the other side reads,
  complete and in order. Two nodes whose configurations are compatible connect, agree on the version and
  understand each other; parcels arrive complete and in order; the peer store refines a map from hashes to the
  latest peer; parcels are routed to exactly the right peers; who is let in, how often a host may connect and how
  often an endpoint is dialled; bans, cache files and peer shares survive a round trip; a CAT round drops exactly the
  surplus and no special peer; the replenish loop is bounded; no turn of any goroutine panics, as long as the resend
  filter is configured sensibly, the cache file has no nil bans and the node is the first of its process that uses
  Prometheus; a node that was stopped lets go of all its peers; the shared random source behaves like one that a single goroutine uses.

  \<^bold>\<open>What does not hold.\<close> The theorems also record where the code falls short: a ban leaves other peers of the ip
  connected (\<open>ban_stops_one_peer\<close>); alternatives offered by full nodes are never dialled (\<open>alternatives_ignored\<close>); a
  peer that stops before it is announced stays in the store (\<open>stopped_before_announced\<close>); \<open>Peer.Send\<close> may hit a
  closed channel (\<open>Peer_Send_race\<close>); a configuration without resend buckets is accepted and crashes
  (\<open>no_buckets_panics\<close>); IPv6 endpoints are confused with each other and cannot be read back
  (\<open>PeerStore_Connected_ipv6_collision\<close>, \<open>ipv6_String_unparseable\<close>); three responses of one peer, or eleven
  messages about peers, can bring the node to a halt (\<open>responses_deadlock\<close>, \<open>status_deadlock\<close>); a second node in one
  process has no Prometheus instruments and panics in its first turn of \<open>run\<close> (\<open>second_network_panics\<close>); a cache file
  whose bans are \<open>null\<close> makes the first ban panic (\<open>null_bans_panic\<close>); a banned ip is sent alternatives
  (\<open>banned_gets_share\<close>); a nil parcel crashes the node
  (\<open>nil_parcel_panics\<close>); an empty seed makes the reseed limit wrap around (\<open>empty_seed_wraps\<close>).

  \<^bold>\<open>Granularity.\<close> In \<open>node\<close> a turn of a loop is atomic, except that the replenish loop is split where it dials and
  where it waits. What may happen inside a turn is studied where it matters, in \<open>Peers\<close> (the race of \<open>Send\<close> with
  the closing of the channel) and in \<open>Blocking\<close>. The channels \<open>peerStatus\<close> and \<open>peerData\<close> hold the messages whose
  sending has completed.

  \<^bold>\<open>Not modelled.\<close> Logging; what the Prometheus instruments record, apart from the gauges of \<open>runMetrics\<close> (\<open>Prom\<close> has
  their registration, and \<open>Networks\<close> which turn uses which); the limit of \<open>encoding/gob\<close> on the size of a message; the loop of the debug web server; deadlines of connections, which show as errors of reads
  and writes; the getters, descriptors and reflection methods of the generated protobuf code, which the package
  does not call; the sizes of the individual reads and writes of a buffered connection; \<open>SetMetricsHook\<close>, which
  stores a function of the application; \<open>Addr\<close> and \<open>Close\<close> of the limited listener, which only delegate; races on
  unsynchronised memory, since a turn of a goroutine is one step except where \<open>Peers\<close>, \<open>Blocking\<close> and
  \<open>LockSource\<close> split it; and the limits of memory, such as a channel capacity in the configuration that the
  runtime cannot allocate.
\<close>

section \<open>A node as a whole\<close>

text \<open>C3: a node that was started properly never crashes. Properly means: the configuration is accepted and has a bucket
  and a positive interval for the resend filter; the cache file, if one is read, does not have \<open>null\<close> in place of its
  bans; and if Prometheus is on, this is the first node of the process that turns it on, and the registry takes
  the names of its instruments. (Each of these is needed: \<open>no_buckets_panics\<close>, \<open>null_bans_panic\<close>,
  \<open>second_network_panics\<close>.) Then, whatever the peers, the web, the connections and the application do, and in whatever
  order the goroutines take their turns, no turn ends in a panic, the use of its Prometheus instruments and the
  assignments to its maps included, and the books of the node stay right: the store agrees with its counters, every
  peer that is referred to exists and is in order, and the channels of the application are open. The turns are
  taken one at a time, and the application sends no nil parcel.\<close>

theorem node_never_panics:
  assumes "node w b conf L s" and "resend_ok conf" and "cache_not_null b conf" and "prom_first known b conf" and "possible ev s"
  shows "happen w ev s \<noteq> Panics \<and> net_inv s
    \<and> int (PeerStore_Total (c_peers s)) = PeerStore_Incoming (c_peers s) + PeerStore_Outgoing (c_peers s)
    \<and> (\<forall>r < n_next s. length (ch_buf (p_send (n_heap s r))) \<le> ch_cap (p_send (n_heap s r)))"
proof -
  have inv: "net_inv s" by (rule node_inv [OF assms(1-4)])
  have "happen w ev s \<noteq> Panics" using happen_inv [OF inv assms(5), of w] by (cases "happen w ev s") simp_all
  moreover have "int (PeerStore_Total (c_peers s)) = PeerStore_Incoming (c_peers s) + PeerStore_Outgoing (c_peers s)"
    using net_invD(1) [OF inv] sum_length_filter_compl [of "\<lambda>r. pk_IsIncoming (n_heap s r)" "peers_of (c_peers s)"]
    by (simp add: Total_peers PeerStore_Incoming_def PeerStore_Outgoing_def store_inv_def)
  ultimately show ?thesis using inv net_invD(2) [OF inv] by (auto simp: peer_ok_def)
qed

theorem node_never_panics_witness:
  "\<exists>s. NewNetwork sample_boot DefaultP2PConfiguration = Some (Inr s) \<and> n_prom s \<noteq> None
    \<and> happen sample_world (E_Cycle (\<lambda>_. 5) True Map.empty) s \<noteq> Panics"
proof -
  from sample_boot_starts obtain s where s: "NewNetwork sample_boot DefaultP2PConfiguration = Some (Inr s)" "n_prom s \<noteq> None"
    by blast
  have "resend_ok DefaultP2PConfiguration" by (rule resend_ok_default)
  from node_never_panics [OF node.boot [OF s(1)] this sample_boot_ok, of "E_Cycle (\<lambda>_. 5) True Map.empty" sample_world] s
  show ?thesis by simp
qed

end
